(* ===== verification/Prelude.thy ===== *)
theory Prelude
  imports Main "HOL-Library.Word" "HOL-Library.Signed_Division" "HOL-Library.Char_ord"
begin

text \<open>
  The part of the development every component shares: Go's 64-bit \<open>int\<close> as a word, its
  strings as byte lists, its maps as association lists with distinct keys, and the stable
  sort of the standard library (\<open>sort.SliceStable\<close>), with the generic facts the
  component proofs use.

  \<^item> \<open>i64\<close> is Go's \<open>int\<close> on a 64-bit platform: \<open>+\<close>, \<open>-\<close> and \<open>*\<close> wrap, comparisons
    read the word as two's complement (\<open>sint\<close>), and \<open>/\<close> and \<open>%\<close> truncate
    towards zero (\<open>sdiv\<close>, \<open>smod\<close>).
  \<^item> \<open>string\<close> is a list of bytes, exactly what a Go string is; a rune is decoded from it
    where the code decodes one (theory \<open>GoLib\<close>).
  \<^item> An association list stands for a Go map whose iteration order does not reach the
    result; \<open>alput\<close> replaces in place, so keys stay distinct.
\<close>

named_theorems go_int "facts about Go's 64-bit int"
named_theorems al_simps "association lists as Go maps"

type_synonym i64 = "64 word"
type_synonym u64 = "64 word"

abbreviation i64_of_nat :: "nat \<Rightarrow> i64" where
  "i64_of_nat n \<equiv> word_of_nat n"

abbreviation i64_of_int :: "int \<Rightarrow> i64" where
  "i64_of_int n \<equiv> word_of_int n"

text \<open>Go's comparison operators on \<open>int\<close>.\<close>

definition lt64 :: "i64 \<Rightarrow> i64 \<Rightarrow> bool" where
  "lt64 a b \<longleftrightarrow> sint a < sint b"

definition le64 :: "i64 \<Rightarrow> i64 \<Rightarrow> bool" where
  "le64 a b \<longleftrightarrow> sint a \<le> sint b"

text \<open>Go's division and remainder on \<open>int\<close>, for a non-zero divisor.\<close>

definition div64 :: "i64 \<Rightarrow> i64 \<Rightarrow> i64" where
  "div64 a b = i64_of_int (sint a sdiv sint b)"

definition mod64 :: "i64 \<Rightarrow> i64 \<Rightarrow> i64" where
  "mod64 a b = i64_of_int (sint a smod sint b)"

definition in_i64 :: "int \<Rightarrow> bool" where
  "in_i64 n \<longleftrightarrow> - (2 ^ 63) \<le> n \<and> n < 2 ^ 63"

lemma sint_range64 [go_int]: "- (2 ^ 63) \<le> sint (w :: i64)" "sint (w :: i64) < 2 ^ 63"
  using sint_ge [of w] sint_lt [of w] by simp_all

lemma in_i64_sint [simp, go_int]: "in_i64 (sint (w :: i64))"
  using sint_range64 [of w] by (simp add: in_i64_def)

lemma sint_of_int64 [go_int]: "in_i64 n \<Longrightarrow> sint (word_of_int n :: i64) = n"
  unfolding in_i64_def by (simp add: sint_sbintrunc' signed_take_bit_int_eq_self)

lemma word_of_int_sint [simp, go_int]: "(word_of_int (sint w) :: i64) = w"
  by simp

lemma sint_eq_iff64 [go_int]: "sint (a :: i64) = sint b \<longleftrightarrow> a = b"
  by (metis word_of_int_sint)

lemma sint_of_nat64 [go_int]: "n < 2 ^ 63 \<Longrightarrow> sint (word_of_nat n :: i64) = int n"
proof -
  assume "n < 2 ^ 63"
  then have "in_i64 (int n)" by (simp add: in_i64_def)
  then have "sint (word_of_int (int n) :: i64) = int n" by (rule sint_of_int64)
  then show ?thesis by simp
qed

lemma uint_sint64 [go_int]: "uint (w :: i64) = sint w mod 2 ^ 64"
  by (simp add: uint_sint take_bit_eq_mod)

lemma uint_of_int64 [go_int]: "uint (word_of_int k :: i64) = k mod 2 ^ 64"
  by (simp add: uint_word_of_int_eq take_bit_eq_mod)

lemma lt64_irrefl [simp, go_int]: "\<not> lt64 a a"
  by (simp add: lt64_def)

lemma lt64_trans [go_int]: "lt64 a b \<Longrightarrow> lt64 b c \<Longrightarrow> lt64 a c"
  by (simp add: lt64_def)

lemma lt64_total [go_int]: "lt64 a b \<or> a = b \<or> lt64 b a"
  using sint_eq_iff64 [of a b] by (auto simp: lt64_def)

text \<open>Go's byte-wise string order: a proper prefix is smaller.\<close>

fun str_lt :: "string \<Rightarrow> string \<Rightarrow> bool" where
  "str_lt [] [] = False"
| "str_lt [] (_ # _) = True"
| "str_lt (_ # _) [] = False"
| "str_lt (a # as) (b # bs) =
     (if of_char a < (of_char b :: nat) then True
      else if of_char b < (of_char a :: nat) then False
      else str_lt as bs)"

lemma str_lt_irrefl [simp]: "\<not> str_lt s s"
  by (induction s) simp_all

lemma str_lt_trans: "str_lt a b \<Longrightarrow> str_lt b c \<Longrightarrow> str_lt a c"
proof (induction a b arbitrary: c rule: str_lt.induct)
  case (2 b bs)
  then show ?case by (cases c) simp_all
next
  case (4 a as b bs)
  then show ?case by (cases c) (auto split: if_splits)
qed simp_all

lemma str_lt_total: "str_lt a b \<or> a = b \<or> str_lt b a"
proof (induction a b rule: str_lt.induct)
  case (4 a as b bs)
  show ?case
  proof (cases "of_char a = (of_char b :: nat)")
    case True
    then have "a = b" by simp
    with 4 True show ?thesis by auto
  next
    case False
    then show ?thesis by auto
  qed
qed simp_all

subsection \<open>Go maps as association lists\<close>

fun alget :: "('k \<times> 'v) list \<Rightarrow> 'k \<Rightarrow> 'v option" where
  "alget [] k = None"
| "alget ((k', v) # xs) k = (if k' = k then Some v else alget xs k)"

fun alput :: "('k \<times> 'v) list \<Rightarrow> 'k \<Rightarrow> 'v \<Rightarrow> ('k \<times> 'v) list" where
  "alput [] k v = [(k, v)]"
| "alput ((k', v') # xs) k v = (if k' = k then (k, v) # xs else (k', v') # alput xs k v)"

definition aldel :: "('k \<times> 'v) list \<Rightarrow> 'k \<Rightarrow> ('k \<times> 'v) list" where
  "aldel xs k = filter (\<lambda>p. fst p \<noteq> k) xs"

lemma alget_map_of: "alget xs k = map_of xs k"
  by (induction xs) auto

lemma alget_alput [simp, al_simps]: "alget (alput xs k v) j = (if j = k then Some v else alget xs j)"
  by (induction xs) auto

lemma alget_aldel [simp, al_simps]: "alget (aldel xs k) j = (if j = k then None else alget xs j)"
  by (induction xs) (auto simp: aldel_def)

lemma keys_alput [simp, al_simps]: "fst ` set (alput xs k v) = insert k (fst ` set xs)"
  by (induction xs k v rule: alput.induct) (simp_all add: insert_commute)

lemma keys_aldel [simp, al_simps]: "fst ` set (aldel xs k) = fst ` set xs - {k}"
  by (auto simp: aldel_def)

lemma distinct_alput [simp, al_simps]: "distinct (map fst xs) \<Longrightarrow> distinct (map fst (alput xs k v))"
proof (induction xs)
  case (Cons p xs)
  obtain a b where p: "p = (a, b)" by fastforce
  have "set (map fst (alput xs k v)) = insert k (fst ` set xs)" by simp
  with Cons p show ?case by auto
qed simp

lemma distinct_aldel [simp, al_simps]: "distinct (map fst xs) \<Longrightarrow> distinct (map fst (aldel xs k))"
  by (induction xs) (auto simp: aldel_def)

lemma alget_None_iff [al_simps]: "alget xs k = None \<longleftrightarrow> k \<notin> fst ` set xs"
  by (induction xs k rule: alget.induct) simp_all

lemma alget_Some_mem: "alget xs k = Some v \<Longrightarrow> (k, v) \<in> set xs"
  by (induction xs) (auto split: if_splits)

lemma alput_same: "alget xs k = Some v \<Longrightarrow> alput xs k v = xs"
  by (induction xs) (auto split: if_splits)

lemma alput_alput_same: "alput (alput xs k v) k w = alput xs k w"
  by (induction xs) auto

lemma alput_append_absent: "alget xs k = None \<Longrightarrow> alput xs k v = xs @ [(k, v)]"
  by (induction xs) (auto split: if_splits)

lemma aldel_alput_absent: "alget xs k = None \<Longrightarrow> aldel (alput xs k v) k = xs"
proof -
  assume a: "alget xs k = None"
  then have "\<forall>p \<in> set xs. fst p \<noteq> k" by (auto simp: alget_None_iff)
  then have "filter (\<lambda>p. fst p \<noteq> k) xs = xs" by (simp add: filter_id_conv)
  with a show ?thesis by (simp add: alput_append_absent aldel_def)
qed

subsection \<open>sort.SliceStable\<close>

text \<open>
  Insertion from the left: each new element moves left past the elements it is less than.
  This is Go's own algorithm up to twenty elements; for longer slices Go merges sorted
  blocks, which gives the same list whenever \<open>lt\<close> is a strict weak order, since a
  stable sort by such an order is unique (the locale below).
\<close>

fun ins_back :: "('a \<Rightarrow> 'a \<Rightarrow> bool) \<Rightarrow> 'a \<Rightarrow> 'a list \<Rightarrow> 'a list" where
  "ins_back lt x [] = [x]"
| "ins_back lt x (y # ys) = (if lt x y then y # ins_back lt x ys else x # y # ys)"

definition stable_sort :: "('a \<Rightarrow> 'a \<Rightarrow> bool) \<Rightarrow> 'a list \<Rightarrow> 'a list" where
  "stable_sort lt xs = rev (fold (ins_back lt) xs [])"

lemma set_ins_back [simp]: "set (ins_back lt x ys) = insert x (set ys)"
  by (induction ys) auto

lemma length_ins_back [simp]: "length (ins_back lt x ys) = Suc (length ys)"
  by (induction ys) auto

lemma set_fold_ins_back: "set (fold (ins_back lt) xs acc) = set xs \<union> set acc"
  by (induction xs arbitrary: acc) auto

lemma length_fold_ins_back: "length (fold (ins_back lt) xs acc) = length xs + length acc"
  by (induction xs arbitrary: acc) auto

lemma set_stable_sort [simp]: "set (stable_sort lt xs) = set xs"
  by (simp add: stable_sort_def set_fold_ins_back)

lemma length_stable_sort [simp]: "length (stable_sort lt xs) = length xs"
  by (simp add: stable_sort_def length_fold_ins_back)

lemma stable_sort_Nil [simp]: "stable_sort lt [] = []"
  by (simp add: stable_sort_def)

text \<open>
  What a client of the stable sort relies on: a strict weak order. The result is then
  sorted, and elements the order does not tell apart keep their order.
\<close>

locale sort_order =
  fixes lt :: "'a \<Rightarrow> 'a \<Rightarrow> bool"
  assumes less_irrefl: "\<not> lt x x"
    and less_trans: "lt x y \<Longrightarrow> lt y z \<Longrightarrow> lt x z"
    and less_weak: "lt x z \<Longrightarrow> lt x y \<or> lt y z"
begin

lemma less_asym: "lt x y \<Longrightarrow> \<not> lt y x"
  using less_irrefl less_trans by blast

lemma not_less_trans: "\<not> lt x y \<Longrightarrow> \<not> lt y z \<Longrightarrow> \<not> lt x z"
  using less_weak by blast

lemma ins_back_sorted:
  "sorted_wrt (\<lambda>a b. \<not> lt a b) ys \<Longrightarrow> sorted_wrt (\<lambda>a b. \<not> lt a b) (ins_back lt x ys)"
proof (induction ys)
  case (Cons y ys)
  show ?case
  proof (cases "lt x y")
    case True
    then have "\<not> lt y x" by (rule less_asym)
    with Cons True show ?thesis by auto
  next
    case False
    have "\<not> lt x z" if "z \<in> set ys" for z
      using Cons.prems that not_less_trans [OF False, of z] by auto
    with Cons.prems False show ?thesis by auto
  qed
qed simp

lemma fold_ins_back_sorted:
  "sorted_wrt (\<lambda>a b. \<not> lt a b) acc \<Longrightarrow>
   sorted_wrt (\<lambda>a b. \<not> lt a b) (fold (ins_back lt) xs acc)"
  by (induction xs arbitrary: acc) (auto simp: ins_back_sorted)

lemma stable_sort_sorted: "sorted_wrt (\<lambda>a b. \<not> lt b a) (stable_sort lt xs)"
  using fold_ins_back_sorted [of "[]" xs] by (simp add: stable_sort_def sorted_wrt_rev)

lemma ins_back_filter_other:
  "\<not> P x \<Longrightarrow> filter P (ins_back lt x ys) = filter P ys"
  by (induction ys) auto

lemma ins_back_filter_class:
  assumes "\<And>z. z \<in> set ys \<Longrightarrow> P z \<Longrightarrow> \<not> lt x z" and "P x"
    and "sorted_wrt (\<lambda>a b. \<not> lt a b) ys"
  shows "filter P (ins_back lt x ys) = x # filter P ys"
  using assms
proof (induction ys)
  case (Cons y ys)
  then show ?case by auto
qed simp

lemma fold_ins_back_stable:
  assumes "\<And>a b. P a \<Longrightarrow> P b \<Longrightarrow> \<not> lt a b"
    and "sorted_wrt (\<lambda>a b. \<not> lt a b) acc"
  shows "filter P (fold (ins_back lt) xs acc) = rev (filter P xs) @ filter P acc"
  using assms(2)
proof (induction xs arbitrary: acc)
  case (Cons x xs)
  have IH: "filter P (fold (ins_back lt) xs (ins_back lt x acc))
      = rev (filter P xs) @ filter P (ins_back lt x acc)"
    using Cons.IH Cons.prems ins_back_sorted by blast
  show ?case
  proof (cases "P x")
    case True
    then have "filter P (ins_back lt x acc) = x # filter P acc"
      using assms(1) Cons.prems by (intro ins_back_filter_class) auto
    with IH True show ?thesis by simp
  next
    case False
    with IH show ?thesis by (simp add: ins_back_filter_other)
  qed
qed simp

text \<open>Stability: a class of elements no two of which are ordered keeps its order.\<close>

lemma stable_sort_stable:
  assumes "\<And>a b. P a \<Longrightarrow> P b \<Longrightarrow> \<not> lt a b"
  shows "filter P (stable_sort lt xs) = filter P xs"
  using fold_ins_back_stable [of P "[]" xs] assms
  by (simp add: stable_sort_def flip: rev_filter)

text \<open>Filtering first and sorting first give the same list.\<close>

lemma ins_back_filter:
  assumes "sorted_wrt (\<lambda>a b. \<not> lt a b) ys" "P x"
  shows "filter P (ins_back lt x ys) = ins_back lt x (filter P ys)"
  using assms(1)
proof (induction ys)
  case (Cons y ys)
  have hd: "ins_back lt x zs = x # zs" if "\<And>z. z \<in> set zs \<Longrightarrow> \<not> lt x z" for zs
    using that by (cases zs) auto
  show ?case
  proof (cases "lt x y")
    case False
    then have "\<not> lt x z" if "z \<in> set (filter P ys)" for z
      using Cons.prems that not_less_trans [OF False, of z] by auto
    then have "ins_back lt x (filter P ys) = x # filter P ys" by (rule hd)
    then show ?thesis using False assms(2) by simp
  qed (use Cons in auto)
qed (simp add: assms(2))

lemma fold_ins_back_filter:
  "sorted_wrt (\<lambda>a b. \<not> lt a b) acc \<Longrightarrow>
   filter P (fold (ins_back lt) xs acc) = fold (ins_back lt) (filter P xs) (filter P acc)"
  by (induction xs arbitrary: acc) (simp_all add: ins_back_sorted ins_back_filter ins_back_filter_other)

lemma filter_stable_sort: "filter P (stable_sort lt xs) = stable_sort lt (filter P xs)"
  using fold_ins_back_filter [of "[]" P xs] by (simp add: stable_sort_def flip: rev_filter)

end

text \<open>An order on keys orders what carries them, in either direction.\<close>

lemma sort_order_key: "sort_order lt \<Longrightarrow> sort_order (\<lambda>x y. lt (k x) (k y))"
  unfolding sort_order_def by blast

lemma sort_order_flip: "sort_order lt \<Longrightarrow> sort_order (\<lambda>x y. lt y x)"
  unfolding sort_order_def by blast

lemma ins_back_cong:
  "(\<And>y. y \<in> set ys \<Longrightarrow> lt x y = lt' x y) \<Longrightarrow> ins_back lt x ys = ins_back lt' x ys"
  by (induction ys) auto

lemma stable_sort_cong:
  assumes "\<And>x y. x \<in> set xs \<Longrightarrow> y \<in> set xs \<Longrightarrow> lt x y = lt' x y"
  shows "stable_sort lt xs = stable_sort lt' xs"
proof -
  have "fold (ins_back lt) ys acc = fold (ins_back lt') ys acc"
    if "set ys \<union> set acc \<subseteq> set xs" for ys acc
    using that
  proof (induction ys arbitrary: acc)
    case (Cons y ys)
    then have "ins_back lt y acc = ins_back lt' y acc" using assms by (intro ins_back_cong) auto
    with Cons show ?case by simp
  qed simp
  then show ?thesis by (simp add: stable_sort_def)
qed

interpretation str_order: sort_order str_lt
proof
  show "str_lt x y \<or> str_lt y z" if "str_lt x z" for x y z
    using that str_lt_total [of x y] str_lt_trans [of y x z] by blast
qed (use str_lt_trans in auto)

interpretation int_order: sort_order lt64
proof
  show "lt64 x y \<or> lt64 y z" if "lt64 x z" for x y z
    using that by (auto simp: lt64_def)
qed (auto simp: lt64_def)

end
