(* ===== verification/GoLib.thy ===== *)
theory GoLib
  imports Prelude
begin

text \<open>
  What the program uses of Go's standard library on text: UTF-8 decoding, the functions of
  package \<open>strings\<close> (TrimSpace, Split, Fields, Index, Contains, Join, ReplaceAll) and the
  decimal conversions of package \<open>strconv\<close> (Itoa, Atoi, ParseInt, FormatUint). Strings are
  byte lists, as in Go. The round trip between the decimal printer and the parser is the
  base of the later round-trip lemmas.
\<close>

abbreviation byte :: "char \<Rightarrow> nat" where
  "byte c \<equiv> of_char c"

subsection \<open>UTF-8\<close>

text \<open>
  \<open>utf8.DecodeRune\<close>: the rune and its width; an ill-formed sequence is U+FFFD of width 1.
\<close>

definition cont_byte :: "char \<Rightarrow> bool" where
  "cont_byte c \<longleftrightarrow> 128 \<le> byte c \<and> byte c \<le> 191"

definition rune_error :: nat where
  "rune_error = 65533"

fun decode_rune :: "string \<Rightarrow> nat \<times> nat" where
  "decode_rune [] = (rune_error, 0)"
| "decode_rune (a # s) =
    (let x = byte a in
     if x < 128 then (x, 1)
     else if x < 194 then (rune_error, 1)
     else if x < 224 then
       (case s of
          b # _ \<Rightarrow> if cont_byte b then ((x - 192) * 64 + (byte b - 128), 2) else (rune_error, 1)
        | _ \<Rightarrow> (rune_error, 1))
     else if x < 240 then
       (case s of
          b # c # _ \<Rightarrow>
            if cont_byte b \<and> cont_byte c \<and> (x = 224 \<longrightarrow> 160 \<le> byte b) \<and> (x = 237 \<longrightarrow> byte b \<le> 159)
            then ((x - 224) * 4096 + (byte b - 128) * 64 + (byte c - 128), 3)
            else (rune_error, 1)
        | _ \<Rightarrow> (rune_error, 1))
     else if x < 245 then
       (case s of
          b # c # d # _ \<Rightarrow>
            if cont_byte b \<and> cont_byte c \<and> cont_byte d \<and> (x = 240 \<longrightarrow> 144 \<le> byte b)
               \<and> (x = 244 \<longrightarrow> byte b \<le> 143)
            then ((x - 240) * 262144 + (byte b - 128) * 4096 + (byte c - 128) * 64 + (byte d - 128), 4)
            else (rune_error, 1)
        | _ \<Rightarrow> (rune_error, 1))
     else (rune_error, 1))"

lemma decode_rune_width_pos: "s \<noteq> [] \<Longrightarrow> 0 < snd (decode_rune s)"
  by (cases s) (simp_all add: Let_def split: list.split)

lemma decode_rune_width_le: "snd (decode_rune s) \<le> length s"
  by (cases s) (simp_all add: Let_def split: list.split)

text \<open>A string cutset at its rune boundaries: each rune with its bytes (\<open>for i, r := range s\<close>).\<close>

function runes :: "string \<Rightarrow> (nat \<times> string) list" where
  "runes s = (if s = [] then []
     else (let (r, w) = decode_rune s in (r, take w s) # runes (drop w s)))"
  by pat_completeness auto
termination
proof (relation "measure length", goal_cases)
  case (2 s p r w)
  then have "w = snd (decode_rune s)" by (metis snd_conv)
  with 2(1) decode_rune_width_pos [of s] have "0 < w" "0 < length s" by blast+
  then show ?case by simp
qed simp

declare runes.simps [simp del]

lemma runes_Nil [simp]: "runes [] = []"
  by (simp add: runes.simps)

lemma runes_ascii_Cons: "byte c < 128 \<Longrightarrow> runes (c # s) = (byte c, [c]) # runes s"
  by (subst runes.simps) simp

lemma concat_runes: "concat (map snd (runes s)) = s"
proof (induction s rule: runes.induct)
  case (1 s)
  show ?case
  proof (cases "s = []")
    case False
    obtain r w where rw: "decode_rune s = (r, w)" by fastforce
    with 1 False have "concat (map snd (runes (drop w s))) = drop w s" by auto
    with rw False show ?thesis by (subst runes.simps) simp
  qed simp
qed

definition is_ascii :: "string \<Rightarrow> bool" where
  "is_ascii s \<longleftrightarrow> (\<forall>c \<in> set s. byte c < 128)"

lemma runes_ascii: "is_ascii s \<Longrightarrow> runes s = map (\<lambda>c. (byte c, [c])) s"
  by (induction s) (simp_all add: is_ascii_def runes_ascii_Cons)

text \<open>\<open>utf8.RuneCountInString\<close>.\<close>

definition rune_count :: "string \<Rightarrow> nat" where
  "rune_count s = length (runes s)"

text \<open>\<open>utf8.Valid\<close>: no ill-formed sequence; U+FFFD spelled in three bytes is well-formed.\<close>

definition utf8_valid :: "string \<Rightarrow> bool" where
  "utf8_valid s \<longleftrightarrow> (\<forall>(r, bs) \<in> set (runes s). \<not> (r = rune_error \<and> length bs = 1))"

subsection \<open>Package strings\<close>

text \<open>\<open>unicode.IsSpace\<close>.\<close>

definition is_space :: "nat \<Rightarrow> bool" where
  "is_space r \<longleftrightarrow> r \<in> {9, 10, 11, 12, 13, 32, 133, 160, 5760, 8232, 8233, 8239, 8287, 12288}
     \<or> (8192 \<le> r \<and> r \<le> 8202)"

definition trim_space :: "string \<Rightarrow> string" where
  "trim_space s = concat (map snd
     (rev (dropWhile (\<lambda>p. is_space (fst p)) (rev (dropWhile (\<lambda>p. is_space (fst p)) (runes s))))))"

definition has_prefix :: "string \<Rightarrow> string \<Rightarrow> bool" where
  "has_prefix s p \<longleftrightarrow> take (length p) s = p"

definition has_suffix :: "string \<Rightarrow> string \<Rightarrow> bool" where
  "has_suffix s p \<longleftrightarrow> length p \<le> length s \<and> drop (length s - length p) s = p"

definition trim_prefix :: "string \<Rightarrow> string \<Rightarrow> string" where
  "trim_prefix s p = (if has_prefix s p then drop (length p) s else s)"

definition trim_suffix :: "string \<Rightarrow> string \<Rightarrow> string" where
  "trim_suffix s p = (if has_suffix s p then take (length s - length p) s else s)"

text \<open>\<open>strings.TrimLeft(s, cutset)\<close> for an ASCII cutset.\<close>

definition trim_left :: "string \<Rightarrow> string \<Rightarrow> string" where
  "trim_left s cutset = dropWhile (\<lambda>c. c \<in> set cutset) s"

text \<open>\<open>strings.Index\<close>: the position of the first occurrence.\<close>

fun index_of :: "string \<Rightarrow> string \<Rightarrow> nat option" where
  "index_of [] sub = (if sub = [] then Some 0 else None)"
| "index_of (c # s) sub = (if has_prefix (c # s) sub then Some 0 else map_option Suc (index_of s sub))"

definition str_contains :: "string \<Rightarrow> string \<Rightarrow> bool" where
  "str_contains s sub \<longleftrightarrow> index_of s sub \<noteq> None"

definition index_any :: "string \<Rightarrow> string \<Rightarrow> nat option" where
  "index_any s chars =
     (let p = takeWhile (\<lambda>c. c \<notin> set chars) s
      in if length p < length s then Some (length p) else None)"

lemma index_of_bound: "index_of s sub = Some i \<Longrightarrow> i + length sub \<le> length s"
proof (induction s sub arbitrary: i rule: index_of.induct)
  case (2 c s sub)
  show ?case
  proof (cases "has_prefix (c # s) sub")
    case True
    then have "length sub \<le> length (c # s)"
      unfolding has_prefix_def by (metis length_take min.cobounded1)
    with 2 True show ?thesis by simp
  next
    case False
    with 2 obtain j where "index_of s sub = Some j" "i = Suc j" by auto
    with 2 False show ?thesis by simp
  qed
qed (auto split: if_splits)

text \<open>\<open>Index\<close> finds the first position the substring starts at, or none when there is none.\<close>

lemma index_of_Some: "index_of s sub = Some k \<Longrightarrow>
    k \<le> length s \<and> has_prefix (drop k s) sub \<and> (\<forall>j < k. \<not> has_prefix (drop j s) sub)"
proof (induction s sub arbitrary: k rule: index_of.induct)
  case (2 c s sub)
  show ?case
  proof (cases "has_prefix (c # s) sub")
    case False
    with 2 obtain j where j: "index_of s sub = Some j" "k = Suc j" by auto
    have "\<not> has_prefix (drop i (c # s)) sub" if "i < k" for i
      using that j False 2(1) [OF False j(1)] by (cases i) simp_all
    with 2 j False show ?thesis by simp
  qed (use 2 in simp)
qed (auto simp: has_prefix_def split: if_splits)

lemma index_of_None: "index_of s sub = None \<Longrightarrow> \<not> has_prefix (drop k s) sub"
proof (induction s sub arbitrary: k rule: index_of.induct)
  case (2 c s sub)
  then show ?case by (cases k) (auto split: if_splits)
qed (auto simp: has_prefix_def split: if_splits)

text \<open>Every byte of a decoded rune but its first is a continuation byte.\<close>

lemma decode_rune_cont:
  "0 < i \<Longrightarrow> i < snd (decode_rune s) \<Longrightarrow> cont_byte (s ! i)"
proof (cases s)
  case (Cons a t)
  assume i: "0 < i" "i < snd (decode_rune s)"
  then have "i = 1 \<or> i = 2 \<or> i = 3"
    unfolding Cons by (auto simp: Let_def split: list.splits if_splits)
  with i show ?thesis unfolding Cons
    by (auto simp: Let_def numeral_2_eq_2 numeral_3_eq_3 split: list.splits if_splits)
qed simp

lemma runes_pieces: "(r, bs) \<in> set (runes s) \<Longrightarrow> bs \<noteq> [] \<and> (\<forall>c \<in> set (tl bs). cont_byte c)"
proof (induction s rule: runes.induct)
  case (1 s)
  obtain q w where qw: "decode_rune s = (q, w)" by fastforce
  have ne: "s \<noteq> []" using 1(2) by auto
  have eq: "runes s = (q, take w s) # runes (drop w s)" using ne qw by (subst runes.simps) simp
  have "0 < w" using ne qw decode_rune_width_pos [of s] by simp
  moreover have "cont_byte c" if c: "c \<in> set (tl (take w s))" for c
  proof -
    obtain i where "i < length (tl (take w s))" "c = tl (take w s) ! i" using c by (metis in_set_conv_nth)
    then have "c = s ! Suc i" "Suc i < w" by (auto simp: nth_tl)
    then show ?thesis using decode_rune_cont [of "Suc i" s] qw by simp
  qed
  ultimately show ?case using 1 eq ne qw by auto
qed

text \<open>\<open>strings.Split\<close> with a non-empty separator, and with the empty one.\<close>

function split_on :: "string \<Rightarrow> string \<Rightarrow> string list" where
  "split_on s sep =
     (if sep = [] then [s]
      else case index_of s sep of
        None \<Rightarrow> [s]
      | Some i \<Rightarrow> take i s # split_on (drop (i + length sep) s) sep)"
  by pat_completeness auto
termination
proof (relation "measure (\<lambda>(s, sep). length s)", goal_cases)
  case (2 s sep i)
  then show ?case using index_of_bound [of s sep i] by (cases sep) auto
qed simp

declare split_on.simps [simp del]

definition str_split :: "string \<Rightarrow> string \<Rightarrow> string list" where
  "str_split s sep = (if sep = [] then map snd (runes s) else split_on s sep)"

text \<open>\<open>strings.Join\<close>.\<close>

fun str_join :: "string list \<Rightarrow> string \<Rightarrow> string" where
  "str_join [] sep = []"
| "str_join [x] sep = x"
| "str_join (x # y # xs) sep = x @ sep @ str_join (y # xs) sep"

lemma str_join_Cons: "xs \<noteq> [] \<Longrightarrow> str_join (x # xs) sep = x @ sep @ str_join xs sep"
  by (cases xs) simp_all

lemma index_of_Some_split:
  "index_of s sub = Some i \<Longrightarrow> s = take i s @ sub @ drop (i + length sub) s"
proof (induction s sub arbitrary: i rule: index_of.induct)
  case (2 c s sub)
  show ?case
  proof (cases "has_prefix (c # s) sub")
    case True
    with 2 have "i = 0" by simp
    moreover from True have "c # s = sub @ drop (length sub) (c # s)"
      unfolding has_prefix_def by (metis append_take_drop_id)
    ultimately show ?thesis by simp
  next
    case False
    with 2 obtain j where j: "index_of s sub = Some j" "i = Suc j" by auto
    from 2(1) [OF False j(1)] have "s = take j s @ sub @ drop (j + length sub) s" .
    then show ?thesis using j(2) by simp
  qed
qed (auto split: if_splits)

lemma split_on_not_Nil: "split_on s sep \<noteq> []"
  by (subst split_on.simps) (simp split: option.split)

text \<open>\<open>strings.Join\<close> undoes \<open>strings.Split\<close>.\<close>

lemma join_split_on: "str_join (split_on s sep) sep = s"
proof (induction s sep rule: split_on.induct)
  case (1 s sep)
  show ?case
  proof (cases "sep = [] \<or> index_of s sep = None")
    case True
    then show ?thesis by (subst split_on.simps) auto
  next
    case False
    then obtain i where i: "sep \<noteq> []" "index_of s sep = Some i" by auto
    with 1 have IH: "str_join (split_on (drop (i + length sep) s) sep) sep = drop (i + length sep) s"
      by blast
    have "str_join (split_on s sep) sep = take i s @ sep @ drop (i + length sep) s"
      using i IH by (subst split_on.simps) (simp add: str_join_Cons split_on_not_Nil)
    with index_of_Some_split [OF i(2)] show ?thesis by simp
  qed
qed

text \<open>\<open>strings.Fields\<close>: the maximal runs of non-space runes.\<close>

fun fields_acc :: "(nat \<times> string) list \<Rightarrow> string \<Rightarrow> string list" where
  "fields_acc [] cur = (if cur = [] then [] else [cur])"
| "fields_acc ((r, bs) # rs) cur =
     (if is_space r then (if cur = [] then fields_acc rs [] else cur # fields_acc rs [])
      else fields_acc rs (cur @ bs))"

definition str_fields :: "string \<Rightarrow> string list" where
  "str_fields s = fields_acc (runes s) []"

text \<open>\<open>strings.ReplaceAll\<close>; an empty old text matches before every rune and at the end.\<close>

definition replace_all :: "string \<Rightarrow> string \<Rightarrow> string \<Rightarrow> string" where
  "replace_all s old new =
     (if old = [] then new @ concat (map (\<lambda>p. snd p @ new) (runes s))
      else str_join (split_on s old) new)"

subsection \<open>Package strconv\<close>

definition digit_char :: "nat \<Rightarrow> char" where
  "digit_char d = char_of (48 + d)"

definition is_digit :: "char \<Rightarrow> bool" where
  "is_digit c \<longleftrightarrow> 48 \<le> byte c \<and> byte c \<le> 57"

definition digit_val :: "char \<Rightarrow> nat" where
  "digit_val c = byte c - 48"

fun show_nat :: "nat \<Rightarrow> string" where
  "show_nat n = (if n < 10 then [digit_char n] else show_nat (n div 10) @ [digit_char (n mod 10)])"

declare show_nat.simps [simp del]

definition show_int :: "int \<Rightarrow> string" where
  "show_int i = (if i < 0 then CHR ''-'' # show_nat (nat (- i)) else show_nat (nat i))"

definition digits_val :: "string \<Rightarrow> nat" where
  "digits_val s = foldl (\<lambda>a c. 10 * a + digit_val c) 0 s"

lemma byte_digit_char [simp]: "d < 10 \<Longrightarrow> byte (digit_char d) = 48 + d"
  by (simp add: digit_char_def)

lemma is_digit_digit_char [simp]: "d < 10 \<Longrightarrow> is_digit (digit_char d)"
  by (simp add: is_digit_def)

lemma digit_val_digit_char [simp]: "d < 10 \<Longrightarrow> digit_val (digit_char d) = d"
  by (simp add: digit_val_def)

lemma digits_val_snoc [simp]: "digits_val (s @ [c]) = 10 * digits_val s + digit_val c"
  by (simp add: digits_val_def)

lemma show_nat_not_Nil [simp]: "show_nat n \<noteq> []"
  by (subst show_nat.simps) simp

lemma show_nat_digits: "list_all is_digit (show_nat n)"
proof (induction n rule: show_nat.induct)
  case (1 n)
  then show ?case by (subst show_nat.simps) simp
qed

lemma digits_val_show_nat [simp]: "digits_val (show_nat n) = n"
proof (induction n rule: show_nat.induct)
  case (1 n)
  show ?case
  proof (cases "n < 10")
    case True
    then show ?thesis by (subst show_nat.simps) (simp add: digits_val_def)
  next
    case False
    with 1 have "digits_val (show_nat (n div 10)) = n div 10" by simp
    with False show ?thesis by (subst show_nat.simps) simp
  qed
qed

lemma show_nat_inj: "show_nat m = show_nat n \<Longrightarrow> m = n"
  by (metis digits_val_show_nat)

text \<open>
  \<open>strconv.ParseInt(s, 10, 64)\<close> and \<open>strconv.Atoi\<close>: an optional sign, then digits only, in
  range; \<open>None\<close> is the error.
\<close>

definition parse_sign :: "string \<Rightarrow> bool \<times> string" where
  "parse_sign s = (case s of
     [] \<Rightarrow> (False, s)
   | c # r \<Rightarrow> if c = CHR ''-'' then (True, r) else if c = CHR ''+'' then (False, r) else (False, s))"

definition parse_int :: "string \<Rightarrow> int option" where
  "parse_int s =
     (let (neg, ds) = parse_sign s in
      if ds = [] \<or> \<not> list_all is_digit ds then None
      else let n = (if neg then - int (digits_val ds) else int (digits_val ds))
           in if in_i64 n then Some n else None)"

definition atoi :: "string \<Rightarrow> i64 option" where
  "atoi s = map_option word_of_int (parse_int s)"

lemma digit_not_sign: "is_digit c \<Longrightarrow> c \<noteq> CHR ''-'' \<and> c \<noteq> CHR ''+''"
  by (auto simp: is_digit_def)

lemma parse_sign_digits: "list_all is_digit s \<Longrightarrow> parse_sign s = (False, s)"
  by (cases s) (auto simp: parse_sign_def dest: digit_not_sign)

text \<open>The decimal text of an in-range integer parses back to it.\<close>

lemma parse_int_show_int: "in_i64 i \<Longrightarrow> parse_int (show_int i) = Some i"
proof (cases "i < 0")
  case True
  assume r: "in_i64 i"
  from True have "parse_sign (show_int i) = (True, show_nat (nat (- i)))"
    by (simp add: show_int_def parse_sign_def)
  with True r show ?thesis
    by (simp add: parse_int_def show_nat_digits)
next
  case False
  assume r: "in_i64 i"
  from False have "parse_sign (show_int i) = (False, show_nat (nat i))"
    by (simp add: show_int_def parse_sign_digits show_nat_digits)
  with False r show ?thesis
    by (simp add: parse_int_def show_nat_digits)
qed

lemma parse_int_range: "parse_int s = Some n \<Longrightarrow> in_i64 n"
  by (auto simp: parse_int_def Let_def split: prod.splits if_splits)

lemma atoi_show_int: "in_i64 i \<Longrightarrow> atoi (show_int i) = Some (word_of_int i)"
  by (simp add: atoi_def parse_int_show_int)

lemma show_int_ascii: "is_ascii (show_int i)"
proof -
  have "byte c < 128" if "c \<in> set (show_nat n)" for c n
    using that show_nat_digits [of n] by (fastforce simp: list_all_iff is_digit_def)
  then show ?thesis by (auto simp: is_ascii_def show_int_def)
qed

lemma trim_space_ascii_id:
  assumes "is_ascii s" and "\<forall>c \<in> set s. \<not> is_space (byte c)"
  shows "trim_space s = s"
proof -
  have "\<forall>p \<in> set (runes s). \<not> is_space (fst p)"
    using assms by (auto simp: runes_ascii)
  then have "dropWhile (\<lambda>p. is_space (fst p)) (runes s) = runes s"
    and "dropWhile (\<lambda>p. is_space (fst p)) (rev (runes s)) = rev (runes s)"
    by (simp_all add: dropWhile_eq_self_iff flip: hd_rev)
      (metis hd_in_set last_in_set hd_rev)+
  then show ?thesis by (simp add: trim_space_def concat_runes)
qed

lemma show_int_trim: "trim_space (show_int i) = show_int i"
proof (rule trim_space_ascii_id [OF show_int_ascii])
  have "\<not> is_space (byte c)" if "c \<in> set (show_nat n)" for c n
    using that show_nat_digits [of n] by (fastforce simp: list_all_iff is_digit_def is_space_def)
  then show "\<forall>c \<in> set (show_int i). \<not> is_space (byte c)"
    by (auto simp: show_int_def is_space_def)
qed

end
