(* ===== verification/GoFloat.thy ===== *)
theory GoFloat
  imports GoLib
begin

text \<open>
  Go's \<open>float64\<close>: IEEE 754 binary64 with round to nearest, ties to even. A finite value is
  a sign, a significand below \<open>2 ^ 53\<close> and a binary exponent; every arithmetic operation is
  the exact rational result rounded once (\<open>f64_round\<close>). The payload of a NaN is not
  modelled, and the conversion of an out-of-range float to \<open>int\<close>, which Go leaves to the
  implementation, is the amd64 one (the smallest \<open>int\<close>), as the comments of
  runtime/eval.go record.
\<close>

datatype f64 = FNaN | FInf bool | FFin bool nat int

fun bitlen :: "nat \<Rightarrow> nat" where
  "bitlen n = (if n = 0 then 0 else Suc (bitlen (n div 2)))"

declare bitlen.simps [simp del]

lemma bitlen_0 [simp]: "bitlen 0 = 0"
  by (simp add: bitlen.simps)

lemma bitlen_bounds: "0 < n \<Longrightarrow> 2 ^ (bitlen n - 1) \<le> n \<and> n < 2 ^ bitlen n \<and> 0 < bitlen n"
proof (induction n rule: bitlen.induct)
  case (1 n)
  show ?case
  proof (cases "n div 2 = 0")
    case True
    with 1 have "n = 1" by auto
    then show ?thesis by (simp add: bitlen.simps)
  next
    case False
    with 1 have IH: "2 ^ (bitlen (n div 2) - 1) \<le> n div 2 \<and> n div 2 < 2 ^ bitlen (n div 2)
        \<and> 0 < bitlen (n div 2)"
      by auto
    have b: "bitlen n = Suc (bitlen (n div 2))" using 1 by (subst bitlen.simps) simp
    obtain k where k: "bitlen (n div 2) = Suc k" using IH by (cases "bitlen (n div 2)") auto
    from IH k have "2 ^ k \<le> n div 2" "n div 2 < 2 ^ Suc k" by auto
    then have "2 ^ Suc k \<le> n" "n < 2 ^ Suc (Suc k)" by auto
    with b k show ?thesis by simp
  qed
qed

lemma bitlen_unique: "2 ^ k \<le> n \<Longrightarrow> n < 2 ^ Suc k \<Longrightarrow> bitlen n = Suc k"
proof (induction k arbitrary: n)
  case 0
  then have "n = 1" by simp
  then show ?case by (simp add: bitlen.simps)
next
  case (Suc k)
  then have "bitlen (n div 2) = Suc k" by auto
  moreover from Suc have "n \<noteq> 0" by auto
  ultimately show ?case by (subst bitlen.simps) simp
qed

subsection \<open>Rounding\<close>

definition scaled :: "nat \<Rightarrow> nat \<Rightarrow> int \<Rightarrow> nat \<times> nat" where
  "scaled num den e = (if 0 \<le> e then (num, den * 2 ^ nat e) else (num * 2 ^ nat (- e), den))"

definition round_at :: "nat \<Rightarrow> nat \<Rightarrow> int \<Rightarrow> nat" where
  "round_at num den e =
     (let (a, b) = scaled num den e; q = a div b; r = a mod b
      in if b < 2 * r \<or> (2 * r = b \<and> odd q) then Suc q else q)"

definition round_exp :: "nat \<Rightarrow> nat \<Rightarrow> int" where
  "round_exp num den =
     (let e0 = int (bitlen num) - int (bitlen den) - 53; (a, b) = scaled num den e0
      in max (- 1074) (if a div b < 2 ^ 53 then e0 else e0 + 1))"

definition f64_round :: "bool \<Rightarrow> nat \<Rightarrow> nat \<Rightarrow> f64" where
  "f64_round s num den =
     (if num = 0 then FFin s 0 0
      else let e = round_exp num den; m = round_at num den e in
        if m = 0 then FFin s 0 0
        else if m = 2 ^ 53 then (if 970 < e then FInf s else FFin s (2 ^ 52) (e + 1))
        else if 971 < e then FInf s else FFin s m e)"

definition f64_round_int :: "int \<Rightarrow> int \<Rightarrow> f64" where
  "f64_round_int i e =
     (let m = nat \<bar>i\<bar> in
      if 0 \<le> e then f64_round (i < 0) (m * 2 ^ nat e) 1
      else f64_round (i < 0) m (2 ^ nat (- e)))"

definition f64_of_int :: "int \<Rightarrow> f64" where
  "f64_of_int i = f64_round_int i 0"

abbreviation f64_zero :: f64 where
  "f64_zero \<equiv> FFin False 0 0"

subsection \<open>Arithmetic and comparison\<close>

definition sgn_mag :: "bool \<Rightarrow> nat \<Rightarrow> int" where
  "sgn_mag s m = (if s then - int m else int m)"

text \<open>Two finite values over one exponent.\<close>

definition aligned :: "bool \<Rightarrow> nat \<Rightarrow> int \<Rightarrow> int \<Rightarrow> int" where
  "aligned s m e e0 = sgn_mag s m * 2 ^ nat (e - e0)"

fun f64_neg :: "f64 \<Rightarrow> f64" where
  "f64_neg FNaN = FNaN"
| "f64_neg (FInf s) = FInf (\<not> s)"
| "f64_neg (FFin s m e) = FFin (\<not> s) m e"

fun f64_abs :: "f64 \<Rightarrow> f64" where
  "f64_abs FNaN = FNaN"
| "f64_abs (FInf s) = FInf False"
| "f64_abs (FFin s m e) = FFin False m e"

fun f64_add :: "f64 \<Rightarrow> f64 \<Rightarrow> f64" where
  "f64_add FNaN y = FNaN"
| "f64_add x FNaN = FNaN"
| "f64_add (FInf s) (FInf t) = (if s = t then FInf s else FNaN)"
| "f64_add (FInf s) (FFin _ _ _) = FInf s"
| "f64_add (FFin _ _ _) (FInf t) = FInf t"
| "f64_add (FFin s m e) (FFin t n f) =
     (let e0 = min e f; i = aligned s m e e0 + aligned t n f e0
      in if i = 0 then FFin (s \<and> t) 0 0 else f64_round_int i e0)"

definition f64_sub :: "f64 \<Rightarrow> f64 \<Rightarrow> f64" where
  "f64_sub x y = f64_add x (f64_neg y)"

fun f64_mul :: "f64 \<Rightarrow> f64 \<Rightarrow> f64" where
  "f64_mul FNaN y = FNaN"
| "f64_mul x FNaN = FNaN"
| "f64_mul (FInf s) (FInf t) = FInf (s \<noteq> t)"
| "f64_mul (FInf s) (FFin t n _) = (if n = 0 then FNaN else FInf (s \<noteq> t))"
| "f64_mul (FFin s m _) (FInf t) = (if m = 0 then FNaN else FInf (s \<noteq> t))"
| "f64_mul (FFin s m e) (FFin t n f) =
     (if m * n = 0 then FFin (s \<noteq> t) 0 0
      else f64_round_int (sgn_mag (s \<noteq> t) (m * n)) (e + f))"

fun f64_div :: "f64 \<Rightarrow> f64 \<Rightarrow> f64" where
  "f64_div FNaN y = FNaN"
| "f64_div x FNaN = FNaN"
| "f64_div (FInf s) (FInf t) = FNaN"
| "f64_div (FInf s) (FFin t _ _) = FInf (s \<noteq> t)"
| "f64_div (FFin s _ _) (FInf t) = FFin (s \<noteq> t) 0 0"
| "f64_div (FFin s m e) (FFin t n f) =
     (if n = 0 then (if m = 0 then FNaN else FInf (s \<noteq> t))
      else (let (a, b) = scaled m n (f - e) in f64_round (s \<noteq> t) a b))"

fun f64_lt :: "f64 \<Rightarrow> f64 \<Rightarrow> bool" where
  "f64_lt FNaN y = False"
| "f64_lt x FNaN = False"
| "f64_lt (FInf s) (FInf t) = (s \<and> \<not> t)"
| "f64_lt (FInf s) (FFin _ _ _) = s"
| "f64_lt (FFin _ _ _) (FInf t) = (\<not> t)"
| "f64_lt (FFin s m e) (FFin t n f) =
     (let e0 = min e f in aligned s m e e0 < aligned t n f e0)"

fun f64_eq :: "f64 \<Rightarrow> f64 \<Rightarrow> bool" where
  "f64_eq FNaN y = False"
| "f64_eq x FNaN = False"
| "f64_eq (FInf s) (FInf t) = (s = t)"
| "f64_eq (FInf s) (FFin _ _ _) = False"
| "f64_eq (FFin _ _ _) (FInf t) = False"
| "f64_eq (FFin s m e) (FFin t n f) =
     (let e0 = min e f in aligned s m e e0 = aligned t n f e0)"

definition f64_le :: "f64 \<Rightarrow> f64 \<Rightarrow> bool" where
  "f64_le x y \<longleftrightarrow> f64_lt x y \<or> f64_eq x y"

subsection \<open>Integers\<close>

text \<open>\<open>math.Trunc\<close>, \<open>math.Floor\<close> and \<open>math.Round\<close> (half away from zero) of a finite value.\<close>

definition mag_trunc :: "nat \<Rightarrow> int \<Rightarrow> nat" where
  "mag_trunc m e = (if 0 \<le> e then m * 2 ^ nat e else m div 2 ^ nat (- e))"

definition mag_frac :: "nat \<Rightarrow> int \<Rightarrow> bool" where
  "mag_frac m e \<longleftrightarrow> e < 0 \<and> m mod 2 ^ nat (- e) \<noteq> 0"

fun f64_trunc :: "f64 \<Rightarrow> f64" where
  "f64_trunc (FFin s m e) = f64_round s (mag_trunc m e) 1"
| "f64_trunc x = x"

fun f64_floor :: "f64 \<Rightarrow> f64" where
  "f64_floor (FFin s m e) =
     f64_round s (if s \<and> mag_frac m e then Suc (mag_trunc m e) else mag_trunc m e) 1"
| "f64_floor x = x"

fun f64_math_round :: "f64 \<Rightarrow> f64" where
  "f64_math_round (FFin s m e) =
     (if 0 \<le> e then f64_round s (mag_trunc m e) 1
      else f64_round s ((2 * m + 2 ^ nat (- e)) div (2 * 2 ^ nat (- e))) 1)"
| "f64_math_round x = x"

text \<open>\<open>int(f)\<close>: truncation; out of range, NaN and infinities give the smallest \<open>int\<close>.\<close>

fun f64_to_i64 :: "f64 \<Rightarrow> i64" where
  "f64_to_i64 (FFin s m e) =
     (let i = sgn_mag s (mag_trunc m e)
      in if in_i64 i then word_of_int i else word_of_int (- (2 ^ 63)))"
| "f64_to_i64 _ = word_of_int (- (2 ^ 63))"

fun f64_is_nan :: "f64 \<Rightarrow> bool" where
  "f64_is_nan FNaN = True"
| "f64_is_nan _ = False"

fun f64_is_inf :: "f64 \<Rightarrow> bool" where
  "f64_is_inf (FInf _) = True"
| "f64_is_inf _ = False"

text \<open>\<open>math.Sqrt\<close>: the correctly rounded square root.\<close>

fun isqrt :: "nat \<Rightarrow> nat" where
  "isqrt n = (if n = 0 then 0
     else let r = 2 * isqrt (n div 4) in if (r + 1) * (r + 1) \<le> n then r + 1 else r)"

declare isqrt.simps [simp del]

fun f64_sqrt :: "f64 \<Rightarrow> f64" where
  "f64_sqrt FNaN = FNaN"
| "f64_sqrt (FInf s) = (if s then FNaN else FInf False)"
| "f64_sqrt (FFin s m e) =
     (if m = 0 then FFin s 0 0
      else if s then FNaN
      else let m' = (if even e then m else 2 * m) * 2 ^ 120;
               e' = (if even e then e else e - 1) div 2 - 60;
               q = isqrt m'; q2 = 2 * q + (if q * q = m' then 0 else 1)
           in f64_round_int (int q2) (e' - 1))"

subsection \<open>Bit patterns\<close>

fun f64_bits :: "f64 \<Rightarrow> u64" where
  "f64_bits FNaN = word_of_int 9221120237041090561"
| "f64_bits (FInf s) = word_of_int ((if s then 2 ^ 63 else 0) + 2047 * 2 ^ 52)"
| "f64_bits (FFin s m e) = word_of_int ((if s then 2 ^ 63 else 0) +
     (if m < 2 ^ 52 then int m else (e + 1075) * 2 ^ 52 + (int m - 2 ^ 52)))"

definition f64_from_bits :: "u64 \<Rightarrow> f64" where
  "f64_from_bits w =
     (let n = unat w; s = (2 ^ 63 \<le> n); r = n mod 2 ^ 63; ex = r div 2 ^ 52; fr = r mod 2 ^ 52
      in if ex = 2047 then (if fr = 0 then FInf s else FNaN)
         else if ex = 0 then (if fr = 0 then FFin s 0 0 else FFin s fr (- 1074))
         else FFin s (fr + 2 ^ 52) (int ex - 1075))"

subsection \<open>Decimal text\<close>

text \<open>The double nearest to \<open>mant * 10 ^ ex\<close> (\<open>strconv.ParseFloat\<close> on a decimal literal).\<close>

definition f64_of_dec :: "bool \<Rightarrow> nat \<Rightarrow> int \<Rightarrow> f64" where
  "f64_of_dec s mant ex =
     (if 0 \<le> ex then f64_round s (mant * 10 ^ nat ex) 1 else f64_round s mant (10 ^ nat (- ex)))"

text \<open>
  \<open>strconv.FormatFloat(f, 'g', -1, 64)\<close>: the fewest digits that parse back to the same
  double. \<open>lead_zeros\<close> counts the zeros after the point of a value below one (at most 324,
  so 400 steps are enough); seventeen digits always round-trip.
\<close>

fun lead_zeros :: "nat \<Rightarrow> nat \<Rightarrow> nat \<Rightarrow> nat" where
  "lead_zeros 0 num den = 0"
| "lead_zeros (Suc k) num den = (if den \<le> num * 10 then 0 else Suc (lead_zeros k (num * 10) den))"

definition dec_point :: "nat \<Rightarrow> nat \<Rightarrow> int" where
  "dec_point num den =
     (if den \<le> num then int (length (show_nat (num div den))) else - int (lead_zeros 400 num den))"

definition dec_candidates :: "nat \<Rightarrow> nat \<Rightarrow> int \<Rightarrow> nat list" where
  "dec_candidates num den ex =
     (let (a, b) = (if 0 \<le> ex then (num * 10 ^ nat ex, den) else (num, den * 10 ^ nat (- ex)));
          q = a div b; r = a mod b
      in if b < 2 * r \<or> (2 * r = b \<and> odd q) then [Suc q, q] else [q, Suc q])"

fun shortest_digits :: "nat list \<Rightarrow> f64 \<Rightarrow> bool \<Rightarrow> nat \<Rightarrow> nat \<Rightarrow> int \<Rightarrow> nat \<times> int" where
  "shortest_digits [] x s num den k = (0, 0)"
| "shortest_digits (n # ns) x s num den k =
     (case filter (\<lambda>c. f64_of_dec s c (k - int n) = x) (dec_candidates num den (int n - k)) of
        c # _ \<Rightarrow> (c, k - int n)
      | [] \<Rightarrow> shortest_digits ns x s num den k)"

definition strip_zeros :: "string \<Rightarrow> string" where
  "strip_zeros s = rev (dropWhile (\<lambda>c. c = CHR ''0'') (rev s))"

definition fmt_exp :: "string \<Rightarrow> int \<Rightarrow> string" where
  "fmt_exp ds ex =
     (case ds of [] \<Rightarrow> ''0'' | d # r \<Rightarrow> d # (if r = [] then [] else CHR ''.'' # r)) @ ''e'' @
     (if ex < 0 then ''-'' else ''+'') @
     (if \<bar>ex\<bar> < 10 then CHR ''0'' # show_nat (nat \<bar>ex\<bar>) else show_nat (nat \<bar>ex\<bar>))"

definition fmt_fixed :: "string \<Rightarrow> int \<Rightarrow> string" where
  "fmt_fixed ds dp =
     (let n = length ds;
          ip = (if 0 < dp then take (nat dp) ds @ replicate (nat dp - n) (CHR ''0'') else ''0'');
          fp = (if 0 < dp then drop (nat dp) ds else replicate (nat (- dp)) (CHR ''0'') @ ds)
      in if int n \<le> dp then ip else ip @ (CHR ''.'' # fp))"

fun f64_format :: "f64 \<Rightarrow> string" where
  "f64_format FNaN = ''NaN''"
| "f64_format (FInf s) = (if s then ''-Inf'' else ''+Inf'')"
| "f64_format (FFin s m e) =
     (if m = 0 then (if s then ''-0'' else ''0'')
      else let (num, den) = scaled m 1 (- e);
               k = dec_point num den;
               (c, ex) = shortest_digits [1..<18] (FFin s m e) s num den k;
               all = show_nat c; ds = strip_zeros all; dp = int (length all) + ex;
               body = (if dp - 1 < - 4 \<or> 6 \<le> dp - 1 then fmt_exp ds (dp - 1) else fmt_fixed ds dp)
           in if s then CHR ''-'' # body else body)"

subsection \<open>Exactness\<close>

text \<open>The significands and exponents a rounding produces.\<close>

definition f64_canon :: "nat \<Rightarrow> int \<Rightarrow> bool" where
  "f64_canon m e \<longleftrightarrow> (m = 0 \<and> e = 0) \<or>
     (0 < m \<and> m < 2 ^ 53 \<and> - 1074 \<le> e \<and> e \<le> 971 \<and> (2 ^ 52 \<le> m \<or> e = - 1074))"

text \<open>An \<open>int\<close> of at most 53 bits is exact: its double truncates back to it.\<close>

lemma round_exp_small:
  assumes "0 < n" "n < 2 ^ 53"
  shows "round_exp n 1 = int (bitlen n) - 53"
proof -
  have b1: "bitlen 1 = 1" by (simp add: bitlen.simps)
  have bn: "2 ^ (bitlen n - 1) \<le> n" "n < 2 ^ bitlen n" "0 < bitlen n"
    using bitlen_bounds [OF assms(1)] by auto
  have le: "bitlen n \<le> 53"
  proof (rule ccontr)
    assume "\<not> bitlen n \<le> 53"
    then have "(2::nat) ^ 53 \<le> 2 ^ (bitlen n - 1)" by (intro power_increasing) auto
    with bn(1) assms(2) show False by linarith
  qed
  let ?e0 = "int (bitlen n) - 54"
  have sc: "scaled n 1 ?e0 = (n * 2 ^ (54 - bitlen n), 1)"
    using le by (simp add: scaled_def nat_diff_distrib)
  have "2 ^ 53 \<le> n * 2 ^ (54 - bitlen n)"
  proof -
    have "(2::nat) ^ 53 = 2 ^ (bitlen n - 1) * 2 ^ (54 - bitlen n)"
      using le bn(3) by (simp flip: power_add)
    also have "\<dots> \<le> n * 2 ^ (54 - bitlen n)" using bn(1) by simp
    finally show ?thesis .
  qed
  then show ?thesis
    using sc b1 bn(3) by (simp add: round_exp_def Let_def)
qed

lemma f64_round_small:
  assumes "0 < n" "n < 2 ^ 53"
  shows "f64_round s n 1 = FFin s (n * 2 ^ (53 - bitlen n)) (int (bitlen n) - 53)"
proof -
  have bn: "n < 2 ^ bitlen n" "0 < bitlen n" "2 ^ (bitlen n - 1) \<le> n"
    using bitlen_bounds [OF assms(1)] by auto
  have le: "bitlen n \<le> 53"
  proof (rule ccontr)
    assume "\<not> bitlen n \<le> 53"
    then have "(2::nat) ^ 53 \<le> 2 ^ (bitlen n - 1)" by (intro power_increasing) auto
    with bn(3) assms(2) show False by linarith
  qed
  have "round_at n 1 (int (bitlen n) - 53) = n * 2 ^ (53 - bitlen n)"
    using le by (cases "bitlen n = 53") (auto simp: round_at_def scaled_def nat_diff_distrib)
  moreover have "n * 2 ^ (53 - bitlen n) < 2 ^ 53"
  proof -
    have "n * 2 ^ (53 - bitlen n) < 2 ^ bitlen n * 2 ^ (53 - bitlen n)" using bn(1) by simp
    also have "\<dots> = 2 ^ 53" using le by (simp flip: power_add)
    finally show ?thesis .
  qed
  ultimately show ?thesis
    using assms round_exp_small [OF assms] le by (simp add: f64_round_def Let_def)
qed

lemma f64_to_i64_of_int:
  assumes "\<bar>i\<bar> < 2 ^ 53"
  shows "f64_to_i64 (f64_of_int i) = word_of_int i"
proof (cases "i = 0")
  case True
  then show ?thesis
    by (simp add: f64_of_int_def f64_round_int_def f64_round_def mag_trunc_def sgn_mag_def in_i64_def)
next
  case False
  let ?n = "nat \<bar>i\<bar>"
  have n: "0 < ?n" "?n < 2 ^ 53" using False assms by auto
  have le: "bitlen ?n \<le> 53"
  proof (rule ccontr)
    assume "\<not> bitlen ?n \<le> 53"
    then have "(2::nat) ^ 53 \<le> 2 ^ (bitlen ?n - 1)" by (intro power_increasing) auto
    with bitlen_bounds [OF n(1)] n(2) show False by linarith
  qed
  have "mag_trunc (?n * 2 ^ (53 - bitlen ?n)) (int (bitlen ?n) - 53) = ?n"
    using le by (cases "bitlen ?n = 53") (auto simp: mag_trunc_def nat_diff_distrib)
  moreover have "sgn_mag (i < 0) ?n = i" by (simp add: sgn_mag_def)
  moreover have "in_i64 i" using assms by (simp add: in_i64_def abs_less_iff)
  ultimately show ?thesis
    using f64_round_small [OF n] by (simp add: f64_of_int_def f64_round_int_def)
qed

lemma f64_lt_irrefl [simp]: "\<not> f64_lt x x"
  by (cases x) (simp_all add: Let_def)

lemma f64_add_NaN_right [simp]: "f64_add x FNaN = FNaN"
  by (cases x) simp_all

end
