(* ===== verification/Values.thy ===== *)
theory Values
  imports GoFloat
begin

text \<open>
  The runtime's values and its total conversions (runtime/eval.go): what a cell, a field or
  a builtin argument can hold, and \<open>toInt\<close>, \<open>toFloat\<close>, \<open>toStr\<close>, \<open>truthy\<close> and \<open>equal\<close>
  over it, with the list, record and byte-buffer helpers of runtime/eval.go and
  runtime/bytesval.go.

  The constructors are the dynamic types a value of type \<open>any\<close> has in the evaluators:
  \<open>nil\<close>, \<open>bool\<close>, \<open>int\<close>, \<open>int64\<close>, \<open>int32\<close>, \<open>float64\<close>, \<open>string\<close>, \<open>[]byte\<close> (a text a
  database driver handed over), \<open>bytesVal\<close> (a byte buffer), \<open>[]any\<close>, \<open>record\<close>
  (\<open>map[string]any\<close>), a proc map (\<open>map[any]any\<close>) and a proc struct.
\<close>

datatype gval =
    GNil
  | GBool bool
  | GInt i64
  | GInt64 i64
  | GInt32 "32 word"
  | GFloat f64
  | GStr string
  | GRaw string
  | GBytes string
  | GList "gval list"
  | GRec "(string \<times> gval) list"
  | GMap "(gval \<times> gval) list"
  | GStruct string "(string \<times> gval) list"

text \<open>\<open>m[k]\<close> on a record: nil when absent.\<close>

definition field :: "(string \<times> gval) list \<Rightarrow> string \<Rightarrow> gval" where
  "field m k = (case alget m k of None \<Rightarrow> GNil | Some v \<Rightarrow> v)"

lemma field_alput [simp]: "field (alput m k v) j = (if j = k then v else field m j)"
  by (simp add: field_def)

definition is_float_val :: "gval \<Rightarrow> bool" where
  "is_float_val v = (case v of GFloat _ \<Rightarrow> True | _ \<Rightarrow> False)"

subsection \<open>Numbers written as text\<close>

text \<open>
  \<open>numericText\<close>: an optional sign, digits with an optional fractional part (or a bare
  fraction), an optional exponent. The result is the sign, the digits as one number and
  the power of ten that scales it.
\<close>

definition num_exponent :: "string \<Rightarrow> int option" where
  "num_exponent s =
     (case s of
        [] \<Rightarrow> Some 0
      | c # r \<Rightarrow>
          if c = CHR ''e'' \<or> c = CHR ''E'' then
            (let (neg, ds) = parse_sign r in
             if ds = [] \<or> \<not> list_all is_digit ds then None
             else Some (if neg then - int (digits_val ds) else int (digits_val ds)))
          else None)"

definition numeric_text :: "string \<Rightarrow> (bool \<times> nat \<times> int) option" where
  "numeric_text s =
     (let (neg, r0) = parse_sign s;
          ip = takeWhile is_digit r0; r1 = dropWhile is_digit r0;
          dotted = (case r1 of c # _ \<Rightarrow> c = CHR ''.'' | [] \<Rightarrow> False);
          fp = (if dotted then takeWhile is_digit (tl r1) else []);
          r2 = (if dotted then dropWhile is_digit (tl r1) else r1)
      in if ip = [] \<and> fp = [] then None
         else map_option (\<lambda>ex. (neg, digits_val (ip @ fp), ex - int (length fp))) (num_exponent r2))"

definition parse_numeric_text :: "string \<Rightarrow> i64 \<times> bool" where
  "parse_numeric_text s =
     (let t = trim_space s in
      case numeric_text t of
        None \<Rightarrow> (0, False)
      | Some (neg, mant, ex) \<Rightarrow>
          (case atoi t of
             Some n \<Rightarrow> (n, True)
           | None \<Rightarrow>
               (let f = f64_of_dec neg mant ex in
                if f64_is_inf f then (0, False) else (f64_to_i64 f, True))))"

definition parse_float_text :: "string \<Rightarrow> f64" where
  "parse_float_text s =
     (case numeric_text (trim_space s) of
        None \<Rightarrow> f64_zero
      | Some (neg, mant, ex) \<Rightarrow> f64_of_dec neg mant ex)"

definition parse_money_text :: "string \<Rightarrow> i64 \<times> bool" where
  "parse_money_text s =
     (case numeric_text (trim_space s) of
        None \<Rightarrow> (0, False)
      | Some (neg, mant, ex) \<Rightarrow>
          (let f = f64_of_dec neg mant ex in
           if f64_is_inf f then (0, False)
           else (f64_to_i64 (f64_math_round (f64_mul f (f64_of_int 100))), True)))"

subsection \<open>toInt, toFloat, truthy\<close>

fun toInt :: "gval \<Rightarrow> i64" where
  "toInt (GInt t) = t"
| "toInt (GInt64 t) = t"
| "toInt (GFloat t) = f64_to_i64 t"
| "toInt (GBool t) = (if t then 1 else 0)"
| "toInt (GStr t) = fst (parse_numeric_text t)"
| "toInt (GRaw t) = fst (parse_numeric_text t)"
| "toInt _ = 0"

fun toFloat :: "gval \<Rightarrow> f64" where
  "toFloat (GFloat t) = t"
| "toFloat (GInt t) = f64_of_int (sint t)"
| "toFloat (GInt64 t) = f64_of_int (sint t)"
| "toFloat (GBool t) = (if t then f64_of_int 1 else f64_zero)"
| "toFloat (GStr t) = parse_float_text t"
| "toFloat (GRaw t) = parse_float_text t"
| "toFloat _ = f64_zero"

fun truthy :: "gval \<Rightarrow> bool" where
  "truthy (GBool t) = t"
| "truthy (GInt t) = (t \<noteq> 0)"
| "truthy (GFloat t) = (\<not> f64_eq t f64_zero)"
| "truthy (GStr t) = (t \<noteq> [])"
| "truthy (GRaw t) = (t \<noteq> [])"
| "truthy (GList t) = (t \<noteq> [])"
| "truthy (GMap t) = (t \<noteq> [])"
| "truthy GNil = False"
| "truthy _ = True"

definition negate :: "gval \<Rightarrow> gval" where
  "negate x = (if is_float_val x then GFloat (f64_neg (toFloat x)) else GInt (- toInt x))"

definition numValue :: "gval \<Rightarrow> gval" where
  "numValue v = (if is_float_val v then v else GInt (toInt v))"

subsection \<open>itoa and toStr\<close>

text \<open>
  The digit loop over the magnitude in \<open>uint64\<close>, so that the smallest \<open>int\<close>, whose
  magnitude no positive \<open>int\<close> holds, prints too.
\<close>

function itoa_loop :: "u64 \<Rightarrow> string \<Rightarrow> string" where
  "itoa_loop mag buf =
     (if unat mag = 0 then buf
      else itoa_loop (mag div 10) (digit_char (unat (mag mod 10)) # buf))"
  by pat_completeness auto
termination
  by (relation "measure (\<lambda>(mag, buf). unat mag)") (auto simp: unat_div)

declare itoa_loop.simps [simp del]

definition itoa :: "i64 \<Rightarrow> string" where
  "itoa n =
     (if n = 0 then ''0''
      else let neg = lt64 n 0; mag = (if neg then - (n + 1) + 1 else n);
               buf = itoa_loop mag []
           in if neg then CHR ''-'' # buf else buf)"

fun toStr :: "gval \<Rightarrow> string" where
  "toStr (GStr t) = t"
| "toStr (GRaw t) = t"
| "toStr (GInt t) = itoa t"
| "toStr (GInt64 t) = itoa t"
| "toStr (GFloat t) =
     (if \<not> f64_is_nan t \<and> \<not> f64_is_inf t \<and> f64_eq t (f64_trunc t)
         \<and> f64_le (f64_of_int (- (2 ^ 63))) t \<and> f64_lt t (f64_of_int (2 ^ 63))
      then itoa (f64_to_i64 t) else f64_format t)"
| "toStr (GBool t) = (if t then ''true'' else ''false'')"
| "toStr (GList t) = str_join (map toStr t) '',''"
| "toStr (GBytes t) = str_join (map (\<lambda>c. itoa (word_of_nat (byte c))) t) '',''"
| "toStr _ = []"

lemma unat_mag_neg:
  assumes "lt64 n 0"
  shows "unat (- (n + 1) + 1 :: i64) = nat (- sint n)"
proof -
  have eq: "- (n + 1) + 1 = - n" by simp
  have s: "sint n < 0" "- (2 ^ 63) \<le> sint n"
    using assms sint_range64 [of n] by (simp_all add: lt64_def)
  have "uint (- n) = (- sint n) mod 2 ^ 64"
    by (metis uint_of_int64 wi_hom_neg word_of_int_sint)
  also have "\<dots> = - sint n" using s by simp
  finally have "uint (- n) = - sint n" .
  then show ?thesis by (simp add: eq flip: nat_uint_eq)
qed

lemma itoa_loop_show_nat:
  "itoa_loop mag buf = (if unat mag = 0 then [] else show_nat (unat mag)) @ buf"
proof (induction mag buf rule: itoa_loop.induct)
  case (1 mag buf)
  show ?case
  proof (cases "unat mag = 0")
    case True
    then show ?thesis by (subst itoa_loop.simps) simp
  next
    case False
    have d: "unat (mag div 10) = unat mag div 10" "unat (mag mod 10) = unat mag mod 10"
      by (simp_all add: unat_div unat_mod)
    have "itoa_loop mag buf = itoa_loop (mag div 10) (digit_char (unat mag mod 10) # buf)"
      using False d by (subst itoa_loop.simps) simp
    also have "\<dots> = (if unat mag div 10 = 0 then [] else show_nat (unat mag div 10))
        @ digit_char (unat mag mod 10) # buf"
      using 1 [OF False] d by simp
    also have "\<dots> = show_nat (unat mag) @ buf"
      by (subst (2) show_nat.simps) auto
    finally show ?thesis using False by simp
  qed
qed

lemma digit_char_zero: "digit_char 0 = CHR ''0''"
  by code_simp

text \<open>\<open>itoa\<close> is the decimal text of every \<open>int\<close>, the smallest one included.\<close>

lemma itoa_show_int: "itoa n = show_int (sint n)"
proof (cases "n = 0")
  case True
  then show ?thesis by (simp add: itoa_def show_int_def show_nat.simps digit_char_zero)
next
  case nz: False
  show ?thesis
  proof (cases "lt64 n 0")
    case True
    then have "unat (- (n + 1) + 1) = nat (- sint n)" by (rule unat_mag_neg)
    moreover have "sint n < 0" using True by (simp add: lt64_def)
    ultimately show ?thesis
      using nz True unfolding itoa_def Let_def itoa_loop_show_nat show_int_def by simp
  next
    case False
    then have s: "0 \<le> sint n" by (simp add: lt64_def)
    have i: "int (unat n) = sint n"
    proof -
      have "uint n = sint n mod 2 ^ 64" by (rule uint_sint64)
      also have "\<dots> = sint n" using s sint_range64 [of n] by simp
      finally show ?thesis by simp
    qed
    then have "unat n = nat (sint n)" by (metis nat_int)
    moreover have "unat n \<noteq> 0" using nz by (metis unat_eq_zero)
    ultimately show ?thesis
      using nz False s unfolding itoa_def Let_def itoa_loop_show_nat show_int_def by simp
  qed
qed

lemma numeric_text_show_int: "numeric_text (show_int i) = Some (i < 0, nat \<bar>i\<bar>, 0)"
proof -
  have ds: "takeWhile is_digit (show_nat n) = show_nat n" "dropWhile is_digit (show_nat n) = []" for n
    using show_nat_digits [of n] by (simp_all add: list_all_iff takeWhile_eq_all_conv)
  show ?thesis
  proof (cases "i < 0")
    case True
    then have "parse_sign (show_int i) = (True, show_nat (nat (- i)))"
      by (simp add: show_int_def parse_sign_def)
    with True show ?thesis by (simp add: numeric_text_def ds num_exponent_def)
  next
    case False
    then have "parse_sign (show_int i) = (False, show_nat (nat i))"
      by (simp add: show_int_def parse_sign_digits show_nat_digits)
    with False show ?thesis by (simp add: numeric_text_def ds num_exponent_def)
  qed
qed

text \<open>A number that crosses a boundary as text reads back as itself.\<close>

lemma parse_numeric_text_itoa: "parse_numeric_text (itoa n) = (n, True)"
  by (simp add: parse_numeric_text_def itoa_show_int show_int_trim numeric_text_show_int atoi_show_int)

lemma toInt_itoa [simp]: "toInt (GStr (itoa n)) = n"
  by (simp add: parse_numeric_text_itoa)

lemma itoa_inj: "itoa m = itoa n \<Longrightarrow> m = n"
  by (metis toInt_itoa)

subsection \<open>Byte buffers\<close>

definition promoteBytes :: "string \<Rightarrow> gval list" where
  "promoteBytes b = map (\<lambda>c. GInt (word_of_nat (byte c))) b"

definition byte_in_range :: "i64 \<Rightarrow> bool" where
  "byte_in_range n \<longleftrightarrow> \<not> lt64 n 0 \<and> \<not> lt64 255 n"

definition to_byte :: "i64 \<Rightarrow> char" where
  "to_byte n = char_of (unat n)"

definition bytesOf :: "gval \<Rightarrow> string option" where
  "bytesOf v = (case v of
     GBytes t \<Rightarrow> Some t
   | GList t \<Rightarrow>
       if \<forall>x \<in> set t. byte_in_range (toInt x) then Some (map (\<lambda>x. to_byte (toInt x)) t) else None
   | _ \<Rightarrow> None)"

definition isByteInt :: "gval \<Rightarrow> char option" where
  "isByteInt v = (case v of GInt n \<Rightarrow> if byte_in_range n then Some (to_byte n) else None | _ \<Rightarrow> None)"

definition listElems :: "gval \<Rightarrow> gval list option" where
  "listElems v = (case v of GList t \<Rightarrow> Some t | GBytes t \<Rightarrow> Some (promoteBytes t) | _ \<Rightarrow> None)"

fun bytesEqualElems :: "string \<Rightarrow> gval list \<Rightarrow> bool" where
  "bytesEqualElems [] [] = True"
| "bytesEqualElems (c # cs) (GInt n # xs) = (n = word_of_nat (byte c) \<and> bytesEqualElems cs xs)"
| "bytesEqualElems _ _ = False"

definition bytesEqualList :: "string \<Rightarrow> gval \<Rightarrow> bool" where
  "bytesEqualList a b = (case b of
     GBytes t \<Rightarrow> a = t
   | GList t \<Rightarrow> bytesEqualElems a t
   | _ \<Rightarrow> False)"

definition appendCopy :: "gval \<Rightarrow> gval \<Rightarrow> gval" where
  "appendCopy xs v = (case xs of
     GBytes b \<Rightarrow> (case isByteInt v of Some x \<Rightarrow> GBytes (b @ [x]) | None \<Rightarrow> GList (promoteBytes b @ [v]))
   | GList arr \<Rightarrow> GList (arr @ [v])
   | _ \<Rightarrow> GList [v])"

subsection \<open>equal\<close>

definition equal_scalar :: "gval \<Rightarrow> gval \<Rightarrow> bool" where
  "equal_scalar a b =
     (case (a, b) of
        (GStr as, _) \<Rightarrow> as = toStr b
      | (GRaw as, _) \<Rightarrow> as = toStr b
      | (_, GStr bs) \<Rightarrow> toStr a = bs
      | (_, GRaw bs) \<Rightarrow> toStr a = bs
      | (GBool ab, _) \<Rightarrow> ab = truthy b
      | (GFloat _, _) \<Rightarrow> f64_eq (toFloat a) (toFloat b)
      | (_, GFloat _) \<Rightarrow> f64_eq (toFloat a) (toFloat b)
      | _ \<Rightarrow> toInt a = toInt b)"

text \<open>
  A record may carry the address of the working-set row it is, under a key of the model's own
  that no program can name (\<open>@\<close> starts no identifier): the code's record is a pointer. It is
  no member of the record.
\<close>

definition row_key :: string where
  "row_key = ''@row''"

definition members :: "(string \<times> gval) list \<Rightarrow> nat" where
  "members m = length (filter (\<lambda>p. fst p \<noteq> row_key) m)"

fun equal :: "gval \<Rightarrow> gval \<Rightarrow> bool"
  and equal_list :: "gval list \<Rightarrow> gval list \<Rightarrow> bool"
  and equal_fields :: "(string \<times> gval) list \<Rightarrow> (string \<times> gval) list \<Rightarrow> bool" where
  "equal (GBytes a) b = bytesEqualList a b"
| "equal (GList al) b = (case b of
     GBytes bb \<Rightarrow> bytesEqualList bb (GList al)
   | GList bl \<Rightarrow> equal_list al bl
   | _ \<Rightarrow> False)"
| "equal (GRec am) b = (case b of
     GBytes bb \<Rightarrow> bytesEqualList bb (GRec am)
   | GRec bm \<Rightarrow> members am = members bm \<and> equal_fields am bm
   | _ \<Rightarrow> False)"
| "equal a b = (case b of
     GBytes bb \<Rightarrow> bytesEqualList bb a
   | GList _ \<Rightarrow> False
   | GRec _ \<Rightarrow> False
   | _ \<Rightarrow> equal_scalar a b)"
| "equal_list [] [] = True"
| "equal_list (x # xs) (y # ys) = (equal x y \<and> equal_list xs ys)"
| "equal_list _ _ = False"
| "equal_fields [] bm = True"
| "equal_fields ((k, v) # am) bm =
     ((k = row_key \<or> (case alget bm k of None \<Rightarrow> False | Some w \<Rightarrow> equal v w)) \<and> equal_fields am bm)"

end
