(* ===== verification/Ops.thy ===== *)
theory Ops
  imports Values
begin

text \<open>
  The operators and the indexed reads of runtime/eval.go: text indexed by rune through a
  table of byte offsets, list and text slices, \<open>indexOf\<close>, \<open>x[i]\<close>, \<open>applyBin\<close> and the
  map-key rule. The rune-indexed operations are related to the plain "decode, then
  index" reading of the text.
\<close>

subsection \<open>Rune offsets\<close>

definition scanASCII :: "string \<Rightarrow> bool" where
  "scanASCII s = list_all (\<lambda>c. byte c < 128) s"

fun offs_from :: "nat \<Rightarrow> (nat \<times> string) list \<Rightarrow> nat list" where
  "offs_from i [] = [i]"
| "offs_from i ((r, bs) # rs) = i # offs_from (i + length bs) rs"

text \<open>The byte offset of each rune, then the length of the text.\<close>

definition runeOffsets :: "string \<Rightarrow> nat list" where
  "runeOffsets s = offs_from 0 (runes s)"

text \<open>
  \<open>textIndex\<close>: \<open>None\<close> for a pure ASCII text, whose rune indexes are byte indexes, and the
  offset table otherwise. (The cache in front of it changes only the cost: an entry is an
  immutable answer for one string.)
\<close>

definition textIndex :: "string \<Rightarrow> nat list option" where
  "textIndex s = (if scanASCII s then None else Some (runeOffsets s))"

definition text_len :: "string \<Rightarrow> nat" where
  "text_len s = (case textIndex s of None \<Rightarrow> length s | Some offs \<Rightarrow> length offs - 1)"

text \<open>Clamp an int into \<open>[0, n]\<close>: the two tests every slice opens with.\<close>

definition clamp :: "nat \<Rightarrow> i64 \<Rightarrow> nat" where
  "clamp n i = (if lt64 i 0 then 0 else if int n < sint i then n else nat (sint i))"

definition listBounds :: "nat \<Rightarrow> i64 \<Rightarrow> i64 \<Rightarrow> nat \<times> nat" where
  "listBounds n start e =
     (let s = clamp n start; e' = clamp n e in (s, if e' < s then s else e'))"

definition runeLen :: "string \<Rightarrow> nat" where
  "runeLen s = (if length s < 128 then rune_count s else text_len s)"

definition listSlice :: "'a list \<Rightarrow> i64 \<Rightarrow> i64 \<Rightarrow> 'a list" where
  "listSlice xs start e = (case listBounds (length xs) start e of (s, e') \<Rightarrow> take (e' - s) (drop s xs))"

definition runeSlice :: "string \<Rightarrow> i64 \<Rightarrow> i64 \<Rightarrow> string" where
  "runeSlice s start e =
     (case listBounds (text_len s) start e of (a, b) \<Rightarrow>
       (case textIndex s of
          None \<Rightarrow> take (b - a) (drop a s)
        | Some offs \<Rightarrow> take (offs ! b - offs ! a) (drop (offs ! a) s)))"

text \<open>The binary search for the first offset at or past a byte position.\<close>

function search_offs :: "nat list \<Rightarrow> nat \<Rightarrow> nat \<Rightarrow> nat \<Rightarrow> nat" where
  "search_offs offs bpos lo hi =
     (if lo < hi then
        let mid = (lo + hi) div 2 in
        if bpos \<le> offs ! mid then search_offs offs bpos lo mid
        else search_offs offs bpos (mid + 1) hi
      else lo)"
  by pat_completeness auto
termination
  by (relation "measure (\<lambda>(offs, bpos, lo, hi). hi - lo)") auto

declare search_offs.simps [simp del]

definition runeIndexOf :: "string \<Rightarrow> string \<Rightarrow> i64 \<Rightarrow> i64" where
  "runeIndexOf s sub frm =
     (let f = clamp (text_len s) frm;
          bstart = (case textIndex s of None \<Rightarrow> f | Some offs \<Rightarrow> offs ! f)
      in case index_of (drop bstart s) sub of
           None \<Rightarrow> - 1
         | Some k \<Rightarrow>
             (case textIndex s of
                None \<Rightarrow> i64_of_nat (bstart + k)
              | Some offs \<Rightarrow> i64_of_nat (search_offs offs (bstart + k) 0 (length offs))))"

subsection \<open>indexOf over lists and byte buffers\<close>

fun find_from :: "('a \<Rightarrow> bool) \<Rightarrow> 'a list \<Rightarrow> nat \<Rightarrow> nat option" where
  "find_from p [] i = None"
| "find_from p (x # xs) i = (if p x then Some i else find_from p xs (Suc i))"

definition index_result :: "nat option \<Rightarrow> i64" where
  "index_result r = (case r of None \<Rightarrow> - 1 | Some i \<Rightarrow> i64_of_nat i)"

text \<open>A negative start reads as 0, one past the end finds nothing.\<close>

definition start_at :: "i64 \<Rightarrow> nat" where
  "start_at frm = (if lt64 frm 0 then 0 else nat (sint frm))"

definition listIndexOf :: "gval list \<Rightarrow> gval \<Rightarrow> i64 \<Rightarrow> i64" where
  "listIndexOf xs v frm =
     (let f = start_at frm;
          eq = (\<lambda>x. case (v, x) of (GStr s, GStr t) \<Rightarrow> t = s | _ \<Rightarrow> equal x v)
      in index_result (find_from eq (drop f xs) f))"

definition byte_set :: "gval \<Rightarrow> (char \<Rightarrow> bool) option" where
  "byte_set v = (case v of
     GList t \<Rightarrow> Some (\<lambda>c. \<exists>x \<in> set t. byte_in_range (toInt x) \<and> to_byte (toInt x) = c)
   | GBytes t \<Rightarrow> Some (\<lambda>c. c \<in> set t)
   | _ \<Rightarrow> if byte_in_range (toInt v) then Some (\<lambda>c. c = to_byte (toInt v)) else None)"

definition bytesIndexOf :: "string \<Rightarrow> gval \<Rightarrow> i64 \<Rightarrow> i64" where
  "bytesIndexOf b v frm =
     (let f = start_at frm in
      if length b \<le> f then - 1
      else case byte_set v of
             None \<Rightarrow> - 1
           | Some p \<Rightarrow> index_result (find_from p (drop f b) f))"

definition indexValue :: "gval \<Rightarrow> gval \<Rightarrow> gval" where
  "indexValue obj key = (case obj of
     GList c \<Rightarrow>
       (let i = toInt key in
        if lt64 i 0 \<or> int (length c) \<le> sint i then GNil else c ! nat (sint i))
   | GRec m \<Rightarrow> field m (toStr key)
   | _ \<Rightarrow> GNil)"

subsection \<open>Map keys\<close>

text \<open>A proc map is keyed by int or text; anything else is an error, not a panic.\<close>

definition mapKey :: "gval \<Rightarrow> gval option" where
  "mapKey v = (case v of
     GInt t \<Rightarrow> Some (GInt t)
   | GInt64 t \<Rightarrow> Some (GInt t)
   | GStr t \<Rightarrow> Some (GStr t)
   | GRaw t \<Rightarrow> Some (GStr t)
   | _ \<Rightarrow> None)"

subsection \<open>The operators\<close>

definition textOperands :: "gval \<Rightarrow> gval \<Rightarrow> (string \<times> string) option" where
  "textOperands l r =
     (let txt = (\<lambda>v. case v of GStr s \<Rightarrow> Some s | GRaw s \<Rightarrow> Some s | _ \<Rightarrow> None) in
      if txt l = None \<and> txt r = None then None
      else Some (case txt l of Some s \<Rightarrow> s | None \<Rightarrow> toStr l,
                 case txt r of Some s \<Rightarrow> s | None \<Rightarrow> toStr r))"

text \<open>
  A shift by a negative count is 0; any other count shifts that many times, so a count past
  the width leaves 0 or the sign.
\<close>

definition shiftLeft :: "i64 \<Rightarrow> i64 \<Rightarrow> i64" where
  "shiftLeft x n = (if lt64 n 0 then 0 else push_bit (nat (sint n)) x)"

definition shiftRight :: "i64 \<Rightarrow> i64 \<Rightarrow> i64" where
  "shiftRight x n = (if lt64 n 0 then 0 else i64_of_int (drop_bit (nat (sint n)) (sint x)))"

definition arith :: "(f64 \<Rightarrow> f64 \<Rightarrow> f64) \<Rightarrow> (i64 \<Rightarrow> i64 \<Rightarrow> i64) \<Rightarrow> gval \<Rightarrow> gval \<Rightarrow> gval" where
  "arith ff fi l r =
     (if is_float_val l \<or> is_float_val r then GFloat (ff (toFloat l) (toFloat r))
      else GInt (fi (toInt l) (toInt r)))"

definition compare_vals ::
  "(string \<Rightarrow> string \<Rightarrow> bool) \<Rightarrow> (f64 \<Rightarrow> f64 \<Rightarrow> bool) \<Rightarrow> (i64 \<Rightarrow> i64 \<Rightarrow> bool) \<Rightarrow> gval \<Rightarrow> gval \<Rightarrow> gval" where
  "compare_vals fs ff fi l r =
     (case textOperands l r of
        Some (ls, rs) \<Rightarrow> GBool (fs ls rs)
      | None \<Rightarrow>
          if is_float_val l \<or> is_float_val r then GBool (ff (toFloat l) (toFloat r))
          else GBool (fi (toInt l) (toInt r)))"

definition is_bytes :: "gval \<Rightarrow> bool" where
  "is_bytes v = (case v of GBytes _ \<Rightarrow> True | _ \<Rightarrow> False)"

definition plus_scalar :: "gval \<Rightarrow> gval \<Rightarrow> gval" where
  "plus_scalar l r = (case (l, r) of
     (GStr ls, _) \<Rightarrow> GStr (ls @ toStr r)
   | (_, GStr rs) \<Rightarrow> GStr (toStr l @ rs)
   | _ \<Rightarrow> arith f64_add (+) l r)"

definition plus_list :: "gval \<Rightarrow> gval \<Rightarrow> gval" where
  "plus_list l r = (case (listElems l, listElems r) of
     (Some la, Some ra) \<Rightarrow> GList (la @ ra)
   | _ \<Rightarrow> plus_scalar l r)"

definition plus_vals :: "gval \<Rightarrow> gval \<Rightarrow> gval" where
  "plus_vals l r =
     (if is_bytes l \<or> is_bytes r then
        (case (bytesOf l, bytesOf r) of
           (Some lb, Some rb) \<Rightarrow> GBytes (lb @ rb)
         | _ \<Rightarrow> plus_list l r)
      else plus_list l r)"

definition mem_vals :: "gval \<Rightarrow> gval \<Rightarrow> bool" where
  "mem_vals l r =
     (let generic = (case listElems r of None \<Rightarrow> False | Some items \<Rightarrow> \<exists>el \<in> set items. equal l el) in
      case r of
        GMap m \<Rightarrow> (case mapKey l of None \<Rightarrow> False | Some k \<Rightarrow> alget m k \<noteq> None)
      | GBytes rb \<Rightarrow>
          (case l of
             GInt n \<Rightarrow> byte_in_range n \<and> to_byte n \<in> set rb
           | _ \<Rightarrow> generic)
      | _ \<Rightarrow> generic)"

definition applyBin :: "string \<Rightarrow> gval \<Rightarrow> gval \<Rightarrow> gval" where
  "applyBin op l r =
     (if op = ''&&'' then GBool (truthy l \<and> truthy r)
      else if op = ''||'' then GBool (truthy l \<or> truthy r)
      else if op = ''+'' then plus_vals l r
      else if op = ''-'' then arith f64_sub (-) l r
      else if op = ''*'' then arith f64_mul (*) l r
      else if op = ''/'' then
        (if is_float_val l \<or> is_float_val r then GFloat (f64_div (toFloat l) (toFloat r))
         else if toInt r = 0 then GInt 0 else GInt (div64 (toInt l) (toInt r)))
      else if op = ''%'' then
        (if toInt r = 0 then GInt 0 else GInt (mod64 (toInt l) (toInt r)))
      else if op = ''=='' then GBool (equal l r)
      else if op = ''!='' then GBool (\<not> equal l r)
      else if op = ''<'' then compare_vals str_lt f64_lt lt64 l r
      else if op = ''<='' then compare_vals (\<lambda>a b. \<not> str_lt b a) f64_le le64 l r
      else if op = ''>'' then compare_vals (\<lambda>a b. str_lt b a) (\<lambda>a b. f64_lt b a) (\<lambda>a b. lt64 b a) l r
      else if op = ''>='' then
        compare_vals (\<lambda>a b. \<not> str_lt a b) (\<lambda>a b. f64_le b a) (\<lambda>a b. le64 b a) l r
      else if op = ''in'' then GBool (mem_vals l r)
      else if op = ''&'' then GInt (and (toInt l) (toInt r))
      else if op = ''|'' then GInt (or (toInt l) (toInt r))
      else if op = ''^'' then GInt (xor (toInt l) (toInt r))
      else if op = ''<<'' then GInt (shiftLeft (toInt l) (toInt r))
      else if op = ''>>'' then GInt (shiftRight (toInt l) (toInt r))
      else GNil)"

subsection \<open>Rune-indexed text is the decoded text, indexed\<close>

lemma length_offs_from: "length (offs_from i rs) = Suc (length rs)"
  by (induction i rs rule: offs_from.induct) simp_all

lemma nth_offs_from:
  "k \<le> length rs \<Longrightarrow> offs_from i rs ! k = i + length (concat (map snd (take k rs)))"
proof (induction i rs arbitrary: k rule: offs_from.induct)
  case (2 i r bs rs)
  then show ?case by (cases k) simp_all
qed simp

lemma concat_take_drop_runes:
  assumes "a \<le> b" "b \<le> length rs"
  shows "take (length (concat (map snd (take b rs))) - length (concat (map snd (take a rs))))
           (drop (length (concat (map snd (take a rs)))) (concat (map snd rs)))
       = concat (map snd (take (b - a) (drop a rs)))"
proof -
  have sp: "rs = take a rs @ take (b - a) (drop a rs) @ drop b rs"
    by (metis append_take_drop_id assms(1) drop_drop le_add_diff_inverse2)
  have tb: "take b rs = take a rs @ take (b - a) (drop a rs)"
    using assms by (metis le_add_diff_inverse take_add)
  have "concat (map snd rs) = concat (map snd (take a rs)) @
      concat (map snd (take (b - a) (drop a rs))) @ concat (map snd (drop b rs))"
    by (metis concat_append map_append sp)
  then show ?thesis by (simp add: tb)
qed

lemma scanASCII_is_ascii: "scanASCII s = is_ascii s"
  by (simp add: scanASCII_def is_ascii_def list_all_iff)

lemma text_len_runes [simp]: "text_len s = length (runes s)"
  by (simp add: text_len_def textIndex_def runeOffsets_def length_offs_from scanASCII_is_ascii runes_ascii)

lemma runeLen_runes: "runeLen s = length (runes s)"
  by (simp add: runeLen_def rune_count_def)

lemma clamp_le [simp]: "clamp n i \<le> n"
  by (auto simp: clamp_def)

lemma clamp_inside: "0 \<le> sint i \<Longrightarrow> sint i \<le> int n \<Longrightarrow> clamp n i = nat (sint i)"
  by (auto simp: clamp_def lt64_def)

lemma listBounds_le: "listBounds n a b = (s, e) \<Longrightarrow> s \<le> e \<and> e \<le> n"
  by (auto simp: listBounds_def Let_def split: if_splits)

text \<open>The reference reading of a text slice: decode every rune, then slice the list.\<close>

definition rune_slice_spec :: "string \<Rightarrow> i64 \<Rightarrow> i64 \<Rightarrow> string" where
  "rune_slice_spec s a b = concat (map snd (listSlice (runes s) a b))"

text \<open>
  C26: \<open>slice\<close>, \<open>take\<close> and \<open>charAt\<close> on a text, which index it through the byte offsets of its
  runes and never decode it, are the slice of the decoded runes: for ill-formed text too,
  and for every pair of ints.
\<close>

theorem runeSlice_spec: "runeSlice s a b = rune_slice_spec s a b"
proof -
  obtain x y where xy: "listBounds (length (runes s)) a b = (x, y)" by fastforce
  then have le: "x \<le> y" "y \<le> length (runes s)" using listBounds_le by auto
  show ?thesis
  proof (cases "scanASCII s")
    case True
    then have "runes s = map (\<lambda>c. (byte c, [c])) s"
      by (simp add: scanASCII_is_ascii runes_ascii)
    then show ?thesis using True xy
      by (simp add: runeSlice_def rune_slice_spec_def listSlice_def textIndex_def take_map drop_map
          comp_def)
  next
    case False
    have "offs_from 0 (runes s) ! y - offs_from 0 (runes s) ! x =
        length (concat (map snd (take y (runes s)))) - length (concat (map snd (take x (runes s))))"
      "offs_from 0 (runes s) ! x = length (concat (map snd (take x (runes s))))"
      using le by (simp_all add: nth_offs_from)
    then show ?thesis
      using False xy concat_take_drop_runes [OF le]
      by (simp add: runeSlice_def rune_slice_spec_def listSlice_def textIndex_def runeOffsets_def
          concat_runes)
  qed
qed

lemma search_offs_step:
  "lo < hi \<Longrightarrow> search_offs offs b lo hi =
     (if b \<le> offs ! ((lo + hi) div 2) then search_offs offs b lo ((lo + hi) div 2)
      else search_offs offs b ((lo + hi) div 2 + 1) hi)"
  by (subst search_offs.simps) (simp add: Let_def)

lemma search_offs_done [simp]: "\<not> lo < hi \<Longrightarrow> search_offs offs b lo hi = lo"
  by (subst search_offs.simps) simp

lemma search_offs_bounds: "lo \<le> hi \<Longrightarrow> lo \<le> search_offs offs b lo hi \<and> search_offs offs b lo hi \<le> hi"
proof (induction offs b lo hi rule: search_offs.induct)
  case (1 offs bpos lo hi)
  show ?case
  proof (cases "lo < hi")
    case True
    let ?m = "(lo + hi) div 2"
    have m: "lo \<le> ?m" "?m < hi" using True by auto
    show ?thesis
    proof (cases "bpos \<le> offs ! ?m")
      case le: True
      then have "search_offs offs bpos lo hi = search_offs offs bpos lo ?m"
        using search_offs_step [OF True, of offs bpos] by simp
      then show ?thesis using 1(1) [OF True refl le] m by auto
    next
      case gt: False
      then have "search_offs offs bpos lo hi = search_offs offs bpos (?m + 1) hi"
        using search_offs_step [OF True, of offs bpos] by simp
      then show ?thesis using 1(2) [OF True refl gt] m by auto
    qed
  next
    case False
    then show ?thesis using 1(3) by simp
  qed
qed

text \<open>Over ascending offsets the search returns the first position at or past the byte.\<close>

lemma search_offs_least:
  assumes "sorted offs" "hi \<le> length offs" "lo \<le> hi"
    "\<forall>i < lo. offs ! i < b" "\<forall>i. hi \<le> i \<and> i < length offs \<longrightarrow> b \<le> offs ! i"
  shows "(\<forall>i < search_offs offs b lo hi. offs ! i < b) \<and>
    (\<forall>i. search_offs offs b lo hi \<le> i \<and> i < length offs \<longrightarrow> b \<le> offs ! i)"
  using assms
proof (induction offs b lo hi rule: search_offs.induct)
  case (1 offs bpos lo hi)
  show ?case
  proof (cases "lo < hi")
    case True
    let ?m = "(lo + hi) div 2"
    have m: "lo \<le> ?m" "?m < hi" "?m < length offs" using True 1(4) by auto
    show ?thesis
    proof (cases "bpos \<le> offs ! ?m")
      case le: True
      have "\<forall>i. ?m \<le> i \<and> i < length offs \<longrightarrow> bpos \<le> offs ! i"
        using le 1(3) by (meson order_trans sorted_nth_mono)
      then have "(\<forall>i < search_offs offs bpos lo ?m. offs ! i < bpos) \<and>
          (\<forall>i. search_offs offs bpos lo ?m \<le> i \<and> i < length offs \<longrightarrow> bpos \<le> offs ! i)"
        using 1(1) [OF True refl le] 1(3,6) m by (meson less_imp_le)
      moreover have "search_offs offs bpos lo hi = search_offs offs bpos lo ?m"
        using search_offs_step [OF True, of offs bpos] le by simp
      ultimately show ?thesis by simp
    next
      case gt: False
      have "\<forall>i < ?m + 1. offs ! i < bpos"
      proof (intro allI impI)
        fix i assume "i < ?m + 1"
        then have "offs ! i \<le> offs ! ?m" using 1(3) m by (simp add: sorted_nth_mono)
        then show "offs ! i < bpos" using gt by simp
      qed
      then have "(\<forall>i < search_offs offs bpos (?m + 1) hi. offs ! i < bpos) \<and>
          (\<forall>i. search_offs offs bpos (?m + 1) hi \<le> i \<and> i < length offs \<longrightarrow> bpos \<le> offs ! i)"
        using 1(2) [OF True refl gt 1(3,4) _ _ 1(7)] m by (metis Suc_eq_plus1 Suc_leI)
      moreover have "search_offs offs bpos lo hi = search_offs offs bpos (?m + 1) hi"
        using search_offs_step [OF True, of offs bpos] gt by simp
      ultimately show ?thesis by simp
    qed
  next
    case False
    then have "search_offs offs bpos lo hi = lo" "lo = hi" using 1(5) by simp_all
    then show ?thesis using 1(6,7) by metis
  qed
qed

lemma sorted_offs_from: "sorted (offs_from i rs) \<and> (\<forall>x \<in> set (offs_from i rs). i \<le> x)"
proof (induction i rs rule: offs_from.induct)
  case (2 i r bs rs)
  then show ?case by (auto intro: order_trans [of i "i + length bs"])
qed simp

text \<open>
  Where the match starts on a rune, the found index is that rune's: the text from the found
  index on starts with what was searched for.
\<close>

lemma search_offs_hit:
  assumes "k < length offs" "sorted offs" "distinct offs"
  shows "search_offs offs (offs ! k) 0 (length offs) = k"
proof -
  let ?r = "search_offs offs (offs ! k) 0 (length offs)"
  have L: "(\<forall>i < ?r. offs ! i < offs ! k) \<and> (\<forall>i. ?r \<le> i \<and> i < length offs \<longrightarrow> offs ! k \<le> offs ! i)"
    by (rule search_offs_least) (use assms in auto)
  then have a: "\<not> k < ?r" by auto
  have "\<not> ?r < k"
  proof
    assume "?r < k"
    then have "offs ! k \<le> offs ! ?r" "offs ! ?r \<le> offs ! k"
      using L assms by (auto intro: sorted_nth_mono)
    then have "offs ! ?r = offs ! k" by simp
    then show False using \<open>?r < k\<close> assms by (simp add: nth_eq_iff_index_eq)
  qed
  with a show ?thesis by simp
qed

text \<open>The text from rune \<open>j\<close> on.\<close>

definition text_from :: "string \<Rightarrow> nat \<Rightarrow> string" where
  "text_from s j = concat (map snd (drop j (runes s)))"

lemma concat_drop:
  "concat (map snd (drop j rs)) = drop (length (concat (map snd (take j rs)))) (concat (map snd rs))"
proof -
  have "concat (map snd rs) = concat (map snd (take j rs)) @ concat (map snd (drop j rs))"
    by (metis append_take_drop_id concat_append map_append)
  then show ?thesis by simp
qed

lemma nth_runeOffsets: "j \<le> length (runes s) \<Longrightarrow> runeOffsets s ! j = length (concat (map snd (take j (runes s))))"
  by (simp add: runeOffsets_def nth_offs_from)

lemma length_runeOffsets [simp]: "length (runeOffsets s) = Suc (length (runes s))"
  by (simp add: runeOffsets_def length_offs_from)

lemma text_from_offs: "j \<le> length (runes s) \<Longrightarrow> text_from s j = drop (runeOffsets s ! j) s"
  by (simp add: text_from_def nth_runeOffsets concat_drop concat_runes)

lemma offs_from_strict: "(\<forall>p \<in> set rs. snd p \<noteq> []) \<Longrightarrow> sorted_wrt (<) (offs_from i rs)"
proof (induction i rs rule: offs_from.induct)
  case (2 i r bs rs)
  then have "0 < length bs" by simp
  then have "\<forall>x \<in> set (offs_from (i + length bs) rs). i < x"
    using sorted_offs_from [of "i + length bs" rs] by (auto simp: less_le_trans [of i "i + length bs"])
  with 2 show ?case by simp
qed simp

lemma runeOffsets_strict: "sorted_wrt (<) (runeOffsets s)"
  unfolding runeOffsets_def by (rule offs_from_strict) (use runes_pieces in fastforce)

lemma runeOffsets_mono: "i < j \<Longrightarrow> j \<le> length (runes s) \<Longrightarrow> runeOffsets s ! i < runeOffsets s ! j"
  using sorted_wrt_nth_less [OF runeOffsets_strict, of i j s] by simp

text \<open>A byte that is not a continuation byte starts a rune.\<close>

lemma piece_boundary:
  assumes "\<forall>p \<in> set rs. snd p \<noteq> [] \<and> (\<forall>c \<in> set (tl (snd p)). cont_byte c)"
    "b < length (concat (map snd rs))" "\<not> cont_byte (concat (map snd rs) ! b)"
  shows "\<exists>k < length rs. b = length (concat (map snd (take k rs)))"
  using assms
proof (induction rs arbitrary: b)
  case (Cons p rs)
  show ?case
  proof (cases "b < length (snd p)")
    case True
    then have "concat (map snd (p # rs)) ! b = snd p ! b" by (simp add: nth_append)
    with True Cons.prems have "b = 0"
      by (cases b; cases "snd p") auto
    then show ?thesis by (intro exI [of _ 0]) simp
  next
    case False
    then have "\<exists>k < length rs. b - length (snd p) = length (concat (map snd (take k rs)))"
      using Cons by (intro Cons.IH) (auto simp: nth_append)
    then obtain k where "k < length rs" "b - length (snd p) = length (concat (map snd (take k rs)))"
      by blast
    with False show ?thesis by (intro exI [of _ "Suc k"]) simp
  qed
qed simp

lemma rune_boundary:
  assumes "b < length s" "\<not> cont_byte (s ! b)"
  shows "\<exists>k < length (runes s). b = runeOffsets s ! k"
proof -
  have "\<exists>k < length (runes s). b = length (concat (map snd (take k (runes s))))"
    by (rule piece_boundary) (use assms runes_pieces concat_runes in fastforce)+
  then show ?thesis using nth_runeOffsets less_imp_le by metis
qed

text \<open>The reference reading of \<open>indexOf\<close>: the first rune from which the text starts with the needle.\<close>

definition rune_index_spec :: "string \<Rightarrow> string \<Rightarrow> i64 \<Rightarrow> i64" where
  "rune_index_spec s sub frm =
     index_result (find (\<lambda>j. has_prefix (text_from s j) sub)
       [clamp (length (runes s)) frm ..< Suc (length (runes s))])"

lemma find_upt_Some:
  "f \<le> j \<Longrightarrow> j < n \<Longrightarrow> P j \<Longrightarrow> (\<forall>i. f \<le> i \<and> i < j \<longrightarrow> \<not> P i) \<Longrightarrow> find P [f..<n] = Some j"
  by (subst find_Some_iff) (auto intro!: exI [of _ "j - f"])

lemma runeOffsets_ascii: "scanASCII s \<Longrightarrow> j \<le> length s \<Longrightarrow> runeOffsets s ! j = j"
  by (subst nth_runeOffsets)
    (simp_all add: scanASCII_is_ascii runes_ascii take_map comp_def)

text \<open>
  C27: \<open>indexOf\<close> on a text, a byte search whose answer a binary search maps to a rune index,
  is the first rune at or after the start from which the text begins with the needle, when
  the needle begins at a rune.
\<close>

theorem runeIndexOf_spec:
  assumes sub: "sub = [] \<or> \<not> cont_byte (hd sub)"
  shows "runeIndexOf s sub frm = rune_index_spec s sub frm"
proof -
  let ?n = "length (runes s)" and ?o = "runeOffsets s"
  let ?f = "clamp ?n frm"
  let ?b = "?o ! ?f"
  have f: "?f \<le> ?n" by simp
  have b: "(case textIndex s of None \<Rightarrow> ?f | Some offs \<Rightarrow> offs ! ?f) = ?b"
    by (auto simp: textIndex_def runeOffsets_ascii scanASCII_is_ascii runes_ascii)
  show ?thesis
  proof (cases "index_of (drop ?b s) sub")
    case None
    have "\<not> has_prefix (text_from s j) sub" if "j \<in> set [?f ..< Suc ?n]" for j
    proof -
      have j: "?f \<le> j" "j \<le> ?n" using that by auto
      then have "?b \<le> ?o ! j" using runeOffsets_mono [of ?f j s] by (cases "?f = j") auto
      then have "text_from s j = drop (?o ! j - ?b) (drop ?b s)" using j text_from_offs by simp
      then show ?thesis using index_of_None [OF None] by simp
    qed
    then have "find (\<lambda>j. has_prefix (text_from s j) sub) [?f ..< Suc ?n] = None"
      by (subst find_None_iff) blast
    then show ?thesis using None b
      by (simp add: runeIndexOf_def rune_index_spec_def index_result_def Let_def del: upt_Suc)
  next
    case (Some k)
    note K = index_of_Some [OF Some]
    have ble: "?b \<le> length s"
      using f by (metis concat_runes nth_runeOffsets append_take_drop_id concat_append length_append
          le_add1 map_append)
    have "\<exists>j \<le> ?n. ?b + k = ?o ! j"
    proof (cases "sub = []")
      case True
      then have "k = 0" using K by (metis gr0I has_prefix_def list.size(3) take_0)
      then show ?thesis using f by (intro exI [of _ ?f]) simp
    next
      case False
      then obtain c t where ct: "sub = c # t" by (cases sub) auto
      then have pre: "take (length sub) (drop (?b + k) s) = c # t"
        using K by (simp add: has_prefix_def add.commute)
      then have "drop (?b + k) s \<noteq> []" using ct by auto
      then have lt: "?b + k < length s" by simp
      then have "s ! (?b + k) = c"
        using pre ct by (metis hd_drop_conv_nth hd_take length_greater_0_conv list.discI list.sel(1))
      then show ?thesis using rune_boundary [OF lt] sub ct less_imp_le by auto
    qed
    then obtain j where j: "j \<le> ?n" "?b + k = ?o ! j" by blast
    have fj: "?f \<le> j"
      using j runeOffsets_mono [of j ?f s] f by (metis le_add1 not_le)
    have hit: "has_prefix (text_from s j) sub"
      using K j by (simp add: text_from_offs add.commute)
    have miss: "\<not> has_prefix (text_from s i) sub" if i: "?f \<le> i" "i < j" for i
    proof -
      have "?b \<le> ?o ! i" using runeOffsets_mono [of ?f i s] i j by (cases "?f = i") auto
      moreover have "?o ! i < ?b + k" using runeOffsets_mono [of i j s] i j by simp
      ultimately have "?o ! i - ?b < k" by linarith
      then have "\<not> has_prefix (drop (?o ! i - ?b) (drop ?b s)) sub" using K by blast
      then show ?thesis using i j \<open>?b \<le> ?o ! i\<close> by (simp add: text_from_offs)
    qed
    have "search_offs ?o (?o ! j) 0 (length ?o) = j"
      by (rule search_offs_hit) (use j runeOffsets_strict [of s] strict_sorted_iff in auto)
    moreover have "?o ! j = j" if "scanASCII s"
      using runeOffsets_ascii [OF that, of j] j that by (simp add: scanASCII_is_ascii runes_ascii)
    ultimately have "runeIndexOf s sub frm = i64_of_nat j"
      using Some b j(2) by (auto simp: runeIndexOf_def Let_def textIndex_def)
    moreover have "find (\<lambda>j. has_prefix (text_from s j) sub) [?f ..< Suc ?n] = Some j"
      by (rule find_upt_Some) (use fj j hit miss in auto)
    ultimately show ?thesis by (simp add: rune_index_spec_def index_result_def del: upt_Suc)
  qed
qed

theorem runeIndexOf_spec_witness:
  "runeIndexOf ''abc'' ''c'' 0 = rune_index_spec ''abc'' ''c'' 0"
  by (rule runeIndexOf_spec) (simp add: cont_byte_def)

end
