(* ===== verification/Builtins.thy ===== *)
theory Builtins
  imports Ops "HOL-Library.Multiset"
begin

text \<open>
  The pure builtin library: the unsigned reading of an \<open>int\<close> (runtime/u64.go), the byte-level
  primitives (runtime/bytesval.go), the formatting builtins (runtime/format.go, runtime/eval.go)
  and the dispatch table \<open>callBuiltin\<close> (runtime/eval.go). Clock, randomness, the Unicode case
  tables, the transcendental functions and the cryptographic, time-zone and JSON packages
  are the fields of a \<open>stdlib\<close> record.
\<close>

subsection \<open>The u64 builtins\<close>

definition u64_too_large :: string where "u64_too_large = ''number too large to fit in target type''"
definition u64_invalid :: string where "u64_invalid = ''invalid digit found in string''"
definition u64_empty :: string where "u64_empty = ''cannot parse integer from empty string''"

fun u64_loop :: "u64 \<Rightarrow> string \<Rightarrow> u64 \<times> string" where
  "u64_loop v [] = (v, [])"
| "u64_loop v (c # s) =
     (if \<not> is_digit c then (0, u64_invalid)
      else let d = word_of_nat (digit_val c) in
           if (- 1 - d) div 10 < v then (0, u64_too_large)
           else u64_loop (v * 10 + d) s)"

definition parseU64 :: "string \<Rightarrow> u64 \<times> string" where
  "parseU64 s =
     (if s = [] then (0, u64_empty)
      else let digits = trim_prefix s ''+'' in
           if digits = [] then (0, u64_invalid) else u64_loop 0 digits)"

definition argAt :: "gval list \<Rightarrow> nat \<Rightarrow> gval" where
  "argAt args i = (if i < length args then args ! i else GNil)"

definition u64Arg :: "gval list \<Rightarrow> nat \<Rightarrow> u64" where
  "u64Arg args i = (if i < length args then toInt (args ! i) else 0)"

definition u64Builtin :: "string \<Rightarrow> gval list \<Rightarrow> gval" where
  "u64Builtin name args =
     (let a = u64Arg args 0; b = u64Arg args 1 in
      if name = ''u64Cmp'' then GInt (if a < b then - 1 else if b < a then 1 else 0)
      else if name = ''u64Min'' then GInt (min a b)
      else if name = ''u64Max'' then GInt (max a b)
      else if name = ''u64SatSub'' then GInt (if a < b then 0 else a - b)
      else if name = ''u64Div'' then GInt (if b = 0 then 0 else a div b)
      else if name = ''u64Rem'' then GInt (if b = 0 then 0 else a mod b)
      else if name = ''u64Text'' then GStr (show_nat (unat a))
      else if name = ''u64Parse'' then
        (case parseU64 (toStr (argAt args 0)) of (v, msg) \<Rightarrow> GInt (if msg \<noteq> [] then 0 else v))
      else if name = ''u64ParseError'' then GStr (snd (parseU64 (toStr (argAt args 0))))
      else if name = ''u64ToFloat'' then GFloat (f64_of_int (int (unat a)))
      else GNil)"

subsection \<open>Byte-level primitives\<close>

text \<open>A builtin's outcome: a value, an error the program sees, or a Go panic.\<close>

datatype 'a outcome = Done 'a | Fail string | Panic

fun bytes_compare :: "string \<Rightarrow> string \<Rightarrow> i64" where
  "bytes_compare [] [] = 0"
| "bytes_compare [] (_ # _) = - 1"
| "bytes_compare (_ # _) [] = 1"
| "bytes_compare (a # as) (b # bs) =
     (if byte a < byte b then - 1 else if byte b < byte a then 1 else bytes_compare as bs)"

definition bytesCmpBuiltin :: "gval \<Rightarrow> gval \<Rightarrow> gval outcome" where
  "bytesCmpBuiltin a b = (case bytesOf a of
     None \<Rightarrow> Fail ''bytesCmp: the first argument is not a byte buffer''
   | Some x \<Rightarrow> (case bytesOf b of
       None \<Rightarrow> Fail ''bytesCmp: the second argument is not a byte buffer''
     | Some y \<Rightarrow> Done (GInt (bytes_compare x y))))"

definition range_error :: "i64 \<Rightarrow> i64 \<Rightarrow> string \<Rightarrow> string" where
  "range_error f t x = ''bytesCmpRange: range '' @ itoa f @ ''..'' @ itoa t
     @ '' is outside a buffer of '' @ show_nat (length x) @ '' bytes''"

definition range_bad :: "i64 \<Rightarrow> i64 \<Rightarrow> string \<Rightarrow> bool" where
  "range_bad f t x \<longleftrightarrow> lt64 f 0 \<or> int (length x) < sint t \<or> lt64 t f"

definition sub_bytes :: "string \<Rightarrow> i64 \<Rightarrow> i64 \<Rightarrow> string" where
  "sub_bytes x f t = take (nat (sint t) - nat (sint f)) (drop (nat (sint f)) x)"

definition bytesCmpRangeInt ::
  "gval \<Rightarrow> i64 \<Rightarrow> i64 \<Rightarrow> gval \<Rightarrow> i64 \<Rightarrow> i64 \<Rightarrow> i64 outcome" where
  "bytesCmpRangeInt a aFrom aTo b bFrom bTo = (case bytesOf a of
     None \<Rightarrow> Fail ''bytesCmpRange: the first argument is not a byte buffer''
   | Some x \<Rightarrow> (case bytesOf b of
       None \<Rightarrow> Fail ''bytesCmpRange: the second argument is not a byte buffer''
     | Some y \<Rightarrow>
         if range_bad aFrom aTo x then Fail (range_error aFrom aTo x)
         else if range_bad bFrom bTo y then Fail (range_error bFrom bTo y)
         else Done (bytes_compare (sub_bytes x aFrom aTo) (sub_bytes y bFrom bTo))))"

text \<open>\<open>x[i]\<close> on a byte slice: a panic when out of range.\<close>

definition byte_at :: "string \<Rightarrow> i64 \<Rightarrow> u64 option" where
  "byte_at x i =
     (if lt64 i 0 \<or> int (length x) \<le> sint i then None else Some (word_of_nat (byte (x ! nat (sint i)))))"

fun le_loop :: "string \<Rightarrow> i64 \<Rightarrow> nat \<Rightarrow> u64 \<Rightarrow> i64 outcome" where
  "le_loop x at 0 v = Done v"
| "le_loop x at (Suc i) v =
     (case byte_at x (at + i64_of_nat i) of
        None \<Rightarrow> Panic
      | Some c \<Rightarrow> le_loop x at i (or (push_bit 8 v) c))"

definition uintLEInt :: "gval \<Rightarrow> i64 \<Rightarrow> i64 \<Rightarrow> i64 outcome" where
  "uintLEInt b at n = (case bytesOf b of
     None \<Rightarrow> Fail ''uintLE: not a byte buffer''
   | Some x \<Rightarrow>
       if lt64 n 1 \<or> lt64 8 n then Fail (''uintLE: width '' @ itoa n @ '' is not 1-8 bytes'')
       else if lt64 at 0 \<or> int (length x) < sint (at + n) then
         Fail (''uintLE: bytes '' @ itoa at @ ''..'' @ itoa (at + n) @ '' are outside a buffer of ''
           @ show_nat (length x) @ '' bytes'')
       else le_loop x at (nat (sint n)) 0)"

definition hex_digit :: "nat \<Rightarrow> char" where
  "hex_digit d = char_of (if d < 10 then 48 + d else 87 + d)"

definition hex_encode :: "string \<Rightarrow> string" where
  "hex_encode x = concat (map (\<lambda>c. [hex_digit (byte c div 16), hex_digit (byte c mod 16)]) x)"

definition hex_value :: "char \<Rightarrow> nat option" where
  "hex_value c =
     (if is_digit c then Some (byte c - 48)
      else if 97 \<le> byte c \<and> byte c \<le> 102 then Some (byte c - 87)
      else if 65 \<le> byte c \<and> byte c \<le> 70 then Some (byte c - 55)
      else None)"

fun hex_decode :: "string \<Rightarrow> string option" where
  "hex_decode [] = Some []"
| "hex_decode [c] = None"
| "hex_decode (c # d # s) = (case (hex_value c, hex_value d, hex_decode s) of
     (Some a, Some b, Some t) \<Rightarrow> Some (char_of (16 * a + b) # t)
   | _ \<Rightarrow> None)"

definition toHexBuiltin :: "gval \<Rightarrow> gval outcome" where
  "toHexBuiltin b = (case bytesOf b of
     None \<Rightarrow> Fail ''toHex: not a byte buffer''
   | Some x \<Rightarrow> Done (GStr (hex_encode x)))"

definition fromHexBuiltin :: "string \<Rightarrow> gval" where
  "fromHexBuiltin s = GBytes (case hex_decode s of None \<Rightarrow> [] | Some x \<Rightarrow> x)"

definition bytesPutInto :: "string \<Rightarrow> i64 \<Rightarrow> gval \<Rightarrow> string outcome" where
  "bytesPutInto b at src = (case bytesOf src of
     None \<Rightarrow> Fail ''bytesPut: the source is not a byte buffer''
   | Some s \<Rightarrow>
       if lt64 at 0 \<or> int (length b) < sint (at + i64_of_nat (length s)) then
         Fail (''bytesPut: writing '' @ show_nat (length s) @ '' bytes at '' @ itoa at
           @ '' is outside a buffer of '' @ show_nat (length b) @ '' bytes'')
       else if int (length b) < sint at then Panic
       else let a = nat (sint at) in
         Done (take a b @ take (length b - a) s @ drop (a + length s) b))"

definition bytesPutBuiltin :: "gval \<Rightarrow> i64 \<Rightarrow> gval \<Rightarrow> gval outcome" where
  "bytesPutBuiltin dst at src = (case bytesOf dst of
     None \<Rightarrow> Fail ''bytesPut: the destination is not a byte buffer''
   | Some d \<Rightarrow> (case bytesPutInto d at src of
       Done out \<Rightarrow> Done (GBytes out) | Fail e \<Rightarrow> Fail e | Panic \<Rightarrow> Panic))"

subsection \<open>Formatting\<close>

definition neg64 :: "i64 \<Rightarrow> i64" where
  "neg64 n = (if lt64 n 0 then - n else n)"

definition low_byte :: "i64 \<Rightarrow> char" where
  "low_byte n = char_of (unat n mod 256)"

definition formatMoney :: "i64 \<Rightarrow> string" where
  "formatMoney cents0 =
     (let neg = lt64 cents0 0; cents = neg64 cents0; frac = mod64 cents 100;
          s = itoa (div64 cents 100) @ ''.'' @ [low_byte (48 + div64 frac 10), low_byte (48 + mod64 frac 10)]
      in if neg then CHR ''-'' # s else s)"

definition compact :: "i64 \<Rightarrow> string" where
  "compact n0 =
     (let n = neg64 n0;
          (unit, suffix) =
            (if le64 1000000000 n then (1000000000, ''B'')
             else if le64 1000000 n then (1000000, ''M'')
             else if le64 1000 n then (1000, ''K'') else (1 :: i64, []));
          s = (if unit = 1 then show_int (sint n)
               else let tenths = div64 n (div64 unit 10) in
                 show_int (sint (div64 tenths 10))
                 @ (if mod64 tenths 10 \<noteq> 0 then ''.'' @ show_int (sint (mod64 tenths 10)) else [])
                 @ suffix)
      in if lt64 n0 0 then CHR ''-'' # s else s)"

fun commas_loop :: "bool \<Rightarrow> string \<Rightarrow> string" where
  "commas_loop first [] = []"
| "commas_loop first (c # s) =
     (if \<not> first \<and> length (c # s) mod 3 = 0 then [CHR '','', c] else [c]) @ commas_loop False s"

definition commas :: "i64 \<Rightarrow> string" where
  "commas n0 =
     (let out = commas_loop True (show_int (sint (neg64 n0)))
      in if lt64 n0 0 then CHR ''-'' # out else out)"

text \<open>\<open>time.Unix(t, 0).UTC()\<close> in the proleptic Gregorian calendar.\<close>

definition civil_from_days :: "int \<Rightarrow> int \<times> nat \<times> nat" where
  "civil_from_days z0 =
     (let z = z0 + 719468; era = z div 146097; doe = z - era * 146097;
          yoe = (doe - doe div 1460 + doe div 36524 - doe div 146096) div 365;
          doy = doe - (365 * yoe + yoe div 4 - yoe div 100);
          mp = (5 * doy + 2) div 153; d = doy - (153 * mp + 2) div 5 + 1;
          m = (if mp < 10 then mp + 3 else mp - 9); y = yoe + era * 400
      in (if m \<le> 2 then y + 1 else y, nat m, nat d))"

definition utc_date :: "i64 \<Rightarrow> int \<times> nat \<times> nat" where
  "utc_date ts = civil_from_days (sint ts div 86400)"

definition pad2 :: "nat \<Rightarrow> string" where
  "pad2 n = (if n < 10 then CHR ''0'' # show_nat n else show_nat n)"

definition pad4 :: "int \<Rightarrow> string" where
  "pad4 y = (if y < 0 then ''-'' else []) @ replicate (4 - length (show_nat (nat \<bar>y\<bar>))) (CHR ''0'')
     @ show_nat (nat \<bar>y\<bar>)"

definition iso :: "i64 \<Rightarrow> string" where
  "iso ts =
     (if ts = 0 then []
      else case utc_date ts of (y, m, d) \<Rightarrow>
        let sec = nat (sint ts mod 86400) in
        pad4 y @ ''-'' @ pad2 m @ ''-'' @ pad2 d @ ''T'' @ pad2 (sec div 3600) @ '':''
          @ pad2 (sec div 60 mod 60) @ '':'' @ pad2 (sec mod 60) @ ''Z'')"

definition month_abbrev :: "nat \<Rightarrow> string" where
  "month_abbrev m = [''Jan'', ''Feb'', ''Mar'', ''Apr'', ''May'', ''Jun'', ''Jul'', ''Aug'', ''Sep'',
     ''Oct'', ''Nov'', ''Dec''] ! (m - 1)"

definition ago :: "i64 \<Rightarrow> i64 \<Rightarrow> string" where
  "ago ts nw =
     (let d = nw - ts in
      if lt64 d 60 then ''now''
      else if lt64 d 3600 then show_int (sint (div64 d 60)) @ ''m''
      else if lt64 d 86400 then show_int (sint (div64 d 3600)) @ ''h''
      else case (utc_date ts, utc_date nw) of ((y, m, dd), (y', _, _)) \<Rightarrow>
        month_abbrev m @ '' '' @ show_nat dd @ (if y \<noteq> y' then '', '' @ show_int y else []))"

definition hex4 :: "nat \<Rightarrow> string" where
  "hex4 n = [CHR 0x5C, CHR ''u'', hex_digit (n div 4096 mod 16), hex_digit (n div 256 mod 16),
     hex_digit (n div 16 mod 16), hex_digit (n mod 16)]"

text \<open>\<open>json.Marshal\<close> of a string, HTML-safe.\<close>

definition json_rune :: "nat \<times> string \<Rightarrow> string" where
  "json_rune p = (case p of (r, bs) \<Rightarrow>
     if r = 34 then [CHR 0x5C, CHR 0x22]
     else if r = 92 then [CHR 0x5C, CHR 0x5C]
     else if r = 8 then [CHR 0x5C, CHR ''b'']
     else if r = 12 then [CHR 0x5C, CHR ''f'']
     else if r = 10 then [CHR 0x5C, CHR ''n'']
     else if r = 13 then [CHR 0x5C, CHR ''r'']
     else if r = 9 then [CHR 0x5C, CHR ''t'']
     else if r < 32 \<or> r \<in> {60, 62, 38, 8232, 8233} \<or> (r = rune_error \<and> length bs = 1) then hex4 r
     else bs)"

definition jsonQuote :: "string \<Rightarrow> string" where
  "jsonQuote s = [CHR 0x22] @ concat (map json_rune (runes s)) @ [CHR 0x22]"

text \<open>
  \<open>shuffleOrder\<close>: a Fisher-Yates shuffle; \<open>draw seed i\<close> is the \<open>rng.Intn(i + 1)\<close> of the
  step for position \<open>i\<close>.
\<close>

definition swap_at :: "'a list \<Rightarrow> nat \<Rightarrow> nat \<Rightarrow> 'a list" where
  "swap_at xs i j = xs[i := xs ! j, j := xs ! i]"

fun shuffle_loop :: "(nat \<Rightarrow> nat) \<Rightarrow> nat \<Rightarrow> 'a list \<Rightarrow> 'a list" where
  "shuffle_loop draw 0 order = order"
| "shuffle_loop draw (Suc i) order = shuffle_loop draw i (swap_at order (Suc i) (draw (Suc i)))"

definition shuffleOrder :: "(string \<Rightarrow> nat \<Rightarrow> nat) \<Rightarrow> string \<Rightarrow> i64 \<Rightarrow> nat list" where
  "shuffleOrder draw seed n0 =
     (let n = (if lt64 n0 0 then 0 else nat (sint n0)); order = [0..<n]
      in if seed = [] \<or> n < 2 then order else shuffle_loop (draw seed) (n - 1) order)"

subsection \<open>Unsigned parsing is exact\<close>

lemma digits_val_fold: "foldl (\<lambda>a c. 10 * a + digit_val c) v s = v * 10 ^ length s + digits_val s"
proof (induction s arbitrary: v)
  case (Cons c s)
  show ?case
    using Cons [of "10 * v + digit_val c"] Cons [of "digit_val c"]
    by (simp add: digits_val_def algebra_simps)
qed (simp add: digits_val_def)

lemma digits_val_Cons: "digits_val (c # s) = digit_val c * 10 ^ length s + digits_val s"
  using digits_val_fold [of "digit_val c" s] by (simp add: digits_val_def)

lemma digit_val_lt: "is_digit c \<Longrightarrow> digit_val c < 10"
  by (auto simp: is_digit_def digit_val_def)

lemma unat_of_small: "n < 2 ^ 64 \<Longrightarrow> unat (word_of_nat n :: u64) = n"
  by (simp add: unsigned_of_nat take_bit_nat_eq_self)

lemma unat_lt64: "unat (v :: u64) < 2 ^ 64"
  using unsigned_less [of v] by simp

text \<open>The overflow test before each digit is exactly "the value so far no longer fits".\<close>

lemma u64_guard:
  assumes "d < 10"
  shows "(- 1 - word_of_nat d) div 10 < (v :: u64) \<longleftrightarrow> 2 ^ 64 \<le> unat v * 10 + d"
proof -
  have "(- 1 - word_of_nat d :: u64) = word_of_nat (2 ^ 64 - 1 - d)"
    using assms by (simp add: of_nat_diff)
  then have u: "unat (- 1 - word_of_nat d :: u64) = 2 ^ 64 - 1 - d"
    using unat_of_small by simp
  show ?thesis
    unfolding word_less_nat_alt unat_div u using assms by simp linarith
qed

lemma u64_step:
  assumes "d < 10" "unat v * 10 + d < 2 ^ 64"
  shows "unat (v * 10 + word_of_nat d :: u64) = unat v * 10 + d"
proof -
  have "v * 10 + word_of_nat d = (word_of_nat (unat v * 10 + d) :: u64)" by simp
  then show ?thesis using assms(2) unat_of_small by metis
qed

lemma u64_loop_exact:
  "list_all is_digit s \<Longrightarrow> u64_loop v s =
     (if unat v * 10 ^ length s + digits_val s < 2 ^ 64
      then (word_of_nat (unat v * 10 ^ length s + digits_val s), []) else (0, u64_too_large))"
proof (induction s arbitrary: v)
  case Nil
  then show ?case using unat_lt64 [of v] by (simp add: digits_val_def)
next
  case (Cons c s)
  let ?d = "digit_val c"
  have d: "?d < 10" using Cons.prems digit_val_lt by simp
  have val: "unat v * 10 ^ length (c # s) + digits_val (c # s)
      = (unat v * 10 + ?d) * 10 ^ length s + digits_val s"
    by (simp add: digits_val_Cons algebra_simps)
  show ?case
  proof (cases "2 ^ 64 \<le> unat v * 10 + ?d")
    case True
    have "(1 :: nat) \<le> 10 ^ length s" by simp
    then have "unat v * 10 + ?d \<le> (unat v * 10 + ?d) * 10 ^ length s + digits_val s"
      by (metis le_add1 le_trans mult.right_neutral mult_le_mono2)
    then have "\<not> unat v * 10 ^ length (c # s) + digits_val (c # s) < 2 ^ 64"
      using True val by simp
    moreover have "u64_loop v (c # s) = (0, u64_too_large)"
      using True Cons.prems u64_guard [OF d, of v] by simp
    ultimately show ?thesis by (simp only: if_False)
  next
    case False
    then have "u64_loop v (c # s) = u64_loop (v * 10 + word_of_nat ?d) s"
      using Cons.prems u64_guard [OF d, of v] by simp
    also have "\<dots> = (if (unat v * 10 + ?d) * 10 ^ length s + digits_val s < 2 ^ 64
        then (word_of_nat ((unat v * 10 + ?d) * 10 ^ length s + digits_val s), [])
        else (0, u64_too_large))"
      using Cons False d by (simp add: u64_step)
    finally show ?thesis by (simp only: val)
  qed
qed

lemma u64_loop_digits: "u64_loop v s = (w, []) \<Longrightarrow> list_all is_digit s"
  by (induction v s rule: u64_loop.induct)
    (auto simp: u64_invalid_def u64_too_large_def Let_def split: if_splits)

lemma parseU64_iff:
  "parseU64 s = (v, []) \<longleftrightarrow>
     (let ds = trim_prefix s ''+'' in
        s \<noteq> [] \<and> ds \<noteq> [] \<and> list_all is_digit ds \<and> digits_val ds < 2 ^ 64 \<and> unat v = digits_val ds)"
proof -
  let ?ds = "trim_prefix s ''+''"
  have eq: "u64_loop 0 ?ds = (v, []) \<longleftrightarrow>
      list_all is_digit ?ds \<and> digits_val ?ds < 2 ^ 64 \<and> unat v = digits_val ?ds"
  proof
    assume l: "u64_loop 0 ?ds = (v, [])"
    then have dg: "list_all is_digit ?ds" by (rule u64_loop_digits)
    with l u64_loop_exact [OF dg, of 0]
    show "list_all is_digit ?ds \<and> digits_val ?ds < 2 ^ 64 \<and> unat v = digits_val ?ds"
      by (auto simp: unat_of_small u64_too_large_def split: if_splits)
  next
    assume r: "list_all is_digit ?ds \<and> digits_val ?ds < 2 ^ 64 \<and> unat v = digits_val ?ds"
    then have "v = word_of_nat (digits_val ?ds)" by (metis of_nat_unat ucast_id)
    with r show "u64_loop 0 ?ds = (v, [])" using u64_loop_exact [of ?ds 0] by simp
  qed
  show ?thesis
    by (auto simp: parseU64_def eq Let_def u64_empty_def u64_invalid_def)
qed

text \<open>
  C37: \<open>u64Parse\<close> accepts exactly the decimal texts of numbers below \<open>2 ^ 64\<close>, with one
  optional leading \<open>+\<close>, and answers that number; the digit-by-digit overflow test neither
  lets a larger number through nor refuses one that fits.
\<close>

theorem parseU64_exact:
  "parseU64 s = (v, []) \<longleftrightarrow>
     (let ds = trim_prefix s ''+'' in
        s \<noteq> [] \<and> ds \<noteq> [] \<and> list_all is_digit ds \<and> digits_val ds < 2 ^ 64 \<and> unat v = digits_val ds)"
  by (rule parseU64_iff)

lemma trim_prefix_show_nat: "trim_prefix (show_nat n) ''+'' = show_nat n"
proof -
  obtain c t where ct: "show_nat n = c # t" by (cases "show_nat n") simp_all
  then have "is_digit c" using show_nat_digits [of n] by simp
  then show ?thesis using ct digit_not_sign by (simp add: trim_prefix_def has_prefix_def)
qed

text \<open>
  C38: every 64-bit pattern survives the unsigned text round trip: what \<open>u64Text\<close> prints,
  \<open>u64Parse\<close> reads back, the patterns a signed print would show as negative included.
\<close>

theorem u64_text_round_trip:
  "u64Builtin ''u64Parse'' [u64Builtin ''u64Text'' [GInt a]] = GInt a"
proof -
  have "parseU64 (show_nat (unat a)) = (a, [])"
    using show_nat_digits [of "unat a"] unat_lt64 [of a]
    by (simp add: parseU64_iff trim_prefix_show_nat Let_def)
  then show ?thesis by (simp add: u64Builtin_def u64Arg_def argAt_def)
qed

subsection \<open>Hex, and writing into a buffer\<close>

lemma hex_value_digit: "d < 16 \<Longrightarrow> hex_value (hex_digit d) = Some d"
  by (auto simp: hex_value_def hex_digit_def is_digit_def)

lemma hex_round_trip: "hex_decode (hex_encode x) = Some x"
proof (induction x)
  case (Cons c x)
  have "byte c < 256" by (cases c) simp
  then have "byte c div 16 < 16" by (intro less_mult_imp_div_less) simp
  moreover have "byte c mod 16 < 16" by simp
  ultimately have h: "hex_value (hex_digit (byte c div 16)) = Some (byte c div 16)"
    "hex_value (hex_digit (byte c mod 16)) = Some (byte c mod 16)"
    by (simp_all only: hex_value_digit)
  have "hex_encode (c # x) = hex_digit (byte c div 16) # hex_digit (byte c mod 16) # hex_encode x"
    by (simp add: hex_encode_def)
  with Cons h show ?case by simp
qed (simp add: hex_encode_def)

text \<open>\<open>fromHex\<close> undoes \<open>toHex\<close> on every buffer, a byte buffer or a list of byte values.\<close>

theorem from_hex_to_hex:
  assumes "bytesOf b = Some x"
  shows "\<exists>t. toHexBuiltin b = Done (GStr t) \<and> length t = 2 * length x \<and> fromHexBuiltin t = GBytes x"
proof -
  have "length (hex_encode x) = 2 * length x" by (induction x) (simp_all add: hex_encode_def)
  then show ?thesis using assms by (simp add: toHexBuiltin_def fromHexBuiltin_def hex_round_trip)
qed

theorem from_hex_to_hex_witness:
  "\<exists>t. toHexBuiltin (GList [GInt 10]) = Done (GStr t) \<and> length t = 2 * length [CHR 0x0A]
     \<and> fromHexBuiltin t = GBytes [CHR 0x0A]"
  by (rule from_hex_to_hex) code_simp

subsection \<open>Little-endian reads\<close>

fun le_nat :: "string \<Rightarrow> nat" where
  "le_nat [] = 0"
| "le_nat (c # s) = byte c + 256 * le_nat s"

lemma or_low_byte:
  assumes "k < 256" shows "or (push_bit 8 v) (word_of_nat k) = (v :: u64) * 256 + word_of_nat k"
proof -
  have "\<not> bit (word_of_nat k :: u64) n" if "8 \<le> n" for n
  proof -
    have "take_bit 8 k = k" using assms by (simp add: take_bit_nat_eq_self)
    then have "\<not> bit k n" using that by (metis bit_take_bit_iff not_le)
    then show ?thesis by (simp add: bit_simps)
  qed
  then have "\<not> (bit (push_bit 8 v) n \<and> bit (word_of_nat k :: u64) n)" for n by (auto simp: bit_push_bit_iff)
  then have "or (push_bit 8 v) (word_of_nat k) = push_bit 8 v + word_of_nat k"
    by (simp add: disjunctive_add)
  then show ?thesis by (simp add: push_bit_eq_mult)
qed

lemma le_nat_snoc: "le_nat (s @ [c]) = le_nat s + 256 ^ length s * byte c"
  by (induction s) (simp_all add: algebra_simps)

lemma le_loop_value:
  assumes "0 \<le> sint at" "sint at + int i \<le> int (length x)" "length x < 2 ^ 63"
  shows "le_loop x at i v = Done (v * 256 ^ i + word_of_nat (le_nat (take i (drop (nat (sint at)) x))))"
  using assms(2)
proof (induction i arbitrary: v)
  case (Suc i)
  let ?a = "nat (sint at)"
  have s: "sint (at + i64_of_nat i) = sint at + int i"
  proof -
    have "at + i64_of_nat i = word_of_int (sint at + int i)" by simp
    moreover have "in_i64 (sint at + int i)" using Suc.prems assms(1,3) by (simp add: in_i64_def)
    ultimately show ?thesis using sint_of_int64 by metis
  qed
  then have b: "byte_at x (at + i64_of_nat i) = Some (word_of_nat (byte (x ! (?a + i))))"
    using Suc.prems assms(1) by (simp add: byte_at_def lt64_def nat_add_distrib)
  have u: "byte (x ! (?a + i)) < 256" by (cases "x ! (?a + i)") simp
  have t: "take (Suc i) (drop ?a x) = take i (drop ?a x) @ [x ! (?a + i)]"
    using Suc.prems assms(1) by (subst take_Suc_conv_app_nth) auto
  have l: "length (take i (drop ?a x)) = i" using Suc.prems assms(1) by simp
  have "le_loop x at (Suc i) v = le_loop x at i (v * 256 + word_of_nat (byte (x ! (?a + i))))"
    using b or_low_byte [OF u, of v] by simp
  also have "\<dots> = Done ((v * 256 + word_of_nat (byte (x ! (?a + i)))) * 256 ^ i +
      word_of_nat (le_nat (take i (drop ?a x))))"
    using Suc by simp
  also have "\<dots> = Done (v * 256 ^ Suc i + word_of_nat (le_nat (take (Suc i) (drop ?a x))))"
    using l unfolding t le_nat_snoc by (simp add: algebra_simps)
  finally show ?case .
qed simp

lemma sint_add_small:
  assumes "0 \<le> sint (a :: i64)" "sint a + k < 2 ^ 63" "0 \<le> k"
  shows "sint (a + word_of_int k) = sint a + k"
proof -
  have "a + word_of_int k = word_of_int (sint a + k)" by simp
  moreover have "in_i64 (sint a + k)" using assms by (simp add: in_i64_def)
  ultimately show ?thesis using sint_of_int64 by metis
qed

text \<open>
  C39: \<open>uintLE\<close> over bytes that lie inside the buffer is the little-endian value of exactly
  those bytes, for every width from 1 to 8, the eight-byte one read as the same 64-bit
  pattern.
\<close>

theorem uintLE_reads:
  assumes "bytesOf b = Some x" "length x < 2 ^ 62" "1 \<le> sint n" "sint n \<le> 8" "0 \<le> sint at"
    "sint at + sint n \<le> int (length x)"
  shows "uintLEInt b at n = Done (word_of_nat (le_nat (take (nat (sint n)) (drop (nat (sint at)) x))))"
proof -
  have "sint (at + n) = sint at + sint n"
    using sint_add_small [of at "sint n"] assms by simp
  then show ?thesis
    using assms le_loop_value [of at "nat (sint n)" x 0]
    by (simp add: uintLEInt_def lt64_def)
qed

theorem uintLE_reads_witness:
  "uintLEInt (GBytes ''abc'') 1 2 = Done (word_of_nat (le_nat (take (nat (sint (2 :: i64))) (drop (nat (sint (1 :: i64))) ''abc''))))"
  by (rule uintLE_reads) (simp_all add: bytesOf_def)

text \<open>
  The bounds test adds before it compares, so a position near the largest int wraps past
  it: the read is then a Go panic, not the error the test is there to give.
\<close>

theorem uintLE_wraps:
  "length x < 2 ^ 62 \<Longrightarrow> uintLEInt (GBytes x) (word_of_int (2 ^ 63 - 1)) 1 = Panic"
  by (simp add: uintLEInt_def bytesOf_def lt64_def byte_at_def)

theorem bytesPut_wraps:
  "length b < 2 ^ 62 \<Longrightarrow> bytesPutInto b (word_of_int (2 ^ 63 - 1)) (GBytes [c]) = Panic"
  by (simp add: bytesPutInto_def bytesOf_def lt64_def)

text \<open>
  C40: a \<open>bytesPut\<close> whose range lies inside the destination writes exactly the source there
  and leaves the length and every other byte as they were.
\<close>

theorem bytesPut_writes:
  assumes "bytesOf dst = Some d" "bytesOf src = Some s" "length d < 2 ^ 62" "0 \<le> sint at"
    "sint at + int (length s) \<le> int (length d)"
  shows "\<exists>out. bytesPutBuiltin dst at src = Done (GBytes out) \<and> length out = length d
    \<and> take (length s) (drop (nat (sint at)) out) = s
    \<and> (\<forall>i < length d. i < nat (sint at) \<or> nat (sint at) + length s \<le> i \<longrightarrow> out ! i = d ! i)"
proof -
  let ?a = "nat (sint at)"
  let ?out = "take ?a d @ s @ drop (?a + length s) d"
  have a: "?a + length s \<le> length d" using assms by linarith
  have "sint (at + i64_of_nat (length s)) = sint at + int (length s)"
    using sint_add_small [of at "int (length s)"] assms by simp
  then have "bytesPutBuiltin dst at src = Done (GBytes ?out)"
    using assms a by (simp add: bytesPutBuiltin_def bytesPutInto_def lt64_def Let_def)
  moreover have "length ?out = length d" "take (length s) (drop ?a ?out) = s" using a by simp_all
  moreover have "\<forall>i < length d. i < ?a \<or> ?a + length s \<le> i \<longrightarrow> ?out ! i = d ! i"
    using a by (auto simp: nth_append)
  ultimately show ?thesis by blast
qed

theorem bytesPut_writes_witness:
  "\<exists>out. bytesPutBuiltin (GBytes ''abcd'') 1 (GBytes ''xy'') = Done (GBytes out) \<and> length out = length ''abcd''
    \<and> take (length ''xy'') (drop (nat (sint (1 :: i64))) out) = ''xy''
    \<and> (\<forall>i < length ''abcd''. i < nat (sint (1 :: i64)) \<or> nat (sint (1 :: i64)) + length ''xy'' \<le> i
         \<longrightarrow> out ! i = ''abcd'' ! i)"
  by (rule bytesPut_writes) (simp_all add: bytesOf_def)

subsection \<open>Shuffles and money\<close>

lemma mset_swap_at: "i < length xs \<Longrightarrow> j < length xs \<Longrightarrow> mset (swap_at xs i j) = mset xs"
  unfolding swap_at_def by (rule mset_swap)

lemma shuffle_loop_perm:
  "i < length xs \<Longrightarrow> (\<forall>k. draw k \<le> k) \<Longrightarrow> mset (shuffle_loop draw i xs) = mset xs"
proof (induction draw i xs rule: shuffle_loop.induct)
  case (2 draw i order)
  then have "draw (Suc i) < length order" by (meson le_less_trans)
  with 2 have "mset (swap_at order (Suc i) (draw (Suc i))) = mset order" by (simp add: mset_swap_at)
  moreover have "length (swap_at order (Suc i) (draw (Suc i))) = length order" by (simp add: swap_at_def)
  ultimately show ?case using 2 by simp
qed simp

text \<open>
  The seeded shuffle is a permutation of \<open>0..n-1\<close>: it loses no option and repeats
  none, whatever numbers the generator draws in the ranges it is asked for.
\<close>

theorem shuffleOrder_permutes:
  assumes "\<forall>seed k. draw seed k \<le> k"
  shows "mset (shuffleOrder draw seed n) = mset [0..<(if lt64 n 0 then 0 else nat (sint n))]"
  using assms by (simp add: shuffleOrder_def Let_def shuffle_loop_perm)

theorem shuffleOrder_permutes_witness:
  "mset (shuffleOrder (\<lambda>s k. k div 2) ''a'' 5) = mset [0..<(if lt64 5 0 then 0 else nat (sint (5 :: i64)))]"
  by (rule shuffleOrder_permutes) simp

lemma sdiv_nonneg: "0 \<le> (k :: int) \<Longrightarrow> 0 < l \<Longrightarrow> k sdiv l = k div l"
  by (cases "k = 0") (simp_all add: signed_divide_int_def)

lemma smod_nonneg: "0 \<le> (k :: int) \<Longrightarrow> 0 < l \<Longrightarrow> k smod l = k mod l"
  by (cases "k = 0") (simp_all add: signed_modulo_int_def)

lemma div64_nonneg: "0 \<le> sint a \<Longrightarrow> 0 < sint b \<Longrightarrow> sint (div64 a b) = sint a div sint b"
proof -
  assume h: "0 \<le> sint a" "0 < sint b"
  then have "sint a div sint b \<le> sint a" by (cases "sint a = 0") (simp_all add: int_div_le_self)
  then have "in_i64 (sint a div sint b)"
    using h sint_range64 [of a] pos_imp_zdiv_nonneg_iff [OF h(2), of "sint a"] by (simp add: in_i64_def)
  then show ?thesis using h by (simp add: div64_def sdiv_nonneg sint_of_int64)
qed

lemma mod64_nonneg: "0 \<le> sint a \<Longrightarrow> 0 < sint b \<Longrightarrow> sint (mod64 a b) = sint a mod sint b"
proof -
  assume h: "0 \<le> sint a" "0 < sint b"
  then have "0 \<le> sint a mod sint b" "sint a mod sint b < sint b" by simp_all
  then have "in_i64 (sint a mod sint b)" using sint_range64 [of b] by (simp add: in_i64_def)
  then show ?thesis using h by (simp add: mod64_def smod_nonneg sint_of_int64)
qed

text \<open>
  Money prints as a sign, the whole units and exactly two decimals, for every amount but
  the smallest int.
\<close>

theorem formatMoney_text:
  assumes "sint c \<noteq> - (2 ^ 63)"
  shows "formatMoney c = (if sint c < 0 then ''-'' else []) @ show_nat (nat (\<bar>sint c\<bar> div 100)) @ ''.''
    @ [digit_char (nat (\<bar>sint c\<bar> mod 100 div 10)), digit_char (nat (\<bar>sint c\<bar> mod 10))]"
proof -
  let ?m = "\<bar>sint c\<bar>"
  have m: "in_i64 ?m" "0 \<le> ?m" using assms sint_range64 [of c] by (auto simp: in_i64_def)
  have "neg64 c = word_of_int ?m" by (simp add: neg64_def lt64_def)
  then have n: "sint (neg64 c) = ?m" using m by (simp add: sint_of_int64)
  have q: "sint (div64 (neg64 c) 100) = ?m div 100" "sint (mod64 (neg64 c) 100) = ?m mod 100"
    using n m by (simp_all add: div64_nonneg mod64_nonneg)
  then have "div64 (mod64 (neg64 c) 100) 10 = word_of_int (?m mod 100 div 10)"
    "mod64 (mod64 (neg64 c) 100) 10 = word_of_int (?m mod 100 mod 10)"
    by (simp_all add: div64_def mod64_def sdiv_nonneg smod_nonneg)
  note q = q this
  have lb: "low_byte (48 + word_of_int k) = digit_char (nat k)" if "0 \<le> k" "k < 10" for k :: int
  proof -
    have "(48 + word_of_int k :: i64) = word_of_nat (48 + nat k)" using that by simp
    moreover have "unat (word_of_nat (48 + nat k) :: u64) = 48 + nat k"
      by (rule unat_of_small) (use that in simp)
    ultimately have "unat (48 + word_of_int k :: i64) = 48 + nat k" by simp
    then show ?thesis using that by (simp add: low_byte_def digit_char_def)
  qed
  have mm: "?m mod 100 mod 10 = ?m mod 10" by (simp add: mod_mod_cancel)
  have "\<not> ?m div 100 < 0" using m by (simp add: pos_imp_zdiv_nonneg_iff not_less)
  then have "itoa (div64 (neg64 c) 100) = show_nat (nat (?m div 100))"
    by (simp only: itoa_show_int q(1) show_int_def if_False)
  moreover have "low_byte (48 + div64 (mod64 (neg64 c) 100) 10) = digit_char (nat (?m mod 100 div 10))"
    "low_byte (48 + mod64 (mod64 (neg64 c) 100) 10) = digit_char (nat (?m mod 10))"
    unfolding q mm by (rule lb; simp)+
  ultimately show ?thesis
    by (simp add: formatMoney_def Let_def lt64_def)
qed

theorem formatMoney_text_witness:
  "formatMoney (- 105) = (if sint (- 105 :: i64) < 0 then ''-'' else [])
    @ show_nat (nat (\<bar>sint (- 105 :: i64)\<bar> div 100)) @ ''.''
    @ [digit_char (nat (\<bar>sint (- 105 :: i64)\<bar> mod 100 div 10)), digit_char (nat (\<bar>sint (- 105 :: i64)\<bar> mod 10))]"
  by (rule formatMoney_text) simp

text \<open>At the smallest int the negation is the identity, and the text is not a number.\<close>

theorem formatMoney_smallest: "formatMoney (word_of_int (- (2 ^ 63))) = ''--92233720368547758.0(''"
  by (simp add: formatMoney_def neg64_def Let_def lt64_def itoa_show_int show_int_def show_nat.simps
      div64_def mod64_def signed_divide_int_def signed_modulo_int_def low_byte_def digit_char_def
      char_of_def bit_0)

end
