(* ===== verification/Dispatch.thy ===== *)
theory Dispatch
  imports Builtins
begin

text \<open>
  \<open>callBuiltin\<close> (runtime/eval.go), the one dispatch table every evaluator shares, and the
  refinement that a byte buffer behaves as the list of its ints.
\<close>

text \<open>
  What the table takes from elsewhere: the clock, randomness, the Unicode tables, the
  transcendental functions, and the builtins whose whole body is a library call
  (cryptography, time zones, JSON), by name.
\<close>

record stdlib =
  sl_now :: i64
  sl_rand :: "i64 \<Rightarrow> i64"
  sl_draw :: "string \<Rightarrow> nat \<Rightarrow> nat"
  sl_upper :: "nat \<Rightarrow> nat"
  sl_lower :: "nat \<Rightarrow> nat"
  sl_exp :: "f64 \<Rightarrow> f64"
  sl_ln :: "f64 \<Rightarrow> f64"
  sl_sin :: "f64 \<Rightarrow> f64"
  sl_cos :: "f64 \<Rightarrow> f64"
  sl_call :: "string \<Rightarrow> gval list \<Rightarrow> gval"

definition encode_rune :: "nat \<Rightarrow> string" where
  "encode_rune r0 =
     (let r = (if 1114111 < r0 \<or> (55296 \<le> r0 \<and> r0 \<le> 57343) then rune_error else r0) in
      if r < 128 then [char_of r]
      else if r < 2048 then [char_of (192 + r div 64), char_of (128 + r mod 64)]
      else if r < 65536 then
        [char_of (224 + r div 4096), char_of (128 + r div 64 mod 64), char_of (128 + r mod 64)]
      else [char_of (240 + r div 262144), char_of (128 + r div 4096 mod 64),
            char_of (128 + r div 64 mod 64), char_of (128 + r mod 64)])"

definition strings_map :: "(nat \<Rightarrow> nat) \<Rightarrow> string \<Rightarrow> string" where
  "strings_map f s = concat (map (\<lambda>p. encode_rune (f (fst p))) (runes s))"

definition rune_upper :: "stdlib \<Rightarrow> nat \<Rightarrow> nat" where
  "rune_upper L r = (if r < 128 then (if 97 \<le> r \<and> r \<le> 122 then r - 32 else r) else sl_upper L r)"

definition rune_lower :: "stdlib \<Rightarrow> nat \<Rightarrow> nat" where
  "rune_lower L r = (if r < 128 then (if 65 \<le> r \<and> r \<le> 90 then r + 32 else r) else sl_lower L r)"

definition slug_keep :: "nat \<Rightarrow> bool" where
  "slug_keep r \<longleftrightarrow> (97 \<le> r \<and> r \<le> 122) \<or> (48 \<le> r \<and> r \<le> 57)"

fun slug_loop :: "nat list \<Rightarrow> bool \<Rightarrow> string \<Rightarrow> string" where
  "slug_loop [] dash b = b"
| "slug_loop (r # rs) dash b =
     (if slug_keep r then
        slug_loop rs False ((if dash \<and> b \<noteq> [] then b @ [CHR ''-''] else b) @ [char_of r])
      else slug_loop rs True b)"

definition slug :: "stdlib \<Rightarrow> string \<Rightarrow> string" where
  "slug L s = slug_loop (map fst (runes (strings_map (rune_lower L) s))) False []"

definition num_builtin :: "stdlib \<Rightarrow> string \<Rightarrow> gval list \<Rightarrow> gval option" where
  "num_builtin L name args =
     (let a = argAt args 0; b = argAt args 1; fl = is_float_val a; fl2 = is_float_val a \<or> is_float_val b in
      if name = ''abs'' then
        Some (if fl then GFloat (f64_abs (toFloat a)) else GInt (neg64 (toInt a)))
      else if name = ''min'' then
        Some (if fl2 then GFloat (if f64_lt (toFloat a) (toFloat b) then toFloat a else toFloat b)
              else GInt (if lt64 (toInt a) (toInt b) then toInt a else toInt b))
      else if name = ''max'' then
        Some (if fl2 then GFloat (if f64_lt (toFloat b) (toFloat a) then toFloat a else toFloat b)
              else GInt (if lt64 (toInt b) (toInt a) then toInt a else toInt b))
      else if name = ''floor'' then
        Some (GInt (if fl then f64_to_i64 (f64_floor (toFloat a)) else toInt a))
      else if name = ''round'' then
        Some (GInt (if fl then f64_to_i64 (f64_math_round (toFloat a)) else toInt a))
      else if name = ''toFloat'' then Some (GFloat (toFloat a))
      else if name = ''toInt'' then Some (GInt (toInt a))
      else if name \<in> {''u64Cmp'', ''u64Min'', ''u64Max'', ''u64SatSub'', ''u64Div'', ''u64Rem'', ''u64Text'',
          ''u64Parse'', ''u64ParseError'', ''u64ToFloat''} then Some (u64Builtin name args)
      else if name = ''exp'' then Some (GFloat (sl_exp L (toFloat a)))
      else if name = ''ln'' then Some (GFloat (sl_ln L (toFloat a)))
      else if name = ''sqrt'' then Some (GFloat (f64_sqrt (toFloat a)))
      else if name = ''sin'' then Some (GFloat (sl_sin L (toFloat a)))
      else if name = ''cos'' then Some (GFloat (sl_cos L (toFloat a)))
      else if name = ''floatBits'' then Some (GInt (f64_bits (toFloat a)))
      else if name = ''floatFromBits'' then Some (GFloat (f64_from_bits (toInt a)))
      else if name = ''toMoney'' then Some (GInt (fst (parse_money_text (toStr a))))
      else if name = ''print'' then Some a
      else if name = ''money'' then Some (GStr (formatMoney (toInt a)))
      else None)"

definition clamp_byte :: "i64 \<Rightarrow> char" where
  "clamp_byte n = (if lt64 n 0 then char_of (0 :: nat) else if lt64 255 n then char_of (255 :: nat)
     else to_byte n)"

definition bytesToText :: "gval \<Rightarrow> string" where
  "bytesToText v = (case v of
     GBytes b \<Rightarrow> b
   | GList arr \<Rightarrow> map (\<lambda>x. clamp_byte (toInt x)) arr
   | _ \<Rightarrow> [])"

definition buf_builtin :: "string \<Rightarrow> gval list \<Rightarrow> gval option" where
  "buf_builtin name args =
     (let a = argAt args 0 in
      if name = ''len'' then
        Some (GInt (i64_of_nat (case a of
          GList v \<Rightarrow> length v | GBytes v \<Rightarrow> length v | GMap v \<Rightarrow> length v | _ \<Rightarrow> runeLen (toStr a))))
      else if name = ''byteLen'' then Some (GInt (i64_of_nat (length (toStr a))))
      else if name = ''textToBytes'' then Some (GBytes (toStr a))
      else if name = ''jsonQuote'' then Some (GStr (jsonQuote (toStr a)))
      else if name = ''validUtf8'' then
        Some (GBool (case bytesOf a of Some bs \<Rightarrow> utf8_valid bs | None \<Rightarrow> False))
      else if name = ''bytesToText'' then Some (GStr (bytesToText a))
      else if name = ''bytes'' then
        Some (GBytes (replicate (if lt64 (toInt a) 0 then 0 else nat (sint (toInt a))) (char_of (0 :: nat))))
      else if name = ''append'' then Some (appendCopy a (argAt args 1))
      else None)"

definition text_builtin :: "stdlib \<Rightarrow> string \<Rightarrow> gval list \<Rightarrow> gval option" where
  "text_builtin L name args =
     (let a = argAt args 0; b = argAt args 1; c = argAt args 2 in
      if name = ''upper'' then Some (GStr (strings_map (rune_upper L) (toStr a)))
      else if name = ''lower'' then Some (GStr (strings_map (rune_lower L) (toStr a)))
      else if name = ''trim'' then Some (GStr (trim_space (toStr a)))
      else if name = ''contains'' then Some (GBool (str_contains (toStr a) (toStr b)))
      else if name = ''replace'' then Some (GStr (replace_all (toStr a) (toStr b) (toStr c)))
      else if name = ''slug'' then Some (GStr (slug L (toStr a)))
      else if name = ''ago'' then Some (GStr (ago (toInt a) (sl_now L)))
      else if name = ''iso'' then Some (GStr (iso (toInt a)))
      else if name = ''compact'' then Some (GStr (compact (toInt a)))
      else if name = ''commas'' then Some (GStr (commas (toInt a)))
      else if name = ''join'' then
        Some (GStr (str_join (map toStr (case listElems a of Some items \<Rightarrow> items | None \<Rightarrow> [])) (toStr b)))
      else if name = ''split'' then Some (GList (map GStr (str_split (toStr a) (toStr b))))
      else if name = ''charAt'' then
        Some (GStr (if lt64 (toInt b) 0 then [] else runeSlice (toStr a) (toInt b) (toInt b + 1)))
      else if name = ''year'' then Some (GInt (i64_of_int (fst (utc_date (toInt a)))))
      else if name = ''month'' then Some (GInt (i64_of_nat (fst (snd (utc_date (toInt a))))))
      else if name = ''day'' then Some (GInt (i64_of_nat (snd (snd (utc_date (toInt a))))))
      else None)"

definition list_builtin :: "string \<Rightarrow> gval list \<Rightarrow> gval option" where
  "list_builtin name args =
     (let a = argAt args 0; b = argAt args 1; c = argAt args 2 in
      if name = ''first'' then
        Some (case a of GList (x # _) \<Rightarrow> x | GBytes (x # _) \<Rightarrow> GInt (word_of_nat (byte x)) | _ \<Rightarrow> GNil)
      else if name = ''take'' then
        (let n = (if lt64 (toInt b) 0 then 0 else toInt b) in
         Some (case a of GList xs \<Rightarrow> GList (listSlice xs 0 n) | _ \<Rightarrow> GStr (runeSlice (toStr a) 0 n)))
      else if name = ''slice'' then
        Some (case a of
          GList xs \<Rightarrow> GList (listSlice xs (toInt b) (toInt c))
        | GBytes x \<Rightarrow> (case listBounds (length x) (toInt b) (toInt c) of (s, e) \<Rightarrow> GBytes (take (e - s) (drop s x)))
        | _ \<Rightarrow> GStr (runeSlice (toStr a) (toInt b) (toInt c)))
      else if name = ''indexOf'' then
        Some (GInt (case a of
          GList xs \<Rightarrow> listIndexOf xs b (toInt c)
        | GBytes x \<Rightarrow> bytesIndexOf x b (toInt c)
        | _ \<Rightarrow> runeIndexOf (toStr a) (toStr b) (toInt c)))
      else None)"

text \<open>The builtins whose answer is the clock's, a generator's or a library's.\<close>

definition lib_builtin :: "stdlib \<Rightarrow> string \<Rightarrow> gval list \<Rightarrow> gval option" where
  "lib_builtin L name args =
     (let a = argAt args 0; b = argAt args 1 in
      if name = ''now'' then Some (GInt (sl_now L))
      else if name = ''rand'' then
        Some (GInt (if le64 (toInt a) 0 then 0 else sl_rand L (toInt a)))
      else if name = ''shuffleOrder'' then
        Some (GList (map (\<lambda>v. GInt (i64_of_nat v)) (shuffleOrder (sl_draw L) (toStr a) (toInt b))))
      else if name \<in> {''ed25519Verify'', ''ecdsaP256Verify'', ''sha256Hex'', ''canonicalJson'', ''fromLocal'',
          ''formatIn'', ''zoneValid'', ''verifyPassword'', ''totpSecret'', ''randomToken'', ''totpValid'',
          ''fromIso'', ''fromJson''} then Some (sl_call L name args)
      else None)"

definition callBuiltin :: "stdlib \<Rightarrow> string \<Rightarrow> gval list \<Rightarrow> gval" where
  "callBuiltin L name args =
     (case lib_builtin L name args of Some v \<Rightarrow> v | None \<Rightarrow>
     (case num_builtin L name args of Some v \<Rightarrow> v | None \<Rightarrow>
     (case buf_builtin name args of Some v \<Rightarrow> v | None \<Rightarrow>
     (case text_builtin L name args of Some v \<Rightarrow> v | None \<Rightarrow>
     (case list_builtin name args of Some v \<Rightarrow> v | None \<Rightarrow> GNil)))))"

subsection \<open>A byte buffer is the list of its ints\<close>

definition as_list :: "gval \<Rightarrow> gval" where
  "as_list v = (case v of GBytes b \<Rightarrow> GList (promoteBytes b) | _ \<Rightarrow> v)"

definition int_list :: "gval \<Rightarrow> bool" where
  "int_list v = (case v of GBytes _ \<Rightarrow> True | GList xs \<Rightarrow> (\<forall>x \<in> set xs. \<exists>n. x = GInt n) | _ \<Rightarrow> False)"

lemma int_list_cases:
  assumes "int_list v"
  obtains b where "v = GBytes b" | ns where "v = GList (map GInt ns)"
proof (cases v)
  case (GList xs)
  then have "\<forall>x \<in> set xs. \<exists>n. x = GInt n" using assms by (simp add: int_list_def)
  then have "\<exists>ns. xs = map GInt ns" by (simp add: ex_map_conv)
  then show ?thesis using GList that by blast
qed (use assms that in \<open>auto simp: int_list_def\<close>)

definition byte_words :: "string \<Rightarrow> i64 list" where
  "byte_words b = map (\<lambda>c. word_of_nat (byte c)) b"

lemma promoteBytes_words: "promoteBytes b = map GInt (byte_words b)"
  by (simp add: promoteBytes_def byte_words_def)

lemma as_list_simps [simp]:
  "as_list (GBytes b) = GList (map GInt (byte_words b))" "as_list (GList xs) = GList xs"
  by (simp_all add: as_list_def promoteBytes_words)

lemma byte_lt: "byte c < 256"
  by (cases c) simp

lemma sint_byte [simp]: "sint (word_of_nat (byte c) :: i64) = int (byte c)"
  by (rule sint_of_nat64, rule less_le_trans [OF byte_lt]) simp

lemma to_byte_word: "byte_in_range n \<Longrightarrow> word_of_nat (byte (to_byte n)) = n"
proof -
  assume "byte_in_range n"
  then have n: "0 \<le> sint n" "sint n \<le> 255" by (auto simp: byte_in_range_def lt64_def)
  have "uint n = sint n" using n uint_sint64 [of n] by simp
  then have "unat n < 256" using n by (simp add: unat_eq_nat_uint)
  then show ?thesis by (simp add: to_byte_def)
qed

lemma word_to_byte [simp]: "to_byte (word_of_nat (byte c)) = c"
proof -
  have "unat (word_of_nat (byte c) :: u64) = byte c"
    by (rule unat_of_small, rule less_le_trans [OF byte_lt]) simp
  then show ?thesis by (simp add: to_byte_def)
qed

lemma byte_in_range_byte [simp]: "byte_in_range (word_of_nat (byte c))"
proof -
  have "byte c \<le> 255" using byte_lt [of c] by linarith
  then show ?thesis by (simp add: byte_in_range_def lt64_def)
qed

lemma bytesOf_ints: "bytesOf (GList (map GInt ns)) =
    (if \<forall>n \<in> set ns. byte_in_range n then Some (map to_byte ns) else None)"
  by (simp add: bytesOf_def comp_def)

lemma bytesOf_GBytes [simp]: "bytesOf (GBytes b) = Some b"
  by (simp add: bytesOf_def)

lemma byte_words_to_byte: "\<forall>n \<in> set ns. byte_in_range n \<Longrightarrow> byte_words (map to_byte ns) = ns"
  by (simp add: byte_words_def map_idI to_byte_word)

lemma bytesOf_as_list: "int_list v \<Longrightarrow> bytesOf v = Some b \<Longrightarrow> as_list v = GList (map GInt (byte_words b))"
  by (erule int_list_cases) (auto simp: bytesOf_ints byte_words_to_byte split: if_splits)

lemma equal_list_ints: "equal_list (map GInt ms) (map GInt ns) = (ms = ns)"
proof (induction ms arbitrary: ns)
  case (Cons m ms)
  then show ?case by (cases ns) (simp_all add: equal_scalar_def)
qed (case_tac ns; simp)

lemma bytesEqualElems_ints: "bytesEqualElems b (map GInt ns) = (byte_words b = ns)"
proof (induction b arbitrary: ns)
  case (Cons c b)
  then show ?case by (cases ns) (auto simp: byte_words_def)
qed (case_tac ns; simp add: byte_words_def)

lemma byte_words_inj: "byte_words a = byte_words b \<longleftrightarrow> a = b"
proof
  assume "byte_words a = byte_words b"
  then have "map to_byte (byte_words a) = map to_byte (byte_words b)" by simp
  then show "a = b" by (simp add: byte_words_def comp_def)
qed simp

lemma equal_as_list: "int_list x \<Longrightarrow> int_list y \<Longrightarrow> equal x y = equal (as_list x) (as_list y)"
  by (elim int_list_cases)
    (auto simp: bytesEqualList_def bytesEqualElems_ints equal_list_ints byte_words_inj)

lemma listElems_as_list: "int_list v \<Longrightarrow> listElems v = listElems (as_list v)"
  by (erule int_list_cases) (simp_all add: listElems_def promoteBytes_words)

lemma as_list_GList: "int_list v \<Longrightarrow> \<exists>ns. as_list v = GList (map GInt ns)"
  by (erule int_list_cases) auto

lemma byte_words_append: "byte_words (a @ b) = byte_words a @ byte_words b"
  by (simp add: byte_words_def)

lemma plus_as_list:
  assumes "int_list x" "int_list y"
  shows "as_list (plus_vals x y) = plus_vals (as_list x) (as_list y)"
proof -
  obtain ms ns where mn: "as_list x = GList (map GInt ms)" "as_list y = GList (map GInt ns)"
    using assms as_list_GList by blast
  have r: "plus_vals (as_list x) (as_list y) = GList (map GInt ms @ map GInt ns)"
    by (simp add: mn plus_vals_def plus_list_def is_bytes_def listElems_def)
  have l: "plus_list x y = GList (map GInt ms @ map GInt ns)"
    using assms mn by (simp add: plus_list_def listElems_as_list) (simp add: listElems_def)
  show ?thesis
  proof (cases "bytesOf x = None \<or> bytesOf y = None \<or> \<not> (is_bytes x \<or> is_bytes y)")
    case True
    then have "plus_vals x y = plus_list x y" by (auto simp: plus_vals_def split: option.split)
    then show ?thesis by (simp add: l r)
  next
    case False
    then obtain a b where ab: "bytesOf x = Some a" "bytesOf y = Some b" by auto
    with False have "plus_vals x y = GBytes (a @ b)" by (simp add: plus_vals_def)
    moreover have "ms = byte_words a" "ns = byte_words b"
      using bytesOf_as_list ab assms mn by (fastforce simp: inj_map_eq_map inj_def)+
    ultimately show ?thesis by (simp add: r byte_words_append)
  qed
qed

lemma append_as_list: "int_list x \<Longrightarrow> as_list (appendCopy x (GInt n)) = appendCopy (as_list x) (GInt n)"
  by (erule int_list_cases)
    (auto simp: appendCopy_def isByteInt_def promoteBytes_words byte_words_append byte_words_def to_byte_word)

lemma mem_as_list: "int_list x \<Longrightarrow> mem_vals (GInt n) x = mem_vals (GInt n) (as_list x)"
proof (erule int_list_cases)
  fix b assume x: "x = GBytes b"
  have "(byte_in_range n \<and> to_byte n \<in> set b) = (n \<in> set (byte_words b))"
    by (auto simp: byte_words_def to_byte_word image_iff intro!: bexI [of _ "to_byte n"])
  then show ?thesis
    unfolding x by (auto simp: mem_vals_def listElems_def equal_scalar_def)
qed simp

lemma find_from_map: "find_from p (map f xs) i = find_from (\<lambda>x. p (f x)) xs i"
  by (induction xs arbitrary: i) simp_all

lemma find_from_None: "find_from (\<lambda>x. False) xs i = None"
  by (induction xs arbitrary: i) simp_all

lemma indexOf_as_list:
  "bytesIndexOf b (GInt n) f = listIndexOf (map GInt (byte_words b)) (GInt n) f"
proof -
  have "find_from (\<lambda>c. byte_in_range n \<and> to_byte n = c) xs i
      = find_from (\<lambda>c. equal (GInt (word_of_nat (byte c))) (GInt n)) xs i" for xs i
    by (induction xs arbitrary: i) (auto simp: equal_scalar_def to_byte_word)
  moreover have "byte_set (GInt n) = (if byte_in_range n then Some (\<lambda>c. c = to_byte n) else None)"
    by (simp add: byte_set_def)
  ultimately show ?thesis
    by (auto simp: bytesIndexOf_def listIndexOf_def Let_def byte_words_def drop_map find_from_map
        find_from_None index_result_def eq_commute)
qed

lemma slice_as_list:
  "map GInt (byte_words (take k (drop j b))) = take k (drop j (map GInt (byte_words b)))"
  by (simp add: byte_words_def take_map drop_map)

text \<open>The list builtins as the table reaches them.\<close>

lemmas builtin_tables = callBuiltin_def lib_builtin_def num_builtin_def buf_builtin_def text_builtin_def
  list_builtin_def

lemma call_append: "callBuiltin L ''append'' [v, w] = appendCopy v w"
  by (simp add: builtin_tables argAt_def Let_def)

lemma call_len_list: "callBuiltin L ''len'' [GList xs] = GInt (i64_of_nat (length xs))"
  "callBuiltin L ''len'' [GBytes b] = GInt (i64_of_nat (length b))"
  by (simp_all add: builtin_tables argAt_def Let_def)

lemma call_slice_list: "callBuiltin L ''slice'' [GList xs, GInt s, GInt e] = GList (listSlice xs s e)"
  "callBuiltin L ''slice'' [GBytes b, GInt s, GInt e] = GBytes (listSlice b s e)"
  by (simp_all add: builtin_tables argAt_def Let_def listSlice_def split: prod.split)

lemma call_indexOf_list: "callBuiltin L ''indexOf'' [GList xs, v, GInt f] = GInt (listIndexOf xs v f)"
  "callBuiltin L ''indexOf'' [GBytes b, v, GInt f] = GInt (bytesIndexOf b v f)"
  by (simp_all add: builtin_tables argAt_def Let_def)

lemma applyBin_simps:
  "applyBin ''+'' l r = plus_vals l r" "applyBin ''=='' l r = GBool (equal l r)"
  "applyBin ''!='' l r = GBool (\<not> equal l r)" "applyBin ''in'' l r = GBool (mem_vals l r)"
  "applyBin ''&&'' l r = GBool (truthy l \<and> truthy r)" "applyBin ''||'' l r = GBool (truthy l \<or> truthy r)"
  by (simp_all add: applyBin_def)


text \<open>A library for the examples: the clock at 0, no randomness, every call nothing.\<close>

definition std0 :: stdlib where
  "std0 = \<lparr>sl_now = 0, sl_rand = (\<lambda>n. 0), sl_draw = (\<lambda>s k. 0), sl_upper = (\<lambda>r. r), sl_lower = (\<lambda>r. r),
     sl_exp = (\<lambda>x. x), sl_ln = (\<lambda>x. x), sl_sin = (\<lambda>x. x), sl_cos = (\<lambda>x. x), sl_call = (\<lambda>n a. GNil)\<rparr>"


text \<open>\<open>take\<close> is the exception: it has no byte-buffer case, so a buffer is printed first.\<close>

theorem take_prints_bytes:
  "callBuiltin L ''take'' [GBytes ''AB'', GInt 1] = GStr ''6''"
  "callBuiltin L ''take'' [GList (promoteBytes ''AB''), GInt 1] = GList [GInt 65]"
proof -
  have "toStr (GBytes ''AB'') = ''65,66''"
    by (simp add: itoa_show_int show_int_def show_nat.simps digit_char_def char_of_def bit_0)
  then show "callBuiltin L ''take'' [GBytes ''AB'', GInt 1] = GStr ''6''"
    by (simp add: builtin_tables argAt_def Let_def lt64_def runeSlice_def listBounds_def clamp_def
        textIndex_def scanASCII_def runes_ascii is_ascii_def)
  show "callBuiltin L ''take'' [GList (promoteBytes ''AB''), GInt 1] = GList [GInt 65]"
    by (simp add: builtin_tables argAt_def Let_def lt64_def promoteBytes_def listSlice_def listBounds_def
        clamp_def)
qed

end
