(* ===== verification/Reduce.thy ===== *)
theory Reduce
  imports Dispatch
begin

text \<open>
  Ordering and reducing rows (runtime/eval.go, runtime/server.go): \<open>lessVal\<close>, \<open>sortRows\<close>,
  the fold behind \<open>sum\<close>, \<open>avg\<close>, \<open>min\<close> and \<open>max\<close>, and the optional-field rules of a
  wire literal. The lemmas give the fold's meaning over int columns and its independence
  of the order the rows come in.
\<close>

subsection \<open>Ordering\<close>

definition numeric :: "gval \<Rightarrow> bool" where
  "numeric v = (case v of GInt _ \<Rightarrow> True | GInt64 _ \<Rightarrow> True | GFloat _ \<Rightarrow> True | _ \<Rightarrow> False)"

definition lessVal :: "gval \<Rightarrow> gval \<Rightarrow> bool" where
  "lessVal a b =
     (if numeric a \<and> numeric b then
        (if is_float_val a \<or> is_float_val b then f64_lt (toFloat a) (toFloat b)
         else lt64 (toInt a) (toInt b))
      else str_lt (toStr a) (toStr b))"

text \<open>A column of a row; every row an order names a column of is a record.\<close>

definition row_field :: "gval \<Rightarrow> string \<Rightarrow> gval" where
  "row_field r f = (case r of GRec m \<Rightarrow> field m f | _ \<Rightarrow> GNil)"

definition is_record :: "gval \<Rightarrow> bool" where
  "is_record r = (case r of GRec _ \<Rightarrow> True | _ \<Rightarrow> False)"

definition directed :: "bool \<Rightarrow> (gval \<Rightarrow> gval \<Rightarrow> bool) \<Rightarrow> gval \<Rightarrow> gval \<Rightarrow> bool" where
  "directed desc lt a b = (if desc then lt b a else lt a b)"

definition sortRows :: "gval list \<Rightarrow> string \<Rightarrow> bool \<Rightarrow> gval list" where
  "sortRows rows order desc =
     (if order = [] then rows
      else stable_sort (\<lambda>x y. directed desc lessVal (row_field x order) (row_field y order)) rows)"

subsection \<open>Reductions\<close>

record agg_state =
  ag_total :: i64
  ag_n :: nat
  ag_lo :: i64
  ag_hi :: i64
  ag_ftotal :: f64
  ag_flo :: f64
  ag_fhi :: f64
  ag_float :: bool

definition agg_start :: agg_state where
  "agg_start = \<lparr>ag_total = 0, ag_n = 0, ag_lo = 0, ag_hi = 0, ag_ftotal = f64_zero, ag_flo = f64_zero,
     ag_fhi = f64_zero, ag_float = False\<rparr>"

text \<open>The first float value turns the fold so far into floats.\<close>

definition agg_promote :: "gval \<Rightarrow> agg_state \<Rightarrow> agg_state" where
  "agg_promote v s =
     (if \<not> ag_float s \<and> is_float_val v then
        s\<lparr>ag_float := True, ag_ftotal := f64_of_int (sint (ag_total s)),
          ag_flo := f64_of_int (sint (ag_lo s)), ag_fhi := f64_of_int (sint (ag_hi s))\<rparr>
      else s)"

definition agg_float_step :: "f64 \<Rightarrow> agg_state \<Rightarrow> agg_state" where
  "agg_float_step f s =
     s\<lparr>ag_flo := (if ag_n s = 0 then f else if f64_lt f (ag_flo s) then f else ag_flo s),
       ag_fhi := (if ag_n s = 0 then f else if f64_lt (ag_fhi s) f then f else ag_fhi s),
       ag_ftotal := f64_add (ag_ftotal s) f, ag_n := Suc (ag_n s)\<rparr>"

definition agg_int_step :: "i64 \<Rightarrow> agg_state \<Rightarrow> agg_state" where
  "agg_int_step i s =
     s\<lparr>ag_lo := (if ag_n s = 0 then i else if lt64 i (ag_lo s) then i else ag_lo s),
       ag_hi := (if ag_n s = 0 then i else if lt64 (ag_hi s) i then i else ag_hi s),
       ag_total := ag_total s + i, ag_n := Suc (ag_n s)\<rparr>"

fun agg_loop :: "gval option list \<Rightarrow> agg_state \<Rightarrow> agg_state" where
  "agg_loop [] s = s"
| "agg_loop (None # vs) s = agg_loop vs s"
| "agg_loop (Some v # vs) s =
     (let s' = agg_promote v s in
      agg_loop vs (if ag_float s' then agg_float_step (toFloat v) s' else agg_int_step (toInt v) s'))"

definition agg_result :: "string \<Rightarrow> agg_state \<Rightarrow> gval" where
  "agg_result op s =
     (if ag_float s then
        GFloat (if op = ''avg'' then
                  (if ag_n s = 0 then f64_zero else f64_div (ag_ftotal s) (f64_of_int (int (ag_n s))))
                else if op = ''min'' then ag_flo s else if op = ''max'' then ag_fhi s else ag_ftotal s)
      else
        GInt (if op = ''avg'' then (if ag_n s = 0 then 0 else div64 (ag_total s) (i64_of_nat (ag_n s)))
              else if op = ''min'' then ag_lo s else if op = ''max'' then ag_hi s else ag_total s))"

definition reduceAgg :: "string \<Rightarrow> gval list \<Rightarrow> (gval \<Rightarrow> gval option) \<Rightarrow> gval" where
  "reduceAgg op rows val = agg_result op (agg_loop (map val rows) agg_start)"

definition fieldValue :: "string \<Rightarrow> gval \<Rightarrow> gval option" where
  "fieldValue f r = (case r of GRec m \<Rightarrow> Some (numValue (field m f)) | _ \<Rightarrow> None)"

fun text_loop :: "string \<Rightarrow> gval option list \<Rightarrow> string option \<Rightarrow> string option" where
  "text_loop op [] best = best"
| "text_loop op (None # vs) best = text_loop op vs best"
| "text_loop op (Some v # vs) best =
     (let t = toStr v in
      text_loop op vs (case best of
        None \<Rightarrow> Some t
      | Some b \<Rightarrow> if (op = ''min'' \<and> str_lt t b) \<or> (op = ''max'' \<and> str_lt b t) then Some t else Some b))"

definition reduceText :: "string \<Rightarrow> gval list \<Rightarrow> (gval \<Rightarrow> gval option) \<Rightarrow> gval" where
  "reduceText op rows val = GStr (case text_loop op (map val rows) None of None \<Rightarrow> [] | Some b \<Rightarrow> b)"

subsection \<open>Optional and nullable fields of a wire literal\<close>

definition is_empty_value :: "gval \<Rightarrow> bool" where
  "is_empty_value v = (case v of GNil \<Rightarrow> True | GStr s \<Rightarrow> s = [] | GList l \<Rightarrow> l = [] | GRec m \<Rightarrow> m = [] | _ \<Rightarrow> False)"

definition omitEmpty :: "(string \<times> gval) list \<Rightarrow> string list \<Rightarrow> (string \<times> gval) list" where
  "omitEmpty rec optional = fold (\<lambda>f r. if is_empty_value (field r f) then aldel r f else r) optional rec"

definition nullEmpty :: "(string \<times> gval) list \<Rightarrow> string list \<Rightarrow> (string \<times> gval) list" where
  "nullEmpty rec nullable =
     fold (\<lambda>f r. if field r f = GNil \<or> field r f = GStr [] then alput r f GNil else r) nullable rec"

subsection \<open>Int columns\<close>

lemma agg_loop_ints:
  "\<not> ag_float s \<Longrightarrow> agg_loop (map (\<lambda>i. Some (GInt i)) is) s = fold agg_int_step is s"
proof (induction "is" arbitrary: s)
  case (Cons i "is")
  then show ?case by (simp add: agg_promote_def is_float_val_def agg_int_step_def)
qed simp

lemma fold_int_total: "ag_total (fold agg_int_step is s) = ag_total s + sum_list is"
  by (induction "is" arbitrary: s) (simp_all add: agg_int_step_def)

lemma fold_int_n: "ag_n (fold agg_int_step is s) = ag_n s + length is"
  by (induction "is" arbitrary: s) (simp_all add: agg_int_step_def)

lemma fold_int_float: "ag_float (fold agg_int_step is s) = ag_float s"
  by (induction "is" arbitrary: s) (simp_all add: agg_int_step_def)

lemma fold_int_lo:
  "ag_n s \<noteq> 0 \<Longrightarrow> sint (ag_lo (fold agg_int_step is s)) = Min (insert (sint (ag_lo s)) (sint ` set is))"
proof (induction "is" arbitrary: s)
  case (Cons i "is")
  let ?s = "agg_int_step i s"
  have "sint (ag_lo ?s) = min (sint (ag_lo s)) (sint i)"
    using Cons.prems by (auto simp: agg_int_step_def lt64_def)
  moreover have "sint (ag_lo (fold agg_int_step is ?s)) = Min (insert (sint (ag_lo ?s)) (sint ` set is))"
    by (rule Cons.IH) (simp add: agg_int_step_def)
  ultimately show ?case
    by (cases "is = []") (simp_all add: min.assoc insert_commute)
qed simp

lemma fold_int_hi:
  "ag_n s \<noteq> 0 \<Longrightarrow> sint (ag_hi (fold agg_int_step is s)) = Max (insert (sint (ag_hi s)) (sint ` set is))"
proof (induction "is" arbitrary: s)
  case (Cons i "is")
  let ?s = "agg_int_step i s"
  have "sint (ag_hi ?s) = max (sint (ag_hi s)) (sint i)"
    using Cons.prems by (auto simp: agg_int_step_def lt64_def)
  moreover have "sint (ag_hi (fold agg_int_step is ?s)) = Max (insert (sint (ag_hi ?s)) (sint ` set is))"
    by (rule Cons.IH) (simp add: agg_int_step_def)
  ultimately show ?case
    by (cases "is = []") (simp_all add: max.assoc insert_commute)
qed simp

text \<open>The meaning of the four reductions on a list of ints.\<close>

definition reduce_spec :: "string \<Rightarrow> i64 list \<Rightarrow> i64" where
  "reduce_spec op is =
     (if is = [] then 0
      else if op = ''avg'' then div64 (sum_list is) (i64_of_nat (length is))
      else if op = ''min'' then word_of_int (Min (sint ` set is))
      else if op = ''max'' then word_of_int (Max (sint ` set is))
      else sum_list is)"

lemma agg_fold_spec: "agg_result op (fold agg_int_step is agg_start) = GInt (reduce_spec op is)"
proof (cases "is")
  case Nil
  then show ?thesis by (simp add: agg_result_def agg_start_def reduce_spec_def)
next
  case (Cons i js)
  let ?s = "agg_int_step i agg_start"
  have n: "ag_n ?s \<noteq> 0" and f: "\<not> ag_float (fold agg_int_step is agg_start)"
    by (simp_all add: agg_int_step_def agg_start_def fold_int_float)
  have s: "ag_lo ?s = i" "ag_hi ?s = i" "ag_total ?s = i" "ag_n ?s = 1"
    by (simp_all add: agg_int_step_def agg_start_def)
  have "ag_lo (fold agg_int_step is agg_start) = word_of_int (Min (sint ` set is))"
    "ag_hi (fold agg_int_step is agg_start) = word_of_int (Max (sint ` set is))"
    using fold_int_lo [OF n, of js] fold_int_hi [OF n, of js] s Cons
    by (metis fold_simps(2) image_insert list.simps(15) word_of_int_sint)+
  moreover have "ag_total (fold agg_int_step is agg_start) = sum_list is"
    "ag_n (fold agg_int_step is agg_start) = length is"
    by (simp_all add: fold_int_total fold_int_n agg_start_def)
  ultimately show ?thesis using f Cons by (simp add: agg_result_def reduce_spec_def)
qed

lemma reduceAgg_int_spec:
  assumes "\<forall>r \<in> set rows. \<forall>m. r = GRec m \<longrightarrow> (\<exists>i. field m f = GInt i)"
  shows "reduceAgg op rows (fieldValue f) =
    GInt (reduce_spec op (map (\<lambda>r. toInt (row_field r f)) (filter is_record rows)))"
proof -
  have skip: "agg_loop (map (fieldValue f) rows) s
      = agg_loop (map (\<lambda>r. Some (GInt (toInt (row_field r f)))) (filter is_record rows)) s" for s
    using assms
  proof (induction rows arbitrary: s)
    case (Cons r rows)
    show ?case
    proof (cases r)
      case (GRec m)
      then obtain i where "field m f = GInt i" using Cons.prems by auto
      then show ?thesis using Cons GRec
        by (simp add: fieldValue_def is_record_def row_field_def numValue_def is_float_val_def)
    qed (use Cons in \<open>simp_all add: fieldValue_def is_record_def\<close>)
  qed simp
  have "map (\<lambda>r. Some (GInt (toInt (row_field r f)))) rs
      = map (\<lambda>i. Some (GInt i)) (map (\<lambda>r. toInt (row_field r f)) rs)" for rs by simp
  then show ?thesis
    unfolding reduceAgg_def skip
    using agg_loop_ints [of agg_start] agg_fold_spec [of op]
    by (simp only: agg_start_def agg_state.simps simp_thms)
qed

text \<open>
  C28: over rows whose column holds ints, \<open>sum\<close>, \<open>avg\<close>, \<open>min\<close> and \<open>max\<close> are the wrapped sum,
  the truncated mean over the matched rows, the least and the greatest value, and all four
  are 0 over no rows; rows that are not records count for nothing.
\<close>

theorem reduceAgg_ints:
  assumes "\<forall>r \<in> set rows. \<forall>m. r = GRec m \<longrightarrow> (\<exists>i. field m f = GInt i)"
  shows "reduceAgg op rows (fieldValue f) =
    GInt (reduce_spec op (map (\<lambda>r. toInt (row_field r f)) (filter is_record rows)))"
  using assms by (rule reduceAgg_int_spec)

theorem reduceAgg_ints_witness:
  "reduceAgg ''sum'' [GRec [(''a'', GInt 2)], GNil, GRec [(''a'', GInt 5)]] (fieldValue ''a'') =
    GInt (reduce_spec ''sum'' (map (\<lambda>r. toInt (row_field r ''a''))
      (filter is_record [GRec [(''a'', GInt 2)], GNil, GRec [(''a'', GInt 5)]])))"
  by (rule reduceAgg_ints) (simp add: field_def)

lemma sum_list_mset_eq: "mset xs = mset ys \<Longrightarrow> sum_list xs = sum_list (ys :: i64 list)"
  by (metis sum_mset_sum_list)

lemma reduce_spec_mset: "mset xs = mset ys \<Longrightarrow> reduce_spec op xs = reduce_spec op ys"
proof -
  assume m: "mset xs = mset ys"
  then have "set xs = set ys" "length xs = length ys" "sum_list xs = sum_list ys"
    by (metis set_mset_mset, metis size_mset, rule sum_list_mset_eq)
  then show ?thesis by (cases "xs = []") (auto simp: reduce_spec_def)
qed

text \<open>
  C29: and they do not depend on the order the rows come in: the mirror's fold and a store
  that reduces in its own order answer alike on an int column.
\<close>

theorem reduceAgg_order:
  assumes "mset rows = mset rows'" "\<forall>r \<in> set rows. \<forall>m. r = GRec m \<longrightarrow> (\<exists>i. field m f = GInt i)"
  shows "reduceAgg op rows (fieldValue f) = reduceAgg op rows' (fieldValue f)"
proof -
  let ?vs = "\<lambda>rows. map (\<lambda>r. toInt (row_field r f)) (filter is_record rows)"
  have "set rows = set rows'" using assms(1) by (metis set_mset_mset)
  then have r: "\<forall>r \<in> set rows'. \<forall>m. r = GRec m \<longrightarrow> (\<exists>i. field m f = GInt i)" using assms(2) by simp
  have "mset (?vs rows) = mset (?vs rows')" using assms(1) by simp
  then have "reduce_spec op (?vs rows) = reduce_spec op (?vs rows')" by (rule reduce_spec_mset)
  then show ?thesis using reduceAgg_int_spec [OF assms(2)] reduceAgg_int_spec [OF r] by simp
qed

theorem reduceAgg_order_witness:
  "reduceAgg ''max'' [GRec [(''a'', GInt 2)], GRec [(''a'', GInt 5)]] (fieldValue ''a'') =
   reduceAgg ''max'' [GRec [(''a'', GInt 5)], GRec [(''a'', GInt 2)]] (fieldValue ''a'')"
  by (rule reduceAgg_order) (auto simp: field_def)

end
