(* ===== verification/Expr.thy ===== *)
theory Expr
  imports Reduce
begin

text \<open>
  The compiled expressions (internal/ir/ir.go, \<open>Expr\<close>) and the syntactic questions the
  runtime asks of them (runtime/rowindex.go): which conjunct of a predicate pins a field,
  and whether its other side may be evaluated once.

  The Go struct carries every field of every kind; here each kind is a constructor with
  the fields that kind uses. A pointer the builder may leave nil is an option.
\<close>

datatype 'e agg =
  Agg (ag_op: string) (ag_name: string) (ag_field: string) (ag_vtype: string) (ag_var: string)
      (ag_where: "'e option") (ag_sel: "'e option") (ag_order: string) (ag_desc: bool)
      (ag_limit: "'e option") (ag_order_by: "'e option")

datatype expr =
    ILit gval string
  | IList "expr list"
  | IRef string
  | IGet expr string
  | IEGet string expr string
  | IAgg "expr agg"
  | IIndex expr expr
  | IMap "expr list" "expr list"
  | IStruct string "string list" "expr list" "string list" "string list"
  | IAState string string
  | ICall string "expr list"
  | IUn string expr
  | IBin string expr expr

definition litValue :: "gval \<Rightarrow> string \<Rightarrow> gval" where
  "litValue v t =
     (if t = ''int'' then GInt (toInt v)
      else if t = ''float'' then GFloat (case v of GFloat f \<Rightarrow> f | _ \<Rightarrow> f64_zero)
      else if t = ''bool'' then GBool (case v of GBool b \<Rightarrow> b | _ \<Rightarrow> False)
      else GStr (toStr v))"

text \<open>
  The sub-expressions in the one order both renderers walk them; the computed sort key is
  deliberately not one of them.
\<close>

fun kids :: "expr \<Rightarrow> expr list" where
  "kids (IGet ob f) = [ob]"
| "kids (IEGet n k f) = [k]"
| "kids (IAgg a) = List.map_filter (\<lambda>x. x) [ag_where a, ag_sel a, ag_limit a]"
| "kids (IIndex ob k) = [ob, k]"
| "kids (IMap ks vs) = ks @ vs"
| "kids (IStruct n fs vs om nu) = vs"
| "kids (IList es) = es"
| "kids (ICall n es) = es"
| "kids (IUn op x) = [x]"
| "kids (IBin op l r) = [l, r]"
| "kids _ = []"

lemma size_agg_opt [termination_simp]:
  "ag_where a = Some e \<Longrightarrow> size e < Suc (size_agg size a)"
  "ag_sel a = Some e \<Longrightarrow> size e < Suc (size_agg size a)"
  "ag_limit a = Some e \<Longrightarrow> size e < Suc (size_agg size a)"
  "ag_order_by a = Some e \<Longrightarrow> size e < Suc (size_agg size a)"
  by (cases a; simp)+

text \<open>\<open>v.f\<close>, a stored field of the item itself.\<close>

definition itemField :: "expr \<Rightarrow> string \<Rightarrow> string option" where
  "itemField e v = (case e of
     IGet (IRef n) f \<Rightarrow> if f \<noteq> [] \<and> n = v then Some f else None
   | _ \<Rightarrow> None)"

definition probe_calls :: "string set" where
  "probe_calls = {''toInt'', ''toStr'', ''lower'', ''upper'', ''trim''}"

fun probeExpr :: "string \<Rightarrow> expr \<Rightarrow> bool" where
  "probeExpr v (ILit x t) = True"
| "probeExpr v (IRef n) = (n \<noteq> v)"
| "probeExpr v (IGet ob f) = probeExpr v ob"
| "probeExpr v (IUn op x) = probeExpr v x"
| "probeExpr v (IBin op l r) = (probeExpr v l \<and> probeExpr v r)"
| "probeExpr v (IEGet n k f) = probeExpr v k"
| "probeExpr v (IList es) = list_all (probeExpr v) es"
| "probeExpr v (ICall n es) = (n \<in> probe_calls \<and> list_all (probeExpr v) es)"
| "probeExpr v _ = False"

text \<open>A pinned conjunct: its field, the other side, and whether it is an \<open>in\<close>.\<close>

definition pinned_eq :: "expr \<Rightarrow> expr \<Rightarrow> string \<Rightarrow> (string \<times> expr \<times> bool) option" where
  "pinned_eq l r v =
     (case itemField l v of
        Some f \<Rightarrow> if probeExpr v r then Some (f, r, False) else
          (case itemField r v of Some g \<Rightarrow> if probeExpr v l then Some (g, l, False) else None | None \<Rightarrow> None)
      | None \<Rightarrow>
          (case itemField r v of Some g \<Rightarrow> if probeExpr v l then Some (g, l, False) else None | None \<Rightarrow> None))"

definition pinned_in :: "expr \<Rightarrow> expr \<Rightarrow> string \<Rightarrow> (string \<times> expr \<times> bool) option" where
  "pinned_in l r v =
     (case itemField l v of Some f \<Rightarrow> if probeExpr v r then Some (f, r, True) else None | None \<Rightarrow> None)"

fun pinnedEquality :: "expr \<Rightarrow> string \<Rightarrow> (string \<times> expr \<times> bool) option" where
  "pinnedEquality (IBin op l r) v =
     (if v = [] then None
      else if op = ''&&'' then
        (case pinnedEquality l v of Some p \<Rightarrow> Some p | None \<Rightarrow> pinnedEquality r v)
      else if op = ''=='' then pinned_eq l r v
      else if op = ''in'' then pinned_in l r v
      else None)"
| "pinnedEquality _ v = None"

lemma itemField_Some: "itemField e v = Some f \<Longrightarrow> e = IGet (IRef v) f"
  by (auto simp: itemField_def split: expr.splits if_splits)

lemma pinned_size [termination_simp]: "pinnedEquality w v = Some (f, pe, b) \<Longrightarrow> size pe < size w"
proof (induction w v rule: pinnedEquality.induct)
  case (1 op l r v)
  then show ?case
    by (fastforce simp: pinned_eq_def pinned_in_def split: if_splits option.splits)
qed simp_all

lemma pinned_agg_size [termination_simp]:
  "pinnedEquality w v = Some (f, pe, b) \<Longrightarrow> ag_where a = Some w \<Longrightarrow> size pe < Suc (size_agg size a)"
  using pinned_size size_agg_opt(1) by (meson less_trans)

lemma pinned_probe: "pinnedEquality w v = Some (f, pe, b) \<Longrightarrow> probeExpr v pe"
proof (induction w v rule: pinnedEquality.induct)
  case (1 op l r v)
  then show ?case
    by (auto simp: pinned_eq_def pinned_in_def split: if_splits option.splits)
qed simp_all

end
