(* ===== verification/RowIndex.thy ===== *)
theory RowIndex
  imports Expr
begin

text \<open>
  The per-scope row indexes (runtime/rowindex.go): one entity's rows by one field, in an
  integer and a text view, each a candidate generator for the rows an equality can hold
  of. The interface a reader relies on is the locale \<open>row_filter\<close>: the candidates are a
  filter of the rows, in row order.
\<close>

definition intLike :: "gval \<Rightarrow> i64 option" where
  "intLike v = (case v of
     GNil \<Rightarrow> Some 0
   | GInt t \<Rightarrow> Some t
   | GInt64 t \<Rightarrow> Some t
   | GInt32 t \<Rightarrow> Some (word_of_int (sint t))
   | _ \<Rightarrow> None)"

text \<open>What the two views key a value by; \<open>None\<close> is a loose row, always a candidate.\<close>

definition textKey :: "gval \<Rightarrow> string option" where
  "textKey v = (case v of GBytes _ \<Rightarrow> None | GList _ \<Rightarrow> None | _ \<Rightarrow> Some (toStr v))"

type_synonym 'k view = "('k \<times> nat list) list \<times> nat list"

definition posns :: "('k \<times> nat list) list \<Rightarrow> 'k \<Rightarrow> nat list" where
  "posns m k = (case alget m k of None \<Rightarrow> [] | Some ps \<Rightarrow> ps)"

text \<open>
  The build loop of both views (\<open>buildInts\<close>, \<open>buildTexts\<close>): nothing when a row is not a
  record.
\<close>

fun build_view :: "(gval \<Rightarrow> 'k option) \<Rightarrow> string \<Rightarrow> gval list \<Rightarrow> nat \<Rightarrow> 'k view \<Rightarrow> 'k view option" where
  "build_view key f [] i vw = Some vw"
| "build_view key f (r # rs) i (m, loose) =
     (case r of
        GRec rec \<Rightarrow>
          (case key (field rec f) of
             Some k \<Rightarrow> build_view key f rs (Suc i) (alput m k (posns m k @ [i]), loose)
           | None \<Rightarrow> build_view key f rs (Suc i) (m, loose @ [i]))
      | _ \<Rightarrow> None)"

definition buildInts :: "string \<Rightarrow> gval list \<Rightarrow> i64 view option" where
  "buildInts f rows = build_view intLike f rows 0 ([], [])"

definition buildTexts :: "string \<Rightarrow> gval list \<Rightarrow> string view option" where
  "buildTexts f rows = build_view textKey f rows 0 ([], [])"

text \<open>Merge two ascending position lists into the rows they name.\<close>

fun merge_pos :: "nat list \<Rightarrow> nat list \<Rightarrow> nat list" where
  "merge_pos [] bs = bs"
| "merge_pos as [] = as"
| "merge_pos (a # as) (b # bs) = (if a < b then a # merge_pos as (b # bs) else b # merge_pos (a # as) bs)"

definition pick :: "gval list \<Rightarrow> nat list \<Rightarrow> nat list \<Rightarrow> gval list" where
  "pick rows a b = map (\<lambda>p. rows ! p) (merge_pos a b)"

definition index_min :: nat where
  "index_min = 64"

definition indexedRows :: "string \<Rightarrow> gval list \<Rightarrow> gval \<Rightarrow> gval list option" where
  "indexedRows f rows probe =
     (if length rows < index_min then None
      else case intLike probe of
        Some k \<Rightarrow> map_option (\<lambda>(m, loose). pick rows (posns m k) loose) (buildInts f rows)
      | None \<Rightarrow>
          (case probe of
             GStr s \<Rightarrow> map_option (\<lambda>(m, loose). pick rows (posns m s) loose) (buildTexts f rows)
           | _ \<Rightarrow> None))"

text \<open>\<open>indexedRowsIn\<close>: the positions any one value pins, once each, then sorted.\<close>

definition add_pos :: "nat list \<Rightarrow> nat list \<Rightarrow> nat list" where
  "add_pos ps acc = fold (\<lambda>p acc. if p \<in> set acc then acc else acc @ [p]) ps acc"

fun in_positions :: "string \<Rightarrow> gval list \<Rightarrow> gval list \<Rightarrow> nat list \<Rightarrow> nat list option" where
  "in_positions f rows [] pos = Some pos"
| "in_positions f rows (v # vs) pos =
     (case intLike v of
        Some k \<Rightarrow>
          (case buildInts f rows of
             None \<Rightarrow> None
           | Some (m, loose) \<Rightarrow> in_positions f rows vs (add_pos loose (add_pos (posns m k) pos)))
      | None \<Rightarrow>
          (case v of
             GStr t \<Rightarrow>
               (case buildTexts f rows of
                  None \<Rightarrow> None
                | Some (m, loose) \<Rightarrow> in_positions f rows vs (add_pos loose (add_pos (posns m t) pos)))
           | _ \<Rightarrow> None))"

definition indexedRowsIn :: "string \<Rightarrow> gval list \<Rightarrow> gval \<Rightarrow> gval list option" where
  "indexedRowsIn f rows vals =
     (case vals of
        GList l \<Rightarrow>
          if length rows < index_min then None
          else map_option (\<lambda>pos. pick rows (sort pos) []) (in_positions f rows l [])
      | _ \<Rightarrow> None)"

subsection \<open>Candidates are a filter of the rows\<close>

locale row_filter =
  fixes cand :: "gval \<Rightarrow> bool" and answer :: "gval list \<Rightarrow> gval list option"
  assumes answer_filter: "answer rows = Some cs \<Longrightarrow> cs = filter cand rows"
begin

text \<open>A predicate only candidates satisfy is answered by the candidates alone.\<close>

lemma filter_candidates:
  "answer rows = Some cs \<Longrightarrow> (\<And>r. r \<in> set rows \<Longrightarrow> P r \<Longrightarrow> cand r) \<Longrightarrow> filter P cs = filter P rows"
  using answer_filter [of rows cs] by (auto intro!: filter_cong)

end

definition keyed :: "(gval \<Rightarrow> 'k option) \<Rightarrow> string \<Rightarrow> 'k \<Rightarrow> gval \<Rightarrow> bool" where
  "keyed key f k r \<longleftrightarrow> key (row_field r f) = Some k"

definition loosely :: "(gval \<Rightarrow> 'k option) \<Rightarrow> string \<Rightarrow> gval \<Rightarrow> bool" where
  "loosely key f r \<longleftrightarrow> key (row_field r f) = None"

definition where_pos :: "(gval \<Rightarrow> bool) \<Rightarrow> gval list \<Rightarrow> nat \<Rightarrow> nat list" where
  "where_pos P rows i = map (\<lambda>j. i + j) (filter (\<lambda>j. P (rows ! j)) [0..<length rows])"

lemma where_pos_Nil [simp]: "where_pos P [] i = []"
  by (simp add: where_pos_def)

lemma where_pos_Cons: "where_pos P (r # rs) i = (if P r then i # where_pos P rs (Suc i) else where_pos P rs (Suc i))"
proof -
  have "[0..<length (r # rs)] = 0 # map Suc [0..<length rs]"
    by (simp add: upt_conv_Cons map_Suc_upt del: upt_Suc)
  then show ?thesis by (simp add: where_pos_def filter_map comp_def)
qed

lemma posns_alput [simp]: "posns (alput m k ps) j = (if j = k then ps else posns m j)"
  by (simp add: posns_def)

lemma build_view_spec:
  "build_view key f rows i (m, loose) = Some (m', loose') \<Longrightarrow>
     loose' = loose @ where_pos (loosely key f) rows i
     \<and> (\<forall>k. posns m' k = posns m k @ where_pos (keyed key f k) rows i)"
proof (induction rows arbitrary: i m loose)
  case (Cons r rs)
  then obtain rec where r: "r = GRec rec" by (cases r) simp_all
  show ?case
  proof (cases "key (field rec f)")
    case None
    then have "build_view key f rs (Suc i) (m, loose @ [i]) = Some (m', loose')"
      using Cons.prems r by simp
    from Cons.IH [OF this] None show ?thesis
      by (simp add: where_pos_Cons loosely_def keyed_def r row_field_def)
  next
    case (Some k)
    then have "build_view key f rs (Suc i) (alput m k (posns m k @ [i]), loose) = Some (m', loose')"
      using Cons.prems r by simp
    from Cons.IH [OF this] Some show ?thesis
      by (auto simp: where_pos_Cons loosely_def keyed_def r row_field_def)
  qed
qed simp

lemma merge_where:
  "(\<And>r. r \<in> set rows \<Longrightarrow> \<not> (P r \<and> Q r)) \<Longrightarrow>
   merge_pos (where_pos P rows i) (where_pos Q rows i) = where_pos (\<lambda>r. P r \<or> Q r) rows i"
proof (induction rows arbitrary: i)
  case (Cons r rs)
  have lb: "\<forall>p \<in> set (where_pos R rs (Suc i)). i < p" for R by (auto simp: where_pos_def)
  have l: "merge_pos (i # as) bs = i # merge_pos as bs" if "\<forall>p \<in> set bs. i < p" for as bs
    using that by (cases bs; cases as) auto
  have rr: "merge_pos as (i # bs) = i # merge_pos as bs" if "\<forall>p \<in> set as. i < p" for as bs
    using that by (cases as) auto
  have IH: "merge_pos (where_pos P rs (Suc i)) (where_pos Q rs (Suc i)) = where_pos (\<lambda>r. P r \<or> Q r) rs (Suc i)"
    using Cons by simp
  show ?case
    using Cons.prems [of r] lb [of P] lb [of Q] IH
    by (cases "P r"; cases "Q r") (simp_all add: where_pos_Cons l rr)
qed simp

lemma rows_at_where: "map (\<lambda>p. (pre @ rows) ! p) (where_pos P rows (length pre)) = filter P rows"
proof (induction rows arbitrary: pre)
  case (Cons r rs)
  have "map (\<lambda>p. ((pre @ [r]) @ rs) ! p) (where_pos P rs (length (pre @ [r]))) = filter P rs"
    by (rule Cons.IH)
  then show ?case by (simp add: where_pos_Cons)
qed simp

lemma pick_view:
  assumes "build_view key f rows 0 ([], []) = Some (m, loose)"
  shows "pick rows (posns m k) loose = filter (\<lambda>r. keyed key f k r \<or> loosely key f r) rows"
proof -
  have "loose = where_pos (loosely key f) rows 0" "posns m k = where_pos (keyed key f k) rows 0"
    using build_view_spec [OF assms] by (simp_all add: posns_def)
  then have "pick rows (posns m k) loose
      = map (\<lambda>p. rows ! p) (where_pos (\<lambda>r. keyed key f k r \<or> loosely key f r) rows 0)"
    by (simp add: pick_def merge_where keyed_def loosely_def)
  then show ?thesis using rows_at_where [of "[]" rows] by simp
qed

text \<open>Rows an \<open>==\<close> on a field can hold of, as the index sees them.\<close>

definition eq_cand :: "string \<Rightarrow> gval \<Rightarrow> gval \<Rightarrow> bool" where
  "eq_cand f probe r =
     (case intLike probe of
        Some k \<Rightarrow> keyed intLike f k r \<or> loosely intLike f r
      | None \<Rightarrow> (case probe of GStr s \<Rightarrow> keyed textKey f s r \<or> loosely textKey f r | _ \<Rightarrow> True))"

interpretation eq_index: row_filter "eq_cand f probe" "\<lambda>rows. indexedRows f rows probe" for f probe
proof
  fix rows cs assume "indexedRows f rows probe = Some cs"
  moreover have "eq_cand f probe = (\<lambda>r. keyed intLike f k r \<or> loosely intLike f r)"
    if "intLike probe = Some k" for k
    using that by (simp add: eq_cand_def fun_eq_iff)
  moreover have "eq_cand f (GStr t) = (\<lambda>r. keyed textKey f t r \<or> loosely textKey f r)" for t
    by (simp add: eq_cand_def intLike_def fun_eq_iff)
  ultimately show "cs = filter (eq_cand f probe) rows"
    by (auto simp: indexedRows_def buildInts_def buildTexts_def pick_view
        split: if_splits option.splits gval.splits)
qed

lemma set_add_pos [simp]: "set (add_pos ps acc) = set acc \<union> set ps"
  unfolding add_pos_def by (induction ps arbitrary: acc) auto

lemma distinct_add_pos: "distinct acc \<Longrightarrow> distinct (add_pos ps acc)"
  unfolding add_pos_def by (induction ps arbitrary: acc) auto

lemma set_where_pos: "set (where_pos P rows 0) = {j. j < length rows \<and> P (rows ! j)}"
  by (auto simp: where_pos_def)

lemma view_sets:
  assumes "build_view key f rows 0 ([], []) = Some (m, loose)"
  shows "set (posns m k) \<union> set loose = {j. j < length rows \<and> (keyed key f k (rows ! j) \<or> loosely key f (rows ! j))}"
  using build_view_spec [OF assms] by (auto simp: posns_def set_where_pos)

lemma in_positions_spec:
  "in_positions f rows vs pos = Some out \<Longrightarrow> distinct pos \<Longrightarrow>
     distinct out \<and> set out = set pos \<union> {j. j < length rows \<and> (\<exists>v \<in> set vs. eq_cand f v (rows ! j))}"
proof (induction vs arbitrary: pos)
  case (Cons v vs)
  have step: "\<exists>loose ps. in_positions f rows vs (add_pos loose (add_pos ps pos)) = Some out
      \<and> set ps \<union> set loose = {j. j < length rows \<and> eq_cand f v (rows ! j)}"
  proof (cases "intLike v")
    case (Some k)
    then obtain m loose where b: "buildInts f rows = Some (m, loose)"
      "in_positions f rows vs (add_pos loose (add_pos (posns m k) pos)) = Some out"
      using Cons.prems by (auto split: option.splits)
    then have "set (posns m k) \<union> set loose = {j. j < length rows \<and> eq_cand f v (rows ! j)}"
      using view_sets [of intLike f rows m loose k] Some by (simp add: buildInts_def eq_cand_def)
    with b show ?thesis by blast
  next
    case None
    then obtain t m loose where b: "v = GStr t" "buildTexts f rows = Some (m, loose)"
      "in_positions f rows vs (add_pos loose (add_pos (posns m t) pos)) = Some out"
      using Cons.prems by (auto split: option.splits gval.splits)
    then have "set (posns m t) \<union> set loose = {j. j < length rows \<and> eq_cand f v (rows ! j)}"
      using view_sets [of textKey f rows m loose t] None by (simp add: buildTexts_def eq_cand_def)
    with b show ?thesis by blast
  qed
  then obtain loose ps where s: "in_positions f rows vs (add_pos loose (add_pos ps pos)) = Some out"
    "set ps \<union> set loose = {j. j < length rows \<and> eq_cand f v (rows ! j)}" by (elim exE conjE) (rule that)
  have "distinct (add_pos loose (add_pos ps pos))" using Cons.prems(2) by (simp add: distinct_add_pos)
  note ih = Cons.IH [OF s(1) this]
  have "set (add_pos loose (add_pos ps pos)) = set pos \<union> {j. j < length rows \<and> eq_cand f v (rows ! j)}"
    by (simp add: s(2) [symmetric] Un_assoc)
  then show ?case using ih by (simp only: list.set) blast
qed simp

definition in_cand :: "string \<Rightarrow> gval \<Rightarrow> gval \<Rightarrow> bool" where
  "in_cand f vals r = (case vals of GList l \<Rightarrow> \<exists>v \<in> set l. eq_cand f v r | _ \<Rightarrow> True)"

lemma sort_where:
  assumes "distinct ps" "set ps = {j. j < length rows \<and> P (rows ! j)}"
  shows "sort ps = where_pos P rows 0"
proof -
  have "sorted (where_pos P rows 0)" "distinct (where_pos P rows 0)"
    by (simp_all add: where_pos_def sorted_wrt_filter)
  then show ?thesis
    using assms set_where_pos [of P rows]
    by (intro sorted_distinct_set_unique) simp_all
qed

interpretation in_index: row_filter "in_cand f vals" "\<lambda>rows. indexedRowsIn f rows vals" for f vals
proof
  fix rows cs assume "indexedRowsIn f rows vals = Some cs"
  then obtain l ps where l: "vals = GList l" "in_positions f rows l [] = Some ps"
    "cs = pick rows (sort ps) []"
    by (auto simp: indexedRowsIn_def split: gval.splits if_splits)
  then have "distinct ps" "set ps = {j. j < length rows \<and> in_cand f vals (rows ! j)}"
    using in_positions_spec [OF l(2)] by (simp_all add: in_cand_def)
  then have "sort ps = where_pos (in_cand f vals) rows 0" by (rule sort_where)
  moreover have "merge_pos qs [] = qs" for qs by (cases qs) simp_all
  ultimately show "cs = filter (in_cand f vals) rows"
    using l rows_at_where [of "[]" rows] by (simp add: pick_def)
qed

end
