(* ===== verification/Eval.thy ===== *)
theory Eval
  imports RowIndex
begin

text \<open>
  The expression evaluator of actions, policies and the API (runtime/eval.go: \<open>eval\<close>,
  \<open>evalColl\<close>, \<open>evalRest\<close>, \<open>evalCall\<close>, \<open>listSelect\<close>, \<open>sortRowsBy\<close>,
  \<open>sortedForEarlyStop\<close>), over a scope without a render collector: \<open>materializerOf\<close> is nil
  there, so the collector's lookup, record and gate steps are the identity and entity
  derives are not consulted.

  The scope is threaded as the code leaves it: every loop that binds the item variable
  restores the scope, so a bound evaluation is an evaluation in the extended scope.
\<close>

type_synonym scope = "(string \<times> gval) list"

text \<open>
  The hidden entries of a scope: the parameters a caller sent, the action's proc runner,
  and the switch tests turn row indexing off with.
\<close>

record ectx =
  ec_lib :: stdlib
  ec_given :: "string \<Rightarrow> bool"
  ec_proc :: "(string \<Rightarrow> gval list \<Rightarrow> gval option) option"
  ec_indexing :: bool

definition list_of :: "gval \<Rightarrow> gval list" where
  "list_of v = (case v of GList xs \<Rightarrow> xs | _ \<Rightarrow> [])"

definition evalCall :: "ectx \<Rightarrow> string \<Rightarrow> gval list \<Rightarrow> gval" where
  "evalCall C name args =
     (if name = ''fileDigest'' then
        (case ec_proc C of
           Some run \<Rightarrow> (case run (CHR 0x00 # ''fileDigest'') args of Some v \<Rightarrow> v | None \<Rightarrow> GNil)
         | None \<Rightarrow> GStr [])
      else
        (case ec_proc C of
           Some run \<Rightarrow> (case run name args of Some v \<Rightarrow> v | None \<Rightarrow> callBuiltin (ec_lib C) name args)
         | None \<Rightarrow> callBuiltin (ec_lib C) name args))"

text \<open>\<open>given(p)\<close> is answered from the parameter's name, not its value.\<close>

definition given_ref :: "string \<Rightarrow> expr list \<Rightarrow> string option" where
  "given_ref name args = (case args of
     [IRef p] \<Rightarrow> if name = ''given'' then Some p else None
   | _ \<Rightarrow> None)"

subsection \<open>Aggregates over rows\<close>

definition column_kind :: "gval \<Rightarrow> bool option" where
  "column_kind v = (case v of
     GInt _ \<Rightarrow> Some True | GInt64 _ \<Rightarrow> Some True | GFloat _ \<Rightarrow> Some True | GStr _ \<Rightarrow> Some False | _ \<Rightarrow> None)"

definition sortedForEarlyStop :: "expr agg \<Rightarrow> gval list \<Rightarrow> gval list option" where
  "sortedForEarlyStop a rows =
     (case (case ag_order_by a of Some e \<Rightarrow> itemField e (ag_var a) | None \<Rightarrow> Some (ag_order a)) of
        None \<Rightarrow> None
      | Some f \<Rightarrow>
          if f = [] then Some rows
          else if (\<forall>r \<in> set rows. is_record r \<and> column_kind (row_field r f) = Some True)
                \<or> (\<forall>r \<in> set rows. is_record r \<and> column_kind (row_field r f) = Some False)
               then Some (sortRows rows f (ag_desc a))
               else None)"

definition sortRowsBy :: "(gval \<Rightarrow> gval) \<Rightarrow> gval list \<Rightarrow> bool \<Rightarrow> gval list" where
  "sortRowsBy key rows desc = stable_sort (\<lambda>x y. directed desc lessVal (key x) (key y)) rows"

definition listSelect :: "(gval \<Rightarrow> gval) option \<Rightarrow> gval list \<Rightarrow> gval" where
  "listSelect sel rows = GList (case sel of None \<Rightarrow> rows | Some f \<Rightarrow> map f rows)"

definition cap_rows :: "i64 option \<Rightarrow> gval list \<Rightarrow> gval list" where
  "cap_rows lim rows = (case lim of
     Some n \<Rightarrow> if \<not> lt64 n 0 \<and> sint n < int (length rows) then take (nat (sint n)) rows else rows
   | None \<Rightarrow> rows)"

definition candidates :: "bool \<Rightarrow> gval list \<Rightarrow> (string \<times> gval \<times> bool) option \<Rightarrow> gval list" where
  "candidates ix rows probe =
     (case probe of
        Some (f, v, is_in) \<Rightarrow>
          if ix then (case (if is_in then indexedRowsIn f rows v else indexedRows f rows v) of
                        Some cand \<Rightarrow> cand | None \<Rightarrow> rows)
          else rows
      | None \<Rightarrow> rows)"

text \<open>How many kept rows the answer can use, the rows in the order it needs them, and whether that is answer order.\<close>

definition early_stop :: "bool \<Rightarrow> expr agg \<Rightarrow> i64 option \<Rightarrow> gval list \<Rightarrow> gval list \<times> nat option \<times> bool" where
  "early_stop ix a lim rows =
     (if \<not> ix then (rows, None, False)
      else if ag_op a = ''exists'' then (rows, Some 1, False)
      else if ag_op a = ''list'' then
        (case lim of
           Some n \<Rightarrow>
             if lt64 n 0 then (rows, None, False)
             else (case sortedForEarlyStop a rows of
                     Some s \<Rightarrow> (s, Some (nat (sint n)), True)
                   | None \<Rightarrow> (rows, None, False))
         | None \<Rightarrow> (rows, None, False))
      else (rows, None, False))"

definition keep_rows :: "nat option \<Rightarrow> (gval \<Rightarrow> bool) \<Rightarrow> gval list \<Rightarrow> gval list" where
  "keep_rows need p rows = (case need of Some n \<Rightarrow> take n (filter p rows) | None \<Rightarrow> filter p rows)"

definition agg_answer ::
  "expr agg \<Rightarrow> i64 option \<Rightarrow> (gval \<Rightarrow> gval) option \<Rightarrow> (gval \<Rightarrow> gval) option \<Rightarrow> gval list \<Rightarrow> gval" where
  "agg_answer a lim sel key rows =
     (if ag_op a = ''exists'' then GBool (rows \<noteq> [])
      else if ag_op a = ''count'' then GInt (i64_of_nat (length rows))
      else if ag_op a = ''list'' then
        listSelect sel (cap_rows lim
          (case key of Some k \<Rightarrow> sortRowsBy k rows (ag_desc a) | None \<Rightarrow> sortRows rows (ag_order a) (ag_desc a)))
      else if ag_vtype a = ''text'' then
        reduceText (ag_op a) rows (\<lambda>r. if is_record r then Some (row_field r (ag_field a)) else None)
      else case sel of
        None \<Rightarrow> reduceAgg (ag_op a) rows (fieldValue (ag_field a))
      | Some f \<Rightarrow> reduceAgg (ag_op a) rows (\<lambda>r. if is_record r then Some (numValue (f r)) else None))"

definition aggregate ::
  "bool \<Rightarrow> expr agg \<Rightarrow> gval list \<Rightarrow> i64 option \<Rightarrow> (gval \<Rightarrow> bool) option \<Rightarrow> (gval \<Rightarrow> gval) option
     \<Rightarrow> (gval \<Rightarrow> gval) option \<Rightarrow> (string \<times> gval \<times> bool) option \<Rightarrow> gval" where
  "aggregate ix a rows lim pred sel key probe =
     (case pred of
        None \<Rightarrow> agg_answer a lim sel key rows
      | Some p \<Rightarrow>
          (case early_stop ix a lim (candidates ix rows probe) of (rs, need, presorted) \<Rightarrow>
             let kept = keep_rows need p rs in
             if presorted then listSelect sel kept else agg_answer a lim sel key kept))"

definition find_row :: "gval list \<Rightarrow> gval \<Rightarrow> (string \<times> gval) list option" where
  "find_row rows key =
     (case find (\<lambda>r. is_record r \<and> equal (row_field r ''id'') key) rows of
        Some (GRec m) \<Rightarrow> Some m | _ \<Rightarrow> None)"

definition entity_get :: "bool \<Rightarrow> gval list \<Rightarrow> gval \<Rightarrow> string \<Rightarrow> gval" where
  "entity_get ix rows key f =
     (let rows' = (if ix then case indexedRows ''id'' rows key of Some cand \<Rightarrow> cand | None \<Rightarrow> rows else rows) in
      case find_row rows' key of
        None \<Rightarrow> GNil
      | Some m \<Rightarrow> if f = [] then GRec m else field m f)"

definition struct_value :: "string list \<Rightarrow> gval list \<Rightarrow> string list \<Rightarrow> string list \<Rightarrow> gval" where
  "struct_value fs vs om nu = GRec (nullEmpty (omitEmpty (fold (\<lambda>(f, v) r. alput r f v) (zip fs vs) []) om) nu)"

definition unary :: "string \<Rightarrow> gval \<Rightarrow> gval" where
  "unary op x =
     (if op = ''!'' then GBool (\<not> truthy x)
      else if op = ''-'' then negate x
      else if op = ''~'' then GInt (not (toInt x)) else GNil)"

subsection \<open>eval\<close>

fun eval :: "ectx \<Rightarrow> scope \<Rightarrow> expr \<Rightarrow> gval" where
  "eval C sc (ILit v t) = litValue v t"
| "eval C sc (IList es) = GList (map (eval C sc) es)"
| "eval C sc (IRef n) = field sc n"
| "eval C sc (IGet ob f) = (case eval C sc ob of GRec m \<Rightarrow> field m f | _ \<Rightarrow> GNil)"
| "eval C sc (IEGet n k f) = entity_get (ec_indexing C) (list_of (field sc n)) (eval C sc k) f"
| "eval C sc (IAgg a) =
     aggregate (ec_indexing C) a (list_of (field sc (ag_name a)))
       (map_option (\<lambda>e. toInt (eval C sc e)) (ag_limit a))
       (map_option (\<lambda>e r. truthy (eval C (alput sc (ag_var a) r) e)) (ag_where a))
       (map_option (\<lambda>e r. eval C (alput sc (ag_var a) r) e) (ag_sel a))
       (map_option (\<lambda>e r. eval C (alput sc (ag_var a) r) e) (ag_order_by a))
       (case ag_where a of None \<Rightarrow> None | Some w \<Rightarrow>
          (case pinnedEquality w (ag_var a) of None \<Rightarrow> None
           | Some (f, pe, is_in) \<Rightarrow> Some (f, eval C sc pe, is_in)))"
| "eval C sc (IIndex ob k) = indexValue (eval C sc ob) (eval C sc k)"
| "eval C sc (IMap ks vs) = GNil"
| "eval C sc (IStruct n fs vs om nu) = struct_value fs (map (eval C sc) vs) om nu"
| "eval C sc (IAState n op) = (if op = ''failed'' then GStr [] else GBool False)"
| "eval C sc (ICall n es) =
     (case given_ref n es of
        Some p \<Rightarrow> GBool (ec_given C p)
      | None \<Rightarrow> evalCall C n (map (eval C sc) es))"
| "eval C sc (IUn op x) = unary op (eval C sc x)"
| "eval C sc (IBin op l r) =
     (if op = ''&&'' then GBool (truthy (eval C sc l) \<and> truthy (eval C sc r))
      else if op = ''||'' then GBool (truthy (eval C sc l) \<or> truthy (eval C sc r))
      else applyBin op (eval C sc l) (eval C sc r))"

subsection \<open>The index answers what the scan answers\<close>

definition no_i32 :: "gval \<Rightarrow> bool" where
  "no_i32 v = (case v of GInt32 _ \<Rightarrow> False | _ \<Rightarrow> True)"

text \<open>
  An equality with an indexable probe can hold only of a candidate. (\<open>intLike\<close> reads an
  \<open>int32\<close> as its value where \<open>toInt\<close>, which \<open>equal\<close> compares through, reads it as 0; no
  value the runtime makes is one.)
\<close>

lemma equal_cand:
  assumes "no_i32 (row_field r f)" "no_i32 probe"
    "equal (row_field r f) probe \<or> equal probe (row_field r f)"
  shows "eq_cand f probe r"
proof (cases "intLike probe")
  case None
  show ?thesis
  proof (cases probe)
    case (GStr s)
    then show ?thesis using assms
      by (cases "row_field r f")
        (auto simp: eq_cand_def intLike_def keyed_def loosely_def textKey_def equal_scalar_def bytesEqualList_def)
  qed (use None in \<open>simp_all add: eq_cand_def\<close>)
next
  case (Some k)
  then have "(probe = GNil \<and> k = 0) \<or> probe = GInt k \<or> probe = GInt64 k"
    using assms(2) by (cases probe) (auto simp: intLike_def no_i32_def)
  then have "intLike (row_field r f) = Some k \<or> intLike (row_field r f) = None"
    using assms(1,3)
    by (cases "row_field r f") (auto simp: intLike_def no_i32_def equal_scalar_def)
  then show ?thesis by (auto simp: eq_cand_def Some keyed_def loosely_def)
qed

lemma mem_cand:
  assumes "no_i32 (row_field r f)" "\<forall>v \<in> set (list_of vals). no_i32 v" "mem_vals (row_field r f) vals"
  shows "in_cand f vals r"
proof (cases vals)
  case (GList l)
  then obtain v where "v \<in> set l" "equal (row_field r f) v"
    using assms(3) by (auto simp: mem_vals_def listElems_def)
  then have "eq_cand f v r" using assms(1,2) GList by (intro equal_cand) (auto simp: list_of_def)
  then show ?thesis using GList \<open>v \<in> set l\<close> by (auto simp: in_cand_def)
qed (simp_all add: in_cand_def)

text \<open>The item variables an expression's entity lookups would be shadowed by.\<close>

fun eget_names :: "expr \<Rightarrow> string set" where
  "eget_names (IGet ob f) = eget_names ob"
| "eget_names (IUn op x) = eget_names x"
| "eget_names (IBin op l r) = eget_names l \<union> eget_names r"
| "eget_names (IEGet n k f) = insert n (eget_names k)"
| "eget_names (IList es) = (\<Union>e \<in> set es. eget_names e)"
| "eget_names (ICall n es) = (\<Union>e \<in> set es. eget_names e)"
| "eget_names _ = {}"

lemma given_ref_probe: "n \<in> probe_calls \<Longrightarrow> given_ref n es = None"
  by (auto simp: given_ref_def probe_calls_def split: list.split expr.split)

text \<open>A probe expression does not read the item: it has one value for all the rows.\<close>

lemma probe_independent:
  "probeExpr v e \<Longrightarrow> v \<notin> eget_names e \<Longrightarrow> eval C (alput sc v r) e = eval C sc e"
proof (induction v e rule: probeExpr.induct)
  case (7 v es)
  then have "map (eval C (alput sc v r)) es = map (eval C sc) es" by (auto simp: list_all_iff)
  then show ?case by simp
next
  case (8 v n es)
  then have "map (eval C (alput sc v r)) es = map (eval C sc) es" by (auto simp: list_all_iff)
  moreover have "given_ref n es = None" using 8(2) by (intro given_ref_probe) simp
  ultimately show ?case by (simp only: eval.simps option.case)
qed auto

text \<open>What a true predicate says of its pinned conjunct.\<close>

lemma pinned_holds:
  "pinnedEquality w v = Some (f, pe, is_in) \<Longrightarrow> truthy (eval C (alput sc v r) w) \<Longrightarrow>
   (if is_in then mem_vals (row_field r f) (eval C (alput sc v r) pe)
    else equal (row_field r f) (eval C (alput sc v r) pe) \<or> equal (eval C (alput sc v r) pe) (row_field r f))"
proof (induction w v rule: pinnedEquality.induct)
  case (1 op l r' v)
  have item: "eval C (alput sc v r) (IGet (IRef v) g) = row_field r g" for g
    by (simp add: row_field_def)
  show ?case
  proof (cases "op = ''&&''")
    case True
    then show ?thesis using 1 by (auto split: if_splits option.splits)
  next
    case False
    then consider "op = ''==''" "pinned_eq l r' v = Some (f, pe, is_in)"
      | "op = ''in''" "pinned_in l r' v = Some (f, pe, is_in)"
      using 1(3) by (auto split: if_splits)
    then show ?thesis
    proof cases
      case 1
      then have "\<not> is_in \<and> (l = IGet (IRef v) f \<and> r' = pe \<or> r' = IGet (IRef v) f \<and> l = pe)"
        by (auto simp: pinned_eq_def dest: itemField_Some split: option.splits if_splits)
      then show ?thesis using \<open>truthy _\<close> 1(1) item by (auto simp: applyBin_simps simp del: eval.simps(3,4))
    next
      case 2
      then have "is_in \<and> l = IGet (IRef v) f \<and> r' = pe"
        by (auto simp: pinned_in_def dest: itemField_Some split: option.splits if_splits)
      then show ?thesis using \<open>truthy _\<close> 2(1) item by (auto simp: applyBin_simps simp del: eval.simps(3,4))
    qed
  qed
qed simp_all

definition probe_clean :: "gval list \<Rightarrow> (string \<times> gval \<times> bool) option \<Rightarrow> bool" where
  "probe_clean rows probe = (case probe of
     None \<Rightarrow> True
   | Some (f, v, is_in) \<Rightarrow>
       no_i32 v \<and> (\<forall>x \<in> set (list_of v). no_i32 x) \<and> (\<forall>r \<in> set rows. no_i32 (row_field r f)))"

definition probe_of :: "ectx \<Rightarrow> scope \<Rightarrow> expr agg \<Rightarrow> (string \<times> gval \<times> bool) option" where
  "probe_of C sc a = (case ag_where a of None \<Rightarrow> None | Some w \<Rightarrow>
     (case pinnedEquality w (ag_var a) of None \<Rightarrow> None
      | Some (f, pe, is_in) \<Rightarrow> Some (f, eval C sc pe, is_in)))"

definition shadow_free :: "expr agg \<Rightarrow> bool" where
  "shadow_free a = (case ag_where a of None \<Rightarrow> True | Some w \<Rightarrow>
     (case pinnedEquality w (ag_var a) of None \<Rightarrow> True | Some (f, pe, is_in) \<Rightarrow> ag_var a \<notin> eget_names pe))"

lemma candidates_filter:
  assumes w: "ag_where a = Some w" and sf: "shadow_free a" and cl: "probe_clean rows (probe_of C sc a)"
  shows "filter (\<lambda>r. truthy (eval C (alput sc (ag_var a) r) w)) (candidates ix rows (probe_of C sc a))
    = filter (\<lambda>r. truthy (eval C (alput sc (ag_var a) r) w)) rows"
proof (cases "pinnedEquality w (ag_var a)")
  case None
  then show ?thesis by (simp add: candidates_def probe_of_def w)
next
  case (Some p)
  obtain f pe is_in where p: "pinnedEquality w (ag_var a) = Some (f, pe, is_in)"
    using Some by (cases p) auto
  let ?v = "eval C sc pe"
  have pr: "probe_of C sc a = Some (f, ?v, is_in)" by (simp add: probe_of_def w p)
  have one: "eval C (alput sc (ag_var a) r) pe = ?v" for r
    using probe_independent [OF pinned_probe [OF p]] sf by (simp add: shadow_free_def w p)
  have holds: "if is_in then in_cand f ?v r else eq_cand f ?v r"
    if "r \<in> set rows" "truthy (eval C (alput sc (ag_var a) r) w)" for r
    using pinned_holds [OF p that(2)] one cl that(1)
    by (auto simp: probe_clean_def pr intro: mem_cand equal_cand)
  let ?P = "\<lambda>r. truthy (eval C (alput sc (ag_var a) r) w)"
  have "filter ?P cs = filter ?P rows" if "is_in" "indexedRowsIn f rows ?v = Some cs" for cs
    by (rule in_index.filter_candidates [OF that(2)]) (use holds that(1) in auto)
  moreover have "filter ?P cs = filter ?P rows" if "\<not> is_in" "indexedRows f rows ?v = Some cs" for cs
    by (rule eq_index.filter_candidates [OF that(2)]) (use holds that(1) in auto)
  ultimately show ?thesis by (auto simp: candidates_def pr split: option.split)
qed

subsection \<open>Stopping early answers what sorting and capping answers\<close>

definition early_field :: "expr agg \<Rightarrow> string option" where
  "early_field a = (case ag_order_by a of Some e \<Rightarrow> itemField e (ag_var a) | None \<Rightarrow> Some (ag_order a))"

definition float_free :: "expr agg \<Rightarrow> gval list \<Rightarrow> bool" where
  "float_free a rows \<longleftrightarrow>
     (\<forall>f. early_field a = Some f \<longrightarrow> (\<forall>r \<in> set rows. \<not> is_float_val (row_field r f)))"

lemma int_column_order: "sort_order (\<lambda>x y. lt64 (toInt (row_field x f)) (toInt (row_field y f)))"
  by (rule sort_order_key) (rule int_order.sort_order_axioms)

lemma text_column_order: "sort_order (\<lambda>x y. str_lt (toStr (row_field x f)) (toStr (row_field y f)))"
  by (rule sort_order_key) (rule str_order.sort_order_axioms)

lemma sort_order_directed:
  "sort_order (\<lambda>x y. lt (k x) (k y)) \<Longrightarrow> sort_order (\<lambda>x y. directed d lt (k x) (k y))"
  by (cases d) (simp_all add: directed_def sort_order_flip)

lemma column_kind_int: "column_kind v = Some True \<Longrightarrow> \<not> is_float_val v \<Longrightarrow> numeric v \<and> \<not> is_float_val v"
  by (cases v) (simp_all add: column_kind_def numeric_def is_float_val_def)

lemma column_kind_text: "column_kind v = Some False \<Longrightarrow> \<not> numeric v"
  by (cases v) (simp_all add: column_kind_def numeric_def)

text \<open>A column of ints, or of texts, is consistently ordered, so filtering and sorting commute.\<close>

lemma sortRows_filter:
  assumes "(\<forall>r \<in> set rows. column_kind (row_field r f) = Some True \<and> \<not> is_float_val (row_field r f))
      \<or> (\<forall>r \<in> set rows. column_kind (row_field r f) = Some False)" "f \<noteq> []"
  shows "filter p (sortRows rows f d) = sortRows (filter p rows) f d"
proof -
  have by_order: "filter p (sortRows rows f d) = sortRows (filter p rows) f d"
    if o: "sort_order (\<lambda>x y. lt (row_field x f) (row_field y f))"
      and eq: "\<And>x y. x \<in> set rows \<Longrightarrow> y \<in> set rows \<Longrightarrow>
        lessVal (row_field x f) (row_field y f) = lt (row_field x f) (row_field y f)" for lt
  proof -
    have od: "sort_order (\<lambda>x y. directed d lt (row_field x f) (row_field y f))"
      using o by (rule sort_order_directed)
    note fs = sort_order.filter_stable_sort [OF od]
    have c: "stable_sort (\<lambda>x y. directed d lessVal (row_field x f) (row_field y f)) rs
        = stable_sort (\<lambda>x y. directed d lt (row_field x f) (row_field y f)) rs" if "set rs \<subseteq> set rows" for rs
      by (rule stable_sort_cong) (use eq that in \<open>auto simp: directed_def\<close>)
    have "set (filter p rows) \<subseteq> set rows" by auto
    then show ?thesis using assms(2) fs by (simp add: sortRows_def c)
  qed
  from assms(1) show ?thesis
  proof
    assume "\<forall>r \<in> set rows. column_kind (row_field r f) = Some True \<and> \<not> is_float_val (row_field r f)"
    then have "\<And>x. x \<in> set rows \<Longrightarrow> numeric (row_field x f) \<and> \<not> is_float_val (row_field x f)"
      using column_kind_int by blast
    then show ?thesis by (intro by_order [OF int_column_order]) (simp add: lessVal_def)
  next
    assume "\<forall>r \<in> set rows. column_kind (row_field r f) = Some False"
    then have "\<And>x. x \<in> set rows \<Longrightarrow> \<not> numeric (row_field x f)" using column_kind_text by blast
    then show ?thesis by (intro by_order [OF text_column_order]) (simp add: lessVal_def)
  qed
qed

definition key_of :: "ectx \<Rightarrow> scope \<Rightarrow> expr agg \<Rightarrow> (gval \<Rightarrow> gval) option" where
  "key_of C sc a = map_option (\<lambda>e r. eval C (alput sc (ag_var a) r) e) (ag_order_by a)"

lemma key_early_field:
  assumes "early_field a = Some f" "key_of C sc a = Some k"
  shows "k = (\<lambda>r. row_field r f) \<and> f \<noteq> []"
proof -
  obtain e where e: "ag_order_by a = Some e" "k = (\<lambda>r. eval C (alput sc (ag_var a) r) e)"
    using assms(2) by (auto simp: key_of_def)
  then have "itemField e (ag_var a) = Some f" using assms(1) by (simp add: early_field_def)
  then have "e = IGet (IRef (ag_var a)) f" "f \<noteq> []"
    by (auto simp: itemField_def split: expr.splits if_splits)
  then show ?thesis using e by (simp add: row_field_def fun_eq_iff)
qed

text \<open>The rows of a list answer in order: by its key, or by a stored field.\<close>

lemma ordered_by_field:
  assumes "early_field a = Some f"
  shows "(case key_of C sc a of Some k \<Rightarrow> sortRowsBy k rows (ag_desc a)
          | None \<Rightarrow> sortRows rows (ag_order a) (ag_desc a)) = sortRows rows f (ag_desc a)"
proof (cases "key_of C sc a")
  case None
  then show ?thesis using assms by (auto simp: early_field_def key_of_def split: option.splits)
next
  case (Some k)
  then show ?thesis
    using key_early_field [OF assms Some] by (simp add: sortRowsBy_def sortRows_def)
qed

lemma cap_rows_take: "\<not> lt64 n 0 \<Longrightarrow> cap_rows (Some n) rows = take (nat (sint n)) rows"
  by (auto simp: cap_rows_def lt64_def)

lemma early_sorted_filter:
  assumes "sortedForEarlyStop a rows = Some s" "float_free a rows"
  shows "\<exists>f. early_field a = Some f \<and> filter p s = sortRows (filter p rows) f (ag_desc a)"
proof -
  obtain f where f: "early_field a = Some f"
    using assms(1) by (auto simp: sortedForEarlyStop_def early_field_def split: option.splits)
  show ?thesis
  proof (cases "f = []")
    case True
    then have "s = rows" using assms(1) f by (simp add: sortedForEarlyStop_def early_field_def)
    then show ?thesis using f True by (simp add: sortRows_def)
  next
    case False
    have s: "s = sortRows rows f (ag_desc a)"
      and k: "(\<forall>r \<in> set rows. column_kind (row_field r f) = Some True)
        \<or> (\<forall>r \<in> set rows. column_kind (row_field r f) = Some False)"
      using assms(1) f False by (auto simp: sortedForEarlyStop_def early_field_def split: if_splits)
    have "filter p (sortRows rows f (ag_desc a)) = sortRows (filter p rows) f (ag_desc a)"
      by (rule sortRows_filter) (use k False assms(2) f in \<open>auto simp: float_free_def\<close>)
    then show ?thesis using f s by blast
  qed
qed

lemma candidates_subset: "set (candidates ix rows probe) \<subseteq> set rows"
proof -
  have "set cs \<subseteq> set rows" if "indexedRowsIn f rows v = Some cs" for f v cs
    using in_index.answer_filter [OF that] by auto
  moreover have "set cs \<subseteq> set rows" if "indexedRows f rows v = Some cs" for f v cs
    using eq_index.answer_filter [OF that] by auto
  ultimately show ?thesis
    unfolding candidates_def by (simp split: option.split prod.split)
qed

lemma early_stop_cases:
  obtains (plain) "early_stop ix a lim c = (c, None, False)"
  | (one) "early_stop ix a lim c = (c, Some 1, False)" "ag_op a = ''exists''"
  | (sorted) s n where "early_stop ix a lim c = (s, Some (nat (sint n)), True)" "ag_op a = ''list''"
      "lim = Some n" "\<not> lt64 n 0" "sortedForEarlyStop a c = Some s"
proof (cases "ix \<and> ag_op a = ''list''")
  case True
  show ?thesis
  proof (cases lim)
    case None
    then show ?thesis using True plain by (simp add: early_stop_def)
  next
    case (Some n)
    then show ?thesis
      using True plain sorted by (cases "lt64 n 0"; cases "sortedForEarlyStop a c") (simp_all add: early_stop_def)
  qed
next
  case False
  then show ?thesis
    using plain one by (cases ix; cases "ag_op a = ''exists''") (simp_all add: early_stop_def)
qed

lemma aggregate_scan:
  assumes fl: "filter p (candidates ix rows probe) = filter p rows" and ff: "float_free a rows"
  shows "aggregate ix a rows lim (Some p) sel (key_of C sc a) probe
    = aggregate False a rows lim (Some p) sel (key_of C sc a) None"
proof -
  let ?c = "candidates ix rows probe"
  have ffc: "float_free a ?c" using ff candidates_subset [of ix rows probe] by (auto simp: float_free_def)
  have scan: "aggregate False a rows lim (Some p) sel (key_of C sc a) None
      = agg_answer a lim sel (key_of C sc a) (filter p rows)"
    by (simp add: aggregate_def early_stop_def keep_rows_def candidates_def)
  show ?thesis
  proof (cases rule: early_stop_cases [of ix a lim ?c])
    case plain
    then show ?thesis unfolding scan by (simp add: aggregate_def keep_rows_def fl)
  next
    case one
    have "aggregate ix a rows lim (Some p) sel (key_of C sc a) probe
        = agg_answer a lim sel (key_of C sc a) (take 1 (filter p rows))"
      using one(1) fl by (simp add: aggregate_def keep_rows_def)
    also have "\<dots> = agg_answer a lim sel (key_of C sc a) (filter p rows)"
      by (cases "filter p rows") (simp_all only: one(2) agg_answer_def if_True, simp_all)
    finally show ?thesis by (simp only: scan)
  next
    case (sorted s n)
    obtain f where f: "early_field a = Some f" "filter p s = sortRows (filter p ?c) f (ag_desc a)"
      using early_sorted_filter [OF sorted(5) ffc, of p] by (elim exE conjE) (rule that)
    have "aggregate ix a rows lim (Some p) sel (key_of C sc a) probe
        = listSelect sel (take (nat (sint n)) (filter p s))"
      using sorted(1) by (simp add: aggregate_def keep_rows_def)
    also have "filter p s = (case key_of C sc a of Some k \<Rightarrow> sortRowsBy k (filter p rows) (ag_desc a)
          | None \<Rightarrow> sortRows (filter p rows) (ag_order a) (ag_desc a))"
      using f(2) ordered_by_field [OF f(1), of "filter p rows" C sc] by (simp only: fl)
    also have "listSelect sel (take (nat (sint n)) \<dots>) = agg_answer a lim sel (key_of C sc a) (filter p rows)"
      using sorted(2-4) by (simp add: agg_answer_def cap_rows_take)
    finally show ?thesis by (simp only: scan)
  qed
qed

text \<open>What an aggregate is by a plain scan: no index, no early stop.\<close>

definition scan_answer :: "ectx \<Rightarrow> scope \<Rightarrow> expr agg \<Rightarrow> gval" where
  "scan_answer C sc a =
     aggregate False a (list_of (field sc (ag_name a)))
       (map_option (\<lambda>e. toInt (eval C sc e)) (ag_limit a))
       (map_option (\<lambda>e r. truthy (eval C (alput sc (ag_var a) r) e)) (ag_where a))
       (map_option (\<lambda>e r. eval C (alput sc (ag_var a) r) e) (ag_sel a))
       (map_option (\<lambda>e r. eval C (alput sc (ag_var a) r) e) (ag_order_by a)) None"

text \<open>
  C7: an aggregate answered through a row index, with the evaluation stopped as soon as its
  answer is decided, is the answer of the plain scan: \<open>count\<close>, \<open>exists\<close>, \<open>list\<close>, \<open>sum\<close>,
  \<open>avg\<close>, \<open>min\<close> and \<open>max\<close> alike. It holds when the pinned value is not read through an
  entity the item variable shadows, no compared value is an \<open>int32\<close>, and the column a
  capped list is ordered by holds no float.
\<close>

theorem aggregate_index_sound:
  assumes "shadow_free a" "probe_clean (list_of (field sc (ag_name a))) (probe_of C sc a)"
    "float_free a (list_of (field sc (ag_name a)))"
  shows "eval C sc (IAgg a) = scan_answer C sc a"
proof (cases "ag_where a")
  case None
  then show ?thesis by (simp add: scan_answer_def aggregate_def)
next
  case (Some w)
  let ?rows = "list_of (field sc (ag_name a))"
  have fl: "filter (\<lambda>r. truthy (eval C (alput sc (ag_var a) r) w)) (candidates (ec_indexing C) ?rows (probe_of C sc a))
      = filter (\<lambda>r. truthy (eval C (alput sc (ag_var a) r) w)) ?rows"
    by (rule candidates_filter [OF Some assms(1,2)])
  show ?thesis
    using aggregate_scan [OF fl assms(3), of "map_option (\<lambda>e. toInt (eval C sc e)) (ag_limit a)"
        "map_option (\<lambda>e r. eval C (alput sc (ag_var a) r) e) (ag_sel a)" C sc]
    by (simp add: scan_answer_def Some probe_of_def key_of_def)
qed

text \<open>An example of the above: sixty-four rows, so the index is used, and a pinned field.\<close>

definition ex_ctx :: ectx where
  "ex_ctx = \<lparr>ec_lib = std0, ec_given = (\<lambda>p. False), ec_proc = None, ec_indexing = True\<rparr>"

definition ex_agg :: "expr agg" where
  "ex_agg = Agg ''list'' ''T'' [] [] ''x''
     (Some (IBin ''=='' (IGet (IRef ''x'') ''a'') (ILit (GInt 1) ''int''))) None ''b'' True
     (Some (ILit (GInt 5) ''int'')) None"

definition ex_scope :: scope where
  "ex_scope = [(''T'', GList (replicate 64 (GRec [(''a'', GInt 1), (''b'', GStr ''k'')])))]"

theorem aggregate_index_sound_witness: "eval ex_ctx ex_scope (IAgg ex_agg) = scan_answer ex_ctx ex_scope ex_agg"
  by (rule aggregate_index_sound)
    (simp_all add: ex_agg_def ex_scope_def shadow_free_def probe_clean_def probe_of_def float_free_def
      early_field_def pinned_eq_def itemField_def list_of_def field_def litValue_def no_i32_def
      row_field_def is_float_val_def)

end
