(* ===== verification/MemStore.thy ===== *)
theory MemStore
  imports Eval
begin

text \<open>
  The relation graph of a program's entities (internal/ir/ir.go) and the in-memory store
  (runtime/memstore.go): rows, cascades and restrictions, queries with keyset paging,
  counts and reductions, transactions, sessions and the job queue. A row is a record;
  \<open>Save\<close> stores a copy, so rows are values here.
\<close>

type_synonym row = "(string \<times> gval) list"

subsection \<open>Entities and references\<close>

record ir_field =
  fd_name :: string
  fd_type :: string
  fd_ref :: string
  fd_enum :: string
  fd_index :: bool
  fd_secret :: bool
  fd_e2e :: bool
  fd_password :: bool
  fd_read_policy :: string
  fd_optional :: bool
  fd_unique :: bool
  fd_required :: bool
  fd_min :: "i64 option"
  fd_max :: "i64 option"
  fd_matches :: string
  fd_on_delete :: string

record derive =
  dv_name :: string
  dv_params :: "string list"
  dv_type :: string
  dv_expr :: expr
  dv_deps :: "string list"

record entity =
  en_name :: string
  en_soft_delete :: bool
  en_ephemeral :: bool
  en_fields :: "ir_field list"
  en_read :: "expr option"
  en_derives :: "derive list"

record reference =
  rf_entity :: string
  rf_field :: string
  rf_parent :: string
  rf_on_delete :: string

definition IsRelation :: "ir_field \<Rightarrow> bool" where
  "IsRelation f \<longleftrightarrow> fd_ref f \<noteq> []"

definition References :: "entity list \<Rightarrow> reference list" where
  "References es = concat (map (\<lambda>e. map
     (\<lambda>f. \<lparr>rf_entity = en_name e, rf_field = fd_name f, rf_parent = fd_ref f, rf_on_delete = fd_on_delete f\<rparr>)
     (filter IsRelation (en_fields e))) es)"

fun indexes_loop :: "(string \<times> string) list \<Rightarrow> (string \<times> string) list \<Rightarrow> (string \<times> string) list" where
  "indexes_loop [] out = out"
| "indexes_loop (ix # ixs) out = indexes_loop ixs (if ix \<in> set out then out else out @ [ix])"

definition Indexes :: "entity list \<Rightarrow> (string \<times> string) list" where
  "Indexes es = indexes_loop
     (concat (map (\<lambda>e. map (\<lambda>f. (en_name e, fd_name f)) (filter fd_index (en_fields e))) es)) []"

subsection \<open>State\<close>

record session =
  se_actor :: string
  se_role :: string
  se_verified :: bool
  se_visitor :: string
  se_pending_mfa :: string
  se_state :: "(string \<times> gval) list"
  se_expires :: int

record job =
  jb_id :: i64
  jb_queue :: string
  jb_action :: string
  jb_args :: "gval list"
  jb_run_at :: int
  jb_attempts :: nat
  jb_max_attempts :: nat
  jb_status :: string
  jb_error :: string

record audit_entry =
  au_time :: i64
  au_actor :: string
  au_action :: string
  au_allowed :: bool
  au_detail :: string

record memstore =
  ms_ents :: "(string \<times> entity) list"
  ms_children :: "(string \<times> reference list) list"
  ms_rows :: "(string \<times> row list) list"
  ms_sessions :: "(string \<times> session) list"
  ms_audit :: "audit_entry list"
  ms_jobs :: "job list"
  ms_next_job :: i64
  ms_crons :: "(string \<times> int) list"

definition newMemStore :: memstore where
  "newMemStore = \<lparr>ms_ents = [], ms_children = [], ms_rows = [], ms_sessions = [], ms_audit = [],
     ms_jobs = [], ms_next_job = 0, ms_crons = []\<rparr>"

definition rows_of :: "memstore \<Rightarrow> string \<Rightarrow> row list" where
  "rows_of s e = (case alget (ms_rows s) e of None \<Rightarrow> [] | Some rs \<Rightarrow> rs)"

definition children_of :: "memstore \<Rightarrow> string \<Rightarrow> reference list" where
  "children_of s e = (case alget (ms_children s) e of None \<Rightarrow> [] | Some cs \<Rightarrow> cs)"

definition set_rows :: "string \<Rightarrow> row list \<Rightarrow> memstore \<Rightarrow> memstore" where
  "set_rows e rs s = s\<lparr>ms_rows := alput (ms_rows s) e rs\<rparr>"

definition row_id :: "row \<Rightarrow> i64" where
  "row_id r = toInt (field r ''id'')"

definition sortedEntities :: "(string \<times> entity) list \<Rightarrow> entity list" where
  "sortedEntities es = List.map_filter (alget es) (stable_sort str_lt (map fst es))"

definition add_child :: "reference \<Rightarrow> (string \<times> reference list) list \<Rightarrow> (string \<times> reference list) list" where
  "add_child r cs = alput cs (rf_parent r)
     ((case alget cs (rf_parent r) of None \<Rightarrow> [] | Some xs \<Rightarrow> xs) @ [r])"

definition Init :: "entity list \<Rightarrow> memstore \<Rightarrow> memstore" where
  "Init es s0 =
     (let s = fold (\<lambda>e s. s\<lparr>ms_ents := alput (ms_ents s) (en_name e) e,
                  ms_rows := (if alget (ms_rows s) (en_name e) = None then alput (ms_rows s) (en_name e) []
                              else ms_rows s)\<rparr>) es s0
      in s\<lparr>ms_children := fold add_child (References (sortedEntities (ms_ents s))) []\<rparr>)"

subsection \<open>Writes\<close>

fun save_rows :: "row \<Rightarrow> row list \<Rightarrow> row list" where
  "save_rows r [] = [r]"
| "save_rows r (x # xs) = (if row_id x = row_id r then r # xs else x # save_rows r xs)"

definition Save :: "string \<Rightarrow> row \<Rightarrow> memstore \<Rightarrow> memstore" where
  "Save e r s = set_rows e (save_rows r (rows_of s e)) s"

text \<open>The rows of a child relation that point at one of the ids, and their ids.\<close>

definition ref_of :: "reference \<Rightarrow> row \<Rightarrow> i64" where
  "ref_of ch r = toInt (field r (rf_field ch))"

definition ref_ids :: "memstore \<Rightarrow> reference \<Rightarrow> i64 list \<Rightarrow> i64 list" where
  "ref_ids s ch ids = remdups (map row_id (filter (\<lambda>r. ref_of ch r \<in> set ids) (rows_of s (rf_entity ch))))"

definition restrict_error :: "string \<Rightarrow> nat \<Rightarrow> reference \<Rightarrow> string" where
  "restrict_error e n ch = ''cannot delete '' @ e @ '': '' @ show_nat n @ '' row(s) in '' @ rf_entity ch
     @ ''.'' @ rf_field ch @ '' still reference it (on delete restrict)''"

text \<open>
  \<open>checkRestrict\<close>, with fuel for the depth of the cascade: \<open>None\<close> when it runs out,
  \<open>Some None\<close> when nothing restricts the delete, \<open>Some (Some e)\<close> the refusal.
\<close>

fun checkRestrict :: "nat \<Rightarrow> memstore \<Rightarrow> string \<Rightarrow> i64 list \<Rightarrow> string option option"
  and check_children :: "nat \<Rightarrow> memstore \<Rightarrow> string \<Rightarrow> i64 list \<Rightarrow> reference list \<Rightarrow> string option option" where
  "checkRestrict 0 s e ids = None"
| "checkRestrict (Suc n) s e ids = check_children n s e ids (children_of s e)"
| "check_children n s e ids [] = Some None"
| "check_children n s e ids (ch # chs) =
     (let rids = ref_ids s ch ids in
      if rids = [] then check_children n s e ids chs
      else if rf_on_delete ch = ''restrict'' then Some (Some (restrict_error e (length rids) ch))
      else if rf_on_delete ch = ''setNull'' then check_children n s e ids chs
      else case checkRestrict n s (rf_entity ch) rids of
             Some None \<Rightarrow> check_children n s e ids chs
           | r \<Rightarrow> r)"

definition remove_rows :: "string \<Rightarrow> i64 list \<Rightarrow> memstore \<Rightarrow> memstore" where
  "remove_rows e ids s = set_rows e (filter (\<lambda>r. row_id r \<notin> set ids) (rows_of s e)) s"

definition clear_refs :: "reference \<Rightarrow> i64 list \<Rightarrow> memstore \<Rightarrow> memstore" where
  "clear_refs ch ids s = set_rows (rf_entity ch)
     (map (\<lambda>r. if ref_of ch r \<in> set ids then alput r (rf_field ch) GNil else r) (rows_of s (rf_entity ch))) s"

fun deleteCascade :: "nat \<Rightarrow> string \<Rightarrow> i64 list \<Rightarrow> memstore \<Rightarrow> memstore option"
  and cascade_children :: "nat \<Rightarrow> i64 list \<Rightarrow> reference list \<Rightarrow> memstore \<Rightarrow> memstore option" where
  "deleteCascade 0 e ids s = None"
| "deleteCascade (Suc n) e ids s = cascade_children n ids (children_of s e) (remove_rows e ids s)"
| "cascade_children n ids [] s = Some s"
| "cascade_children n ids (ch # chs) s =
     (if rf_on_delete ch = ''setNull'' then cascade_children n ids chs (clear_refs ch ids s)
      else let cids = ref_ids s ch ids in
           if cids = [] then cascade_children n ids chs s
           else case deleteCascade n (rf_entity ch) cids s of
                  None \<Rightarrow> None
                | Some s' \<Rightarrow> cascade_children n ids chs s')"

text \<open>One more level than there are rows is enough for a cascade: each level removes a row.\<close>

definition total_rows :: "memstore \<Rightarrow> nat" where
  "total_rows s = sum_list (map (\<lambda>p. length (snd p)) (ms_rows s))"

definition delete_ids :: "nat \<Rightarrow> string \<Rightarrow> i64 list \<Rightarrow> memstore \<Rightarrow> (string + memstore) option" where
  "delete_ids n e ids s =
     (case checkRestrict n s e ids of
        None \<Rightarrow> None
      | Some (Some err) \<Rightarrow> Some (Inl err)
      | Some None \<Rightarrow> map_option Inr (deleteCascade (Suc (total_rows s)) e ids s))"

definition Delete :: "nat \<Rightarrow> string \<Rightarrow> gval \<Rightarrow> memstore \<Rightarrow> (string + memstore) option" where
  "Delete n e i s = delete_ids n e [toInt i] s"

definition Clear :: "nat \<Rightarrow> string \<Rightarrow> memstore \<Rightarrow> (string + memstore) option" where
  "Clear n e s = delete_ids n e (remdups (map row_id (rows_of s e))) s"

subsection \<open>Transactions\<close>

datatype tx_op = TxSave string row | TxDelete string gval | TxClear string

definition run_op :: "nat \<Rightarrow> tx_op \<Rightarrow> memstore \<Rightarrow> (string + memstore) option" where
  "run_op n op s = (case op of
     TxSave e r \<Rightarrow> Some (Inr (Save e r s))
   | TxDelete e i \<Rightarrow> Delete n e i s
   | TxClear e \<Rightarrow> Clear n e s)"

text \<open>\<open>Commit\<close>: the store as it is left, and the error that stopped it.\<close>

fun Commit :: "nat \<Rightarrow> tx_op list \<Rightarrow> memstore \<Rightarrow> (string option \<times> memstore) option" where
  "Commit n [] s = Some (None, s)"
| "Commit n (op # ops) s =
     (case run_op n op s of
        None \<Rightarrow> None
      | Some (Inl err) \<Rightarrow> Some (Some err, s)
      | Some (Inr s') \<Rightarrow> Commit n ops s')"

subsection \<open>Queries\<close>

record query =
  q_entity :: string
  q_where :: "expr option"
  q_item :: string
  q_order :: string
  q_desc :: bool
  q_limit :: i64
  q_after :: "i64 option"

definition row_scope :: "memstore \<Rightarrow> scope" where
  "row_scope s = map (\<lambda>(e, rs). (e, GList (map GRec rs))) (ms_rows s)"

text \<open>\<open>matching\<close>: the rows of an entity a predicate accepts, the item bound to each.\<close>

definition matching :: "ectx \<Rightarrow> query \<Rightarrow> memstore \<Rightarrow> row list" where
  "matching C q s = (case q_where q of
     None \<Rightarrow> rows_of s (q_entity q)
   | Some w \<Rightarrow> filter (\<lambda>r. truthy (eval C (alput (row_scope s) (q_item q) (GRec r)) w)) (rows_of s (q_entity q)))"

definition equalVals :: "gval \<Rightarrow> gval \<Rightarrow> bool" where
  "equalVals a b \<longleftrightarrow> toStr a = toStr b \<and> lessVal a b = lessVal b a"

definition query_less :: "string \<Rightarrow> row \<Rightarrow> row \<Rightarrow> bool" where
  "query_less order a b =
     (if order = [] then lt64 (row_id a) (row_id b)
      else if equalVals (field a order) (field b order) then lt64 (row_id a) (row_id b)
      else lessVal (field a order) (field b order))"

definition query_sort :: "query \<Rightarrow> row list \<Rightarrow> row list" where
  "query_sort q rows = stable_sort
     (\<lambda>a b. if q_desc q then \<not> query_less (q_order q) a b else query_less (q_order q) a b) rows"

text \<open>Past the row the cursor names; from the start when no row is it.\<close>

definition after_cursor :: "i64 option \<Rightarrow> row list \<Rightarrow> row list" where
  "after_cursor cur rows = (case cur of
     None \<Rightarrow> rows
   | Some i \<Rightarrow>
       (case dropWhile (\<lambda>r. row_id r \<noteq> i) rows of [] \<Rightarrow> rows | _ # rest \<Rightarrow> rest))"

definition page_limit :: "i64 \<Rightarrow> nat" where
  "page_limit n = (if le64 n 0 then 50 else nat (sint n))"

text \<open>
  \<open>Query\<close>: one page and the id the next page's cursor carries. (The cursor text also
  carries the order value, which this store does not read back.)
\<close>

definition page_of :: "nat \<Rightarrow> i64 option \<Rightarrow> row list \<Rightarrow> row list \<times> i64 option" where
  "page_of lim cur rows =
     (let page = take lim (after_cursor cur rows) in
      (page, if length page = lim then Some (row_id (last page)) else None))"

definition Query :: "ectx \<Rightarrow> query \<Rightarrow> memstore \<Rightarrow> row list \<times> i64 option" where
  "Query C q s = page_of (page_limit (q_limit q)) (q_after q) (query_sort q (matching C q s))"

definition Count :: "ectx \<Rightarrow> query \<Rightarrow> memstore \<Rightarrow> nat" where
  "Count C q s = length (matching C q s)"

definition asked :: "gval list \<Rightarrow> string list" where
  "asked vals = map toStr vals"

definition CountBy :: "ectx \<Rightarrow> query \<Rightarrow> string \<Rightarrow> gval list \<Rightarrow> memstore \<Rightarrow> (string \<times> nat) list" where
  "CountBy C q by vals s =
     fold (\<lambda>r out. let key = toStr (field r by) in
         if vals \<noteq> [] \<and> key \<notin> set (asked vals) then out
         else alput out key (Suc (case alget out key of None \<Rightarrow> 0 | Some n \<Rightarrow> n)))
       (matching C q s) (fold (\<lambda>k out. alput out k 0) (asked vals) [])"

definition Aggregate :: "ectx \<Rightarrow> query \<Rightarrow> string \<Rightarrow> string \<Rightarrow> memstore \<Rightarrow> i64" where
  "Aggregate C q fn f s = toInt (reduceAgg fn (map GRec (matching C q s)) (fieldValue f))"

definition AggregateBy ::
  "ectx \<Rightarrow> query \<Rightarrow> string \<Rightarrow> string \<Rightarrow> string \<Rightarrow> gval list \<Rightarrow> memstore \<Rightarrow> (string \<times> i64) list" where
  "AggregateBy C q fn f by vals s =
     (let grouped = fold (\<lambda>r g. let key = toStr (field r by) in
            if vals \<noteq> [] \<and> key \<notin> set (asked vals) then g
            else alput g key ((case alget g key of None \<Rightarrow> [] | Some rs \<Rightarrow> rs) @ [GRec r]))
          (matching C q s) []
      in fold (\<lambda>(key, rs) out. alput out key (toInt (reduceAgg fn rs (fieldValue f)))) grouped
           (fold (\<lambda>k out. alput out k 0) (asked vals) []))"

subsection \<open>Audit, sessions, jobs\<close>

definition Audit :: "audit_entry \<Rightarrow> memstore \<Rightarrow> memstore" where
  "Audit e s = s\<lparr>ms_audit := ms_audit s @ [e]\<rparr>"

definition RecentAudit :: "i64 \<Rightarrow> memstore \<Rightarrow> audit_entry list" where
  "RecentAudit lim s =
     (if lt64 0 lim \<and> sint lim < int (length (ms_audit s))
      then drop (length (ms_audit s) - nat (sint lim)) (ms_audit s) else ms_audit s)"

definition LoadSession :: "string \<Rightarrow> memstore \<Rightarrow> session option" where
  "LoadSession sid s = alget (ms_sessions s) sid"

definition SaveSession :: "string \<Rightarrow> session \<Rightarrow> memstore \<Rightarrow> memstore" where
  "SaveSession sid ps s = s\<lparr>ms_sessions := alput (ms_sessions s) sid ps\<rparr>"

definition UpdateSession :: "string \<Rightarrow> session \<Rightarrow> memstore \<Rightarrow> bool \<times> memstore" where
  "UpdateSession sid ps s =
     (if alget (ms_sessions s) sid = None then (False, s) else (True, SaveSession sid ps s))"

definition DeleteSession :: "string \<Rightarrow> memstore \<Rightarrow> memstore" where
  "DeleteSession sid s = s\<lparr>ms_sessions := aldel (ms_sessions s) sid\<rparr>"

definition RestateSessions :: "string \<Rightarrow> string \<Rightarrow> memstore \<Rightarrow> memstore" where
  "RestateSessions actor role s = s\<lparr>ms_sessions := map (\<lambda>(sid, ps).
     (sid, if se_actor ps = actor then ps\<lparr>se_role := role\<rparr> else ps)) (ms_sessions s)\<rparr>"

definition DeleteVisitorSessions :: "string \<Rightarrow> memstore \<Rightarrow> memstore" where
  "DeleteVisitorSessions visitor s =
     s\<lparr>ms_sessions := filter (\<lambda>(sid, ps). se_visitor ps \<noteq> visitor) (ms_sessions s)\<rparr>"

definition PurgeExpiredSessions :: "int \<Rightarrow> memstore \<Rightarrow> memstore" where
  "PurgeExpiredSessions nw s =
     s\<lparr>ms_sessions := filter (\<lambda>(sid, ps). \<not> se_expires ps < nw) (ms_sessions s)\<rparr>"

definition EnqueueJob :: "job \<Rightarrow> memstore \<Rightarrow> job \<times> memstore" where
  "EnqueueJob j s =
     (let i = ms_next_job s + 1;
          j' = j\<lparr>jb_id := i, jb_status := (if jb_status j = [] then ''pending'' else jb_status j)\<rparr>
      in (j', s\<lparr>ms_next_job := i, ms_jobs := ms_jobs s @ [j']\<rparr>))"

definition job_due :: "int \<Rightarrow> job \<Rightarrow> bool" where
  "job_due nw j \<longleftrightarrow> jb_status j = ''pending'' \<and> jb_run_at j \<le> nw"

fun claim_loop :: "int \<Rightarrow> job list \<Rightarrow> job option \<times> job list" where
  "claim_loop nw [] = (None, [])"
| "claim_loop nw (j # js) =
     (if job_due nw j then (Some (j\<lparr>jb_status := ''running''\<rparr>), j\<lparr>jb_status := ''running''\<rparr> # js)
      else case claim_loop nw js of (r, js') \<Rightarrow> (r, j # js'))"

definition ClaimJob :: "int \<Rightarrow> memstore \<Rightarrow> job option \<times> memstore" where
  "ClaimJob nw s = (case claim_loop nw (ms_jobs s) of (r, js) \<Rightarrow> (r, s\<lparr>ms_jobs := js\<rparr>))"

definition finish_one :: "string \<Rightarrow> string \<Rightarrow> int \<Rightarrow> job \<Rightarrow> job" where
  "finish_one status err nxt j =
     (let j' = j\<lparr>jb_status := status, jb_error := err, jb_run_at := nxt\<rparr> in
      if status = ''retry'' then j'\<lparr>jb_status := ''pending'', jb_attempts := Suc (jb_attempts j)\<rparr> else j')"

fun finish_loop :: "i64 \<Rightarrow> string \<Rightarrow> string \<Rightarrow> int \<Rightarrow> job list \<Rightarrow> job list" where
  "finish_loop i status err nxt [] = []"
| "finish_loop i status err nxt (j # js) =
     (if jb_id j = i then finish_one status err nxt j # js else j # finish_loop i status err nxt js)"

definition FinishJob :: "i64 \<Rightarrow> string \<Rightarrow> string \<Rightarrow> int \<Rightarrow> memstore \<Rightarrow> memstore" where
  "FinishJob i status err nxt s = s\<lparr>ms_jobs := finish_loop i status err nxt (ms_jobs s)\<rparr>"

definition PendingJobs :: "memstore \<Rightarrow> nat" where
  "PendingJobs s = length (filter (\<lambda>j. jb_status j = ''pending'') (ms_jobs s))"

definition ReserveCron :: "string \<Rightarrow> int \<Rightarrow> memstore \<Rightarrow> bool \<times> memstore" where
  "ReserveCron name nxt s =
     (case alget (ms_crons s) name of
        Some due \<Rightarrow> if nxt < due then (False, s) else (True, s\<lparr>ms_crons := alput (ms_crons s) name nxt\<rparr>)
      | None \<Rightarrow> (True, s\<lparr>ms_crons := alput (ms_crons s) name nxt\<rparr>))"

end
