(* ===== verification/StoreLaws.thy ===== *)
theory StoreLaws
  imports MemStore
begin

text \<open>
  What the in-memory store promises: a delete keeps every surviving reference live and
  removes nothing a \<open>@restrict\<close> relation points at, cascades end, paging enumerates the
  matching rows once each, and a claimed job is claimed by one worker.
\<close>

subsection \<open>Reading back what was written\<close>

lemma rows_of_set_rows [simp]: "rows_of (set_rows e rs s) q = (if q = e then rs else rows_of s q)"
  by (simp add: rows_of_def set_rows_def)

lemma children_of_set_rows [simp]: "children_of (set_rows e rs s) q = children_of s q"
  by (simp add: children_of_def set_rows_def)

definition get_row :: "string \<Rightarrow> memstore \<Rightarrow> i64 \<Rightarrow> row option" where
  "get_row e s i = find (\<lambda>r. row_id r = i) (rows_of s e)"

text \<open>An entity's rows as a keyed store: what a save promises the next read.\<close>

locale row_store =
  fixes get :: "'s \<Rightarrow> 'k \<Rightarrow> 'v option" and put :: "'v \<Rightarrow> 's \<Rightarrow> 's" and key :: "'v \<Rightarrow> 'k"
  assumes get_put: "get (put v s) k = (if k = key v then Some v else get s k)"
begin

lemma get_puts_absent: "k \<notin> key ` set vs \<Longrightarrow> get (fold put vs s) k = get s k"
  by (induction vs arbitrary: s) (simp_all add: get_put)

text \<open>The last write to a key is the one that is read.\<close>

lemma get_puts_last: "key v \<notin> key ` set ws \<Longrightarrow> get (fold put (vs @ v # ws) s) (key v) = Some v"
  by (simp add: get_puts_absent get_put)

end

lemma find_save_rows: "find (\<lambda>x. row_id x = i) (save_rows r rs)
    = (if i = row_id r then Some r else find (\<lambda>x. row_id x = i) rs)"
  by (induction r rs rule: save_rows.induct) auto

interpretation mem_rows: row_store "get_row e" "Save e" row_id for e
  by unfold_locales (simp add: get_row_def Save_def find_save_rows)

text \<open>
  what was saved last under an id is what the store reads back, whatever was saved
  under other ids before and since, and rows of other ids are untouched.
\<close>

theorem Save_reads_back:
  assumes "row_id r \<notin> row_id ` set later"
  shows "get_row e (fold (Save e) (earlier @ r # later) s) (row_id r) = Some r"
  using assms by (rule mem_rows.get_puts_last)

theorem Save_reads_back_witness:
  "get_row ''T'' (fold (Save ''T'') ([[(''id'', GInt 1)]] @ [(''id'', GInt 1), (''a'', GInt 7)] # [[(''id'', GInt 2)]])
      newMemStore) (row_id [(''id'', GInt 1), (''a'', GInt 7)]) = Some [(''id'', GInt 1), (''a'', GInt 7)]"
  by (rule Save_reads_back) (simp add: row_id_def field_def)

lemma ids_save_rows: "row_id ` set (save_rows r rs) = insert (row_id r) (row_id ` set rs)"
  by (induction r rs rule: save_rows.induct) auto

lemma distinct_save_rows: "distinct (map row_id rs) \<Longrightarrow> distinct (map row_id (save_rows r rs))"
proof (induction r rs rule: save_rows.induct)
  case (2 r x xs)
  then show ?case
    using ids_save_rows [of r xs] by auto
qed simp

subsection \<open>Deletes keep references live\<close>

definition ids :: "memstore \<Rightarrow> string \<Rightarrow> i64 set" where
  "ids s e = row_id ` set (rows_of s e)"

text \<open>No relation's column is the id itself.\<close>

definition graph_ok :: "memstore \<Rightarrow> bool" where
  "graph_ok s \<longleftrightarrow> (\<forall>e. \<forall>ch \<in> set (children_of s e). rf_field ch \<noteq> ''id'')"

definition from_row :: "row \<Rightarrow> row \<Rightarrow> bool" where
  "from_row r r' \<longleftrightarrow> row_id r' = row_id r \<and> (\<forall>f. field r' f = field r f \<or> field r' f = GNil)"

definition shrunk :: "memstore \<Rightarrow> memstore \<Rightarrow> bool" where
  "shrunk s s' \<longleftrightarrow> (\<forall>e. children_of s' e = children_of s e)
     \<and> (\<forall>e. \<forall>r' \<in> set (rows_of s' e). \<exists>r \<in> set (rows_of s e). from_row r r')"

lemma from_row_refl [simp]: "from_row r r"
  by (simp add: from_row_def)

lemma from_row_trans: "from_row a b \<Longrightarrow> from_row b c \<Longrightarrow> from_row a c"
  unfolding from_row_def by metis

lemma shrunk_refl [simp]: "shrunk s s"
  by (auto simp: shrunk_def intro!: bexI)

lemma shrunk_trans: "shrunk a b \<Longrightarrow> shrunk b c \<Longrightarrow> shrunk a c"
  unfolding shrunk_def by (metis from_row_trans)

lemma from_row_ref: "from_row r r' \<Longrightarrow> ref_of ch r' = ref_of ch r \<or> ref_of ch r' = 0"
  unfolding from_row_def ref_of_def by (metis toInt.simps(7))

lemma shrunk_row:
  assumes "shrunk s s'" "r' \<in> set (rows_of s' e)"
  obtains r where "r \<in> set (rows_of s e)" "row_id r' = row_id r" "ref_of ch r' = ref_of ch r \<or> ref_of ch r' = 0"
proof -
  obtain r where "r \<in> set (rows_of s e)" "from_row r r'"
    using assms unfolding shrunk_def by blast
  then show thesis using that from_row_ref [of r r' ch] by (auto simp: from_row_def)
qed

lemma shrunk_ids: "shrunk s s' \<Longrightarrow> ids s' e \<subseteq> ids s e"
  unfolding ids_def shrunk_def from_row_def by fastforce

lemma shrunk_graph: "shrunk s s' \<Longrightarrow> graph_ok s \<Longrightarrow> graph_ok s'"
  by (simp add: shrunk_def graph_ok_def)

lemma shrunkI:
  "(\<And>e. children_of s' e = children_of s e) \<Longrightarrow>
   (\<And>e r'. r' \<in> set (rows_of s' e) \<Longrightarrow> \<exists>r \<in> set (rows_of s e). from_row r r') \<Longrightarrow> shrunk s s'"
  by (simp add: shrunk_def)

lemma shrunk_remove: "shrunk s (remove_rows e xs s)"
proof (rule shrunkI)
  fix q r' assume "r' \<in> set (rows_of (remove_rows e xs s) q)"
  then have "r' \<in> set (rows_of s q)" by (auto simp: remove_rows_def split: if_splits)
  then show "\<exists>r \<in> set (rows_of s q). from_row r r'" using from_row_refl by blast
qed (simp add: remove_rows_def)

lemma from_row_clear: "f \<noteq> ''id'' \<Longrightarrow> from_row r (alput r f GNil)"
  by (simp add: from_row_def row_id_def)

definition clear_row :: "reference \<Rightarrow> i64 list \<Rightarrow> row \<Rightarrow> row" where
  "clear_row ch xs r = (if ref_of ch r \<in> set xs then alput r (rf_field ch) GNil else r)"

lemma rows_clear: "rows_of (clear_refs ch xs s) e =
    (if e = rf_entity ch then map (clear_row ch xs) (rows_of s e) else rows_of s e)"
  by (simp add: clear_refs_def clear_row_def [abs_def])

lemma from_row_clear_row: "rf_field ch \<noteq> ''id'' \<Longrightarrow> from_row r (clear_row ch xs r)"
  by (simp add: clear_row_def from_row_clear)

lemma shrunk_clear: "rf_field ch \<noteq> ''id'' \<Longrightarrow> shrunk s (clear_refs ch xs s)"
proof (rule shrunkI)
  fix e r' assume f: "rf_field ch \<noteq> ''id''" and r: "r' \<in> set (rows_of (clear_refs ch xs s) e)"
  show "\<exists>r \<in> set (rows_of s e). from_row r r'"
  proof (cases "e = rf_entity ch")
    case True
    then obtain r where "r \<in> set (rows_of s e)" "r' = clear_row ch xs r" using r by (auto simp: rows_clear)
    then show ?thesis using from_row_clear_row [OF f] by blast
  next
    case False
    then have "r' \<in> set (rows_of s e)" using r by (simp add: rows_clear)
    then show ?thesis by (intro bexI [of _ r']) simp_all
  qed
qed (simp add: clear_refs_def)

lemma ids_clear: "rf_field ch \<noteq> ''id'' \<Longrightarrow> ids (clear_refs ch xs s) e = ids s e"
proof -
  assume "rf_field ch \<noteq> ''id''"
  then have "row_id (clear_row ch xs r) = row_id r" for r
    using from_row_clear_row by (simp add: from_row_def)
  then show ?thesis by (simp add: ids_def rows_clear image_image)
qed

lemma ids_remove: "ids (remove_rows e xs s) q = (if q = e then ids s q - set xs else ids s q)"
  by (auto simp: ids_def remove_rows_def)

text \<open>No row is left pointing at a row that went.\<close>

definition no_dangling :: "memstore \<Rightarrow> memstore \<Rightarrow> bool" where
  "no_dangling s s' \<longleftrightarrow> (\<forall>e x. x \<in> ids s e \<and> x \<notin> ids s' e \<and> x \<noteq> 0 \<longrightarrow>
     (\<forall>ch \<in> set (children_of s e). \<forall>r \<in> set (rows_of s' (rf_entity ch)). ref_of ch r \<noteq> x))"

lemma no_dangling_refl [simp]: "no_dangling s s"
  by (auto simp: no_dangling_def)

lemma no_ref_shrunk:
  assumes "shrunk s s'" "\<forall>r \<in> set (rows_of s e). ref_of ch r \<noteq> x" "x \<noteq> 0"
  shows "\<forall>r \<in> set (rows_of s' e). ref_of ch r \<noteq> x"
  using assms shrunk_row [OF assms(1), of _ e ch] by metis

lemma no_dangling_trans:
  assumes "no_dangling a b" "no_dangling b c" "shrunk a b" "shrunk b c"
  shows "no_dangling a c"
  unfolding no_dangling_def
proof (intro allI impI ballI)
  fix e x ch r
  assume x: "x \<in> ids a e \<and> x \<notin> ids c e \<and> x \<noteq> 0" and ch: "ch \<in> set (children_of a e)"
    and r: "r \<in> set (rows_of c (rf_entity ch))"
  have ch': "ch \<in> set (children_of b e)" using ch assms(3) by (simp add: shrunk_def)
  show "ref_of ch r \<noteq> x"
  proof (cases "x \<in> ids b e")
    case True
    then show ?thesis using assms(2) x ch' r by (auto simp: no_dangling_def)
  next
    case False
    then have "\<forall>r \<in> set (rows_of b (rf_entity ch)). ref_of ch r \<noteq> x"
      using assms(1) x ch by (auto simp: no_dangling_def)
    then show ?thesis using no_ref_shrunk [OF assms(4)] x r by blast
  qed
qed

lemma ref_ids_Nil: "ref_ids s ch xs = [] \<longleftrightarrow> (\<forall>r \<in> set (rows_of s (rf_entity ch)). ref_of ch r \<notin> set xs)"
  by (auto simp: ref_ids_def filter_empty_conv)

lemma set_ref_ids: "set (ref_ids s ch xs) = row_id ` {r \<in> set (rows_of s (rf_entity ch)). ref_of ch r \<in> set xs}"
  by (auto simp: ref_ids_def)

definition unreferenced :: "memstore \<Rightarrow> reference list \<Rightarrow> i64 list \<Rightarrow> bool" where
  "unreferenced s chs xs \<longleftrightarrow>
     (\<forall>ch \<in> set chs. \<forall>r \<in> set (rows_of s (rf_entity ch)). ref_of ch r \<in> set xs \<longrightarrow> ref_of ch r = 0)"

lemma unreferenced_shrunk: "shrunk s s' \<Longrightarrow> unreferenced s chs xs \<Longrightarrow> unreferenced s' chs xs"
  unfolding unreferenced_def by (metis shrunk_row)

lemma cascade_integrity:
  "deleteCascade n e xs s = Some s' \<Longrightarrow> graph_ok s \<Longrightarrow>
     shrunk s s' \<and> no_dangling s s' \<and> ids s' e \<inter> set xs = {}"
  "cascade_children n xs chs s = Some s' \<Longrightarrow> graph_ok s \<Longrightarrow> \<forall>ch \<in> set chs. rf_field ch \<noteq> ''id'' \<Longrightarrow>
     shrunk s s' \<and> no_dangling s s' \<and> unreferenced s' chs xs"
proof (induction n e xs s and n xs chs s arbitrary: s' and s' rule: deleteCascade_cascade_children.induct)
  case (1 e ids s)
  then show ?case by simp
next
  case (2 n e xs s)
  let ?s = "remove_rows e xs s"
  have sh: "shrunk s ?s" by (rule shrunk_remove)
  then have g: "graph_ok ?s" "\<forall>ch \<in> set (children_of s e). rf_field ch \<noteq> ''id''"
    using 2(3) shrunk_graph by (auto simp: graph_ok_def)
  then have ih: "shrunk ?s s'" "no_dangling ?s s'" "unreferenced s' (children_of s e) xs"
    using 2(1,2) by auto
  have "no_dangling s s'"
    unfolding no_dangling_def
  proof (intro allI impI ballI)
    fix q x ch r
    assume x: "x \<in> ids s q \<and> x \<notin> ids s' q \<and> x \<noteq> 0" and ch: "ch \<in> set (children_of s q)"
      and r: "r \<in> set (rows_of s' (rf_entity ch))"
    show "ref_of ch r \<noteq> x"
    proof (cases "x \<in> ids ?s q")
      case True
      then show ?thesis using ih(2) x ch r sh by (auto simp: no_dangling_def shrunk_def)
    next
      case False
      then have "q = e \<and> x \<in> set xs" using x by (auto simp: ids_remove split: if_splits)
      then show ?thesis using ih(3) ch r x by (auto simp: unreferenced_def)
    qed
  qed
  moreover have "ids s' e \<inter> set xs = {}"
    using shrunk_ids [OF ih(1), of e] by (auto simp: ids_remove)
  ultimately show ?case using shrunk_trans [OF sh ih(1)] by blast
next
  case (3 n ids s)
  then show ?case by (simp add: unreferenced_def)
next
  case (4 n xs ch chs s)
  have f: "rf_field ch \<noteq> ''id''" and fs: "\<forall>ch \<in> set chs. rf_field ch \<noteq> ''id''"
    using 4(7) by simp_all
  consider (null) "rf_on_delete ch = ''setNull''"
    | (none) "rf_on_delete ch \<noteq> ''setNull''" "ref_ids s ch xs = []"
    | (casc) "rf_on_delete ch \<noteq> ''setNull''" "ref_ids s ch xs \<noteq> []" by blast
  then show ?case
  proof cases
    case null
    let ?s = "clear_refs ch xs s"
    have sh: "shrunk s ?s" using f by (rule shrunk_clear)
    have ih: "shrunk ?s s' \<and> no_dangling ?s s' \<and> unreferenced s' chs xs"
      using 4(1) [OF null _ shrunk_graph [OF sh 4(6)] fs] 4(5) null by simp
    have "unreferenced ?s [ch] xs"
      by (auto simp: unreferenced_def rows_clear clear_row_def ref_of_def)
    then have "unreferenced s' [ch] xs" using ih unreferenced_shrunk by blast
    moreover have "no_dangling s ?s" by (auto simp: no_dangling_def ids_clear [OF f])
    ultimately show ?thesis
      using ih sh shrunk_trans no_dangling_trans by (fastforce simp: unreferenced_def)
  next
    case none
    have ih: "shrunk s s' \<and> no_dangling s s' \<and> unreferenced s' chs xs"
      using 4(2) [OF none(1) refl none(2) _ 4(6) fs] 4(5) none by simp
    have "unreferenced s [ch] xs" using none(2) by (auto simp: unreferenced_def ref_ids_Nil)
    then have "unreferenced s' [ch] xs" using ih unreferenced_shrunk by blast
    then show ?thesis using ih by (simp add: unreferenced_def)
  next
    case casc
    let ?c = "ref_ids s ch xs"
    obtain s1 where s1: "deleteCascade n (rf_entity ch) ?c s = Some s1" "cascade_children n xs chs s1 = Some s'"
      using 4(5) casc by (auto simp: Let_def split: option.splits)
    have ih1: "shrunk s s1 \<and> no_dangling s s1 \<and> ids s1 (rf_entity ch) \<inter> set ?c = {}"
      using 4(3) [OF casc(1) refl casc(2) s1(1) 4(6)] .
    have ih2: "shrunk s1 s' \<and> no_dangling s1 s' \<and> unreferenced s' chs xs"
      using 4(4) [OF casc(1) refl casc(2) s1 shrunk_graph fs] ih1 4(6) by blast
    have "unreferenced s1 [ch] xs"
      unfolding unreferenced_def
    proof (intro ballI impI)
      fix c r assume c: "c \<in> set [ch]" and r: "r \<in> set (rows_of s1 (rf_entity c))" "ref_of c r \<in> set xs"
      then have r1: "r \<in> set (rows_of s1 (rf_entity ch))" by simp
      then obtain r0 where r0: "r0 \<in> set (rows_of s (rf_entity ch))" "row_id r = row_id r0"
        "ref_of ch r = ref_of ch r0 \<or> ref_of ch r = 0"
        using ih1 shrunk_row [of s s1 r "rf_entity ch" ch] by metis
      show "ref_of c r = 0"
      proof (rule ccontr)
        assume "ref_of c r \<noteq> 0"
        then have "ref_of ch r0 \<in> set xs" using r0(3) r(2) c by simp
        then have "row_id r \<in> set ?c" using r0 by (auto simp: set_ref_ids)
        then show False using ih1 r1 by (auto simp: ids_def)
      qed
    qed
    then have "unreferenced s' [ch] xs" using ih2 unreferenced_shrunk by blast
    then show ?thesis
      using ih1 ih2 shrunk_trans no_dangling_trans by (fastforce simp: unreferenced_def)
  qed
qed

subsection \<open>The cascade ends\<close>

lemma sum_alput: "sum_list (map (\<lambda>p. length (snd p)) (alput m e rs)) + (case alget m e of None \<Rightarrow> 0 | Some xs \<Rightarrow> length xs)
    = sum_list (map (\<lambda>p. length (snd p)) m) + length rs"
  by (induction m e rs rule: alput.induct) auto

lemma total_set_rows: "total_rows (set_rows e rs s) + length (rows_of s e) = total_rows s + length rs"
  using sum_alput [of "ms_rows s" e rs]
  by (simp add: total_rows_def set_rows_def rows_of_def split: option.splits)

lemma total_remove_le: "total_rows (remove_rows e xs s) \<le> total_rows s"
  using total_set_rows [of e "filter (\<lambda>r. row_id r \<notin> set xs) (rows_of s e)" s]
    length_filter_le [of "\<lambda>r. row_id r \<notin> set xs" "rows_of s e"]
  unfolding remove_rows_def by linarith

lemma total_remove_less: "x \<in> ids s e \<Longrightarrow> x \<in> set xs \<Longrightarrow> total_rows (remove_rows e xs s) < total_rows s"
proof -
  assume "x \<in> ids s e" "x \<in> set xs"
  then have "length (filter (\<lambda>r. row_id r \<notin> set xs) (rows_of s e)) < length (rows_of s e)"
    by (auto simp: ids_def intro!: length_filter_less)
  then show ?thesis
    using total_set_rows [of e "filter (\<lambda>r. row_id r \<notin> set xs) (rows_of s e)" s]
    by (simp add: remove_rows_def)
qed

lemma total_clear [simp]: "total_rows (clear_refs ch xs s) = total_rows s"
proof -
  have "total_rows (set_rows (rf_entity ch) (map f (rows_of s (rf_entity ch))) s) = total_rows s" for f
    using total_set_rows [of "rf_entity ch" "map f (rows_of s (rf_entity ch))" s] by simp
  then show ?thesis by (simp add: clear_refs_def)
qed

lemma cascade_enough:
  "total_rows (remove_rows e xs s) < n \<Longrightarrow>
     \<exists>s'. deleteCascade n e xs s = Some s' \<and> total_rows s' \<le> total_rows (remove_rows e xs s)"
  "total_rows s \<le> n \<Longrightarrow> \<exists>s'. cascade_children n xs chs s = Some s' \<and> total_rows s' \<le> total_rows s"
proof (induction n e xs s and n xs chs s rule: deleteCascade_cascade_children.induct)
  case (4 n xs ch chs s)
  show ?case
  proof (cases "rf_on_delete ch = ''setNull'' \<or> ref_ids s ch xs = []")
    case True
    then show ?thesis using 4(1,2,5) by (auto simp: Let_def)
  next
    case False
    let ?c = "ref_ids s ch xs"
    obtain x where x: "x \<in> set ?c" using False by (cases ?c) auto
    then have "x \<in> ids s (rf_entity ch)" by (auto simp: set_ref_ids ids_def)
    then have lt: "total_rows (remove_rows (rf_entity ch) ?c s) < total_rows s"
      using x by (rule total_remove_less)
    then obtain s1 where s1: "deleteCascade n (rf_entity ch) ?c s = Some s1" "total_rows s1 \<le> total_rows s"
      using 4(3) 4(5) False by (metis le_trans less_imp_le less_le_trans)
    then obtain s' where "cascade_children n xs chs s1 = Some s'" "total_rows s' \<le> total_rows s1"
      using 4(4) 4(5) False by (metis le_trans)
    then show ?thesis using False s1 by (auto simp: Let_def)
  qed
qed auto

text \<open>\<open>Delete\<close> is never left without an answer by its second phase.\<close>

lemma delete_phase_ends: "\<exists>s'. deleteCascade (Suc (total_rows s)) e xs s = Some s'"
  using cascade_enough(1) [of e xs s "Suc (total_rows s)"] total_remove_le [of e xs s] by auto

subsection \<open>What a delete promises\<close>

text \<open>Every reference points at a live row, or nowhere (0).\<close>

definition refs_live :: "memstore \<Rightarrow> bool" where
  "refs_live s \<longleftrightarrow> (\<forall>e. \<forall>ch \<in> set (children_of s e). \<forall>r \<in> set (rows_of s (rf_entity ch)).
     ref_of ch r = 0 \<or> ref_of ch r \<in> ids s e)"

lemma delete_ids_cascade:
  "delete_ids n e xs s = Some (Inr s') \<Longrightarrow>
     checkRestrict n s e xs = Some None \<and> deleteCascade (Suc (total_rows s)) e xs s = Some s'"
  by (auto simp: delete_ids_def split: option.splits)

lemma integrity_step:
  assumes "shrunk s s'" "no_dangling s s'" "refs_live s"
  shows "refs_live s'"
  unfolding refs_live_def
proof (intro allI ballI)
  fix e ch r assume ch: "ch \<in> set (children_of s' e)" and r: "r \<in> set (rows_of s' (rf_entity ch))"
  have ch0: "ch \<in> set (children_of s e)" using ch assms(1) by (simp add: shrunk_def)
  obtain r0 where r0: "r0 \<in> set (rows_of s (rf_entity ch))" "ref_of ch r = ref_of ch r0 \<or> ref_of ch r = 0"
    using shrunk_row [OF assms(1) r, of ch] by metis
  show "ref_of ch r = 0 \<or> ref_of ch r \<in> ids s' e"
  proof (rule ccontr)
    assume n: "\<not> (ref_of ch r = 0 \<or> ref_of ch r \<in> ids s' e)"
    then have "ref_of ch r \<in> ids s e" using r0 assms(3) ch0 by (auto simp: refs_live_def)
    then show False using assms(2) n ch0 r by (auto simp: no_dangling_def)
  qed
qed

text \<open>
  C19: a delete, or a clear, that goes through leaves no reference to a row that is gone: if
  every reference pointed at a live row (or nowhere) before, every reference does after,
  through every level of cascade and whichever relations clear instead.
\<close>

theorem delete_keeps_references_live:
  assumes "delete_ids n e xs s = Some (Inr s')" "graph_ok s" "refs_live s"
  shows "refs_live s' \<and> ids s' e \<inter> set xs = {}"
  using cascade_integrity(1) delete_ids_cascade [OF assms(1)] integrity_step assms(2,3) by blast

definition ex_store :: memstore where
  "ex_store = Init [\<lparr>en_name = ''P'', en_soft_delete = False, en_ephemeral = False, en_fields = [],
       en_read = None, en_derives = []\<rparr>,
     \<lparr>en_name = ''C'', en_soft_delete = False, en_ephemeral = False,
       en_fields = [\<lparr>fd_name = ''p'', fd_type = ''int'', fd_ref = ''P'', fd_enum = [], fd_index = True,
         fd_secret = False, fd_e2e = False, fd_password = False, fd_read_policy = [], fd_optional = False,
         fd_unique = False, fd_required = False, fd_min = None, fd_max = None, fd_matches = [],
         fd_on_delete = []\<rparr>],
       en_read = None, en_derives = []\<rparr>]
     newMemStore"

definition ex_rows :: memstore where
  "ex_rows = Save ''C'' [(''id'', GInt 7), (''p'', GInt 1)] (Save ''P'' [(''id'', GInt 1)] ex_store)"

lemma ex_rows_eq: "ms_rows ex_rows = [(''P'', [[(''id'', GInt 1)]]), (''C'', [[(''id'', GInt 7), (''p'', GInt 1)]])]"
  "ms_children ex_rows = [(''P'', [\<lparr>rf_entity = ''C'', rf_field = ''p'', rf_parent = ''P'', rf_on_delete = []\<rparr>])]"
  by (simp_all add: ex_rows_def ex_store_def Init_def newMemStore_def Save_def set_rows_def rows_of_def
      sortedEntities_def stable_sort_def References_def IsRelation_def add_child_def List.map_filter_simps
      row_id_def field_def)

lemma ex_rows_tables:
  "children_of ex_rows e = (if e = ''P'' then [\<lparr>rf_entity = ''C'', rf_field = ''p'', rf_parent = ''P'', rf_on_delete = []\<rparr>] else [])"
  "rows_of ex_rows e = (if e = ''P'' then [[(''id'', GInt 1)]] else
     if e = ''C'' then [[(''id'', GInt 7), (''p'', GInt 1)]] else [])"
  by (simp_all add: children_of_def rows_of_def ex_rows_eq)

theorem delete_keeps_references_live_witness:
  "\<exists>s'. delete_ids 5 ''P'' [1] ex_rows = Some (Inr s') \<and> refs_live s' \<and> ids s' ''P'' \<inter> set [1] = {}"
proof -
  have "checkRestrict 5 ex_rows ''P'' [1] = Some None"
    by (simp add: numeral_eq_Suc ex_rows_tables ref_ids_def ref_of_def field_def Let_def row_id_def)
  then obtain s' where s': "delete_ids 5 ''P'' [1] ex_rows = Some (Inr s')"
    using delete_phase_ends [of ex_rows "''P''" "[1]"] by (auto simp: delete_ids_def)
  have "graph_ok ex_rows" "refs_live ex_rows"
    by (auto simp: graph_ok_def refs_live_def ex_rows_tables ref_of_def field_def ids_def row_id_def)
  then show ?thesis using delete_keeps_references_live [OF s'] s' by blast
qed

subsection \<open>Restricted relations\<close>

text \<open>No row of a \<open>@restrict\<close> relation points at the id.\<close>

definition unrestricted :: "memstore \<Rightarrow> string \<Rightarrow> i64 \<Rightarrow> bool" where
  "unrestricted s e x \<longleftrightarrow> (\<forall>ch \<in> set (children_of s e). rf_on_delete ch = ''restrict'' \<longrightarrow>
     (\<forall>r \<in> set (rows_of s (rf_entity ch)). ref_of ch r \<noteq> x))"

lemma ref_ids_mono: "set xs \<subseteq> set ys \<Longrightarrow> set (ref_ids s ch xs) \<subseteq> set (ref_ids s ch ys)"
  by (auto simp: set_ref_ids)

lemma check_mono:
  "checkRestrict n s e ys = Some None \<Longrightarrow> set xs \<subseteq> set ys \<Longrightarrow> checkRestrict n s e xs = Some None"
  "check_children n s e ys chs = Some None \<Longrightarrow> set xs \<subseteq> set ys \<Longrightarrow> check_children n s e xs chs = Some None"
proof (induction n s e ys and n s e ys chs arbitrary: xs and xs rule: checkRestrict_check_children.induct)
  case (4 n s e ys ch chs)
  have sub: "set (ref_ids s ch xs) \<subseteq> set (ref_ids s ch ys)" using 4(6) by (rule ref_ids_mono)
  show ?case
  proof (cases "ref_ids s ch xs = []")
    case True
    show ?thesis
    proof (cases "ref_ids s ch ys = [] \<or> rf_on_delete ch = ''restrict'' \<or> rf_on_delete ch = ''setNull''")
      case t: True
      then have "check_children n s e xs chs = Some None"
        using 4(1,2,5,6) by (auto simp: Let_def split: if_splits)
      then show ?thesis using True by simp
    next
      case False
      then have "check_children n s e ys chs = Some None"
        using 4(5) by (auto simp: Let_def split: option.splits)
      moreover from this have "checkRestrict n s (rf_entity ch) (ref_ids s ch ys) = Some None"
        using 4(5) False by (auto simp: Let_def split: option.splits)
      ultimately have "check_children n s e xs chs = Some None" using 4(4) False 4(6) by auto
      then show ?thesis using True by simp
    qed
  next
    case False
    then have y: "ref_ids s ch ys \<noteq> []" using sub by auto
    then have nr: "rf_on_delete ch \<noteq> ''restrict''" using 4(5) by (auto simp: Let_def)
    show ?thesis
    proof (cases "rf_on_delete ch = ''setNull''")
      case True
      then show ?thesis using 4(2) [OF refl y nr True] 4(5,6) y by (simp add: Let_def)
    next
      case c: False
      then have a: "checkRestrict n s (rf_entity ch) (ref_ids s ch ys) = Some None"
        "check_children n s e ys chs = Some None"
        using 4(5) y nr by (auto simp: Let_def split: option.splits)
      then have "checkRestrict n s (rf_entity ch) (ref_ids s ch xs) = Some None"
        using 4(3) [OF refl y nr c] sub by blast
      moreover have "check_children n s e xs chs = Some None" using 4(4) [OF refl y nr c] a 4(6) by auto
      ultimately show ?thesis using False nr c by (simp add: Let_def)
    qed
  qed
qed simp_all

lemma check_children_parts:
  "check_children n s e xs chs = Some None \<Longrightarrow> ch \<in> set chs \<Longrightarrow>
     (rf_on_delete ch = ''restrict'' \<longrightarrow> ref_ids s ch xs = []) \<and>
     (rf_on_delete ch \<noteq> ''restrict'' \<and> rf_on_delete ch \<noteq> ''setNull'' \<and> ref_ids s ch xs \<noteq> [] \<longrightarrow>
        checkRestrict n s (rf_entity ch) (ref_ids s ch xs) = Some None)"
proof (induction chs)
  case (Cons c chs)
  have "check_children n s e xs chs = Some None"
    using Cons.prems(1) by (auto simp: Let_def split: if_splits option.splits)
  with Cons show ?case by (auto simp: Let_def split: if_splits option.splits)
qed simp

text \<open>No row is numbered 0, the value an absent reference reads as.\<close>

definition ids_nonzero :: "memstore \<Rightarrow> bool" where
  "ids_nonzero s \<longleftrightarrow> (\<forall>e. 0 \<notin> ids s e)"

definition removed_unrestricted :: "memstore \<Rightarrow> memstore \<Rightarrow> memstore \<Rightarrow> bool" where
  "removed_unrestricted s0 s s' \<longleftrightarrow> (\<forall>e x. x \<in> ids s e \<and> x \<notin> ids s' e \<longrightarrow> unrestricted s0 e x)"

lemma removed_trans:
  "removed_unrestricted s0 a b \<Longrightarrow> removed_unrestricted s0 b c \<Longrightarrow> removed_unrestricted s0 a c"
  unfolding removed_unrestricted_def by blast

lemma ref_ids_shrunk:
  assumes "shrunk s0 s" "0 \<notin> set xs"
  shows "set (ref_ids s ch xs) \<subseteq> set (ref_ids s0 ch xs)"
proof
  fix i assume "i \<in> set (ref_ids s ch xs)"
  then obtain r where r: "r \<in> set (rows_of s (rf_entity ch))" "ref_of ch r \<in> set xs" "i = row_id r"
    by (auto simp: set_ref_ids)
  obtain r0 where r0: "r0 \<in> set (rows_of s0 (rf_entity ch))" "row_id r = row_id r0"
    "ref_of ch r = ref_of ch r0 \<or> ref_of ch r = 0"
    using shrunk_row [OF assms(1) r(1), of ch] by metis
  then have "ref_of ch r0 \<in> set xs" using r(2) assms(2) by auto
  then show "i \<in> set (ref_ids s0 ch xs)" using r0 r(3) by (auto simp: set_ref_ids)
qed

lemma cascade_unrestricted:
  "deleteCascade n e xs s = Some s' \<Longrightarrow> shrunk s0 s \<Longrightarrow> graph_ok s0 \<Longrightarrow> ids_nonzero s0 \<Longrightarrow> 0 \<notin> set xs \<Longrightarrow>
     checkRestrict m s0 e xs = Some None \<Longrightarrow> removed_unrestricted s0 s s'"
  "cascade_children n xs chs s = Some s' \<Longrightarrow> shrunk s0 s \<Longrightarrow> graph_ok s0 \<Longrightarrow> ids_nonzero s0 \<Longrightarrow> 0 \<notin> set xs \<Longrightarrow>
     set chs \<subseteq> set (children_of s0 e) \<Longrightarrow> check_children m s0 e xs (children_of s0 e) = Some None \<Longrightarrow>
     removed_unrestricted s0 s s'"
proof (induction n e xs s and n xs chs s arbitrary: s' m and s' m e rule: deleteCascade_cascade_children.induct)
  case (2 n e xs s)
  let ?s = "remove_rows e xs s"
  obtain k where k: "check_children k s0 e xs (children_of s0 e) = Some None"
    using 2(7) by (cases m) auto
  have ch: "children_of s e = children_of s0 e" using 2(3) by (simp add: shrunk_def)
  have "removed_unrestricted s0 ?s s'"
    using 2(1) [OF _ shrunk_trans [OF 2(3) shrunk_remove] 2(4-6) _ k] 2(2) ch by simp
  moreover have "removed_unrestricted s0 s ?s"
    unfolding removed_unrestricted_def
  proof (intro allI impI)
    fix q x assume "x \<in> ids s q \<and> x \<notin> ids ?s q"
    then have q: "q = e" "x \<in> set xs" by (auto simp: ids_remove split: if_splits)
    show "unrestricted s0 q x"
      using check_children_parts [OF k] q by (fastforce simp: unrestricted_def ref_ids_Nil)
  qed
  ultimately show ?case using removed_trans by blast
next
  case (4 n xs ch chs s)
  have cc: "ch \<in> set (children_of s0 e)" "set chs \<subseteq> set (children_of s0 e)" using 4(10) by auto
  then have f: "rf_field ch \<noteq> ''id''" using 4(7) by (auto simp: graph_ok_def)
  consider (null) "rf_on_delete ch = ''setNull''"
    | (none) "rf_on_delete ch \<noteq> ''setNull''" "ref_ids s ch xs = []"
    | (casc) "rf_on_delete ch \<noteq> ''setNull''" "ref_ids s ch xs \<noteq> []" by blast
  then show ?case
  proof cases
    case null
    have "removed_unrestricted s0 (clear_refs ch xs s) s'"
      using 4(1) [OF null _ shrunk_trans [OF 4(6) shrunk_clear [OF f]] 4(7-9) cc(2) 4(11)] 4(5) null by simp
    then show ?thesis by (simp add: removed_unrestricted_def ids_clear [OF f])
  next
    case none
    then show ?thesis using 4(2) [OF none(1) refl none(2) _ 4(6-9) cc(2) 4(11)] 4(5) by simp
  next
    case casc
    let ?c = "ref_ids s ch xs"
    obtain s1 where s1: "deleteCascade n (rf_entity ch) ?c s = Some s1" "cascade_children n xs chs s1 = Some s'"
      using 4(5) casc by (auto simp: Let_def split: option.splits)
    have sub: "set ?c \<subseteq> set (ref_ids s0 ch xs)" using ref_ids_shrunk [OF 4(6,9)] .
    then have ne: "ref_ids s0 ch xs \<noteq> []" using casc(2) by auto
    have "rf_on_delete ch \<noteq> ''restrict''" "checkRestrict m s0 (rf_entity ch) (ref_ids s0 ch xs) = Some None"
      using check_children_parts [OF 4(11) cc(1)] casc(1) ne by auto
    then have ck: "checkRestrict m s0 (rf_entity ch) ?c = Some None" using check_mono(1) sub by blast
    have "set (ref_ids s0 ch xs) \<subseteq> ids s0 (rf_entity ch)" by (auto simp: set_ref_ids ids_def)
    then have nz: "0 \<notin> set ?c" using 4(8) sub by (auto simp: ids_nonzero_def)
    have r1: "removed_unrestricted s0 s s1"
      using 4(3) [OF casc(1) refl casc(2) s1(1) 4(6-8) nz ck] .
    have "shrunk s s1"
      using cascade_integrity(1) [OF s1(1) shrunk_graph [OF 4(6,7)]] by blast
    then have "removed_unrestricted s0 s1 s'"
      using 4(4) [OF casc(1) refl casc(2) s1 shrunk_trans [OF 4(6)] 4(7-9) cc(2) 4(11)] by blast
    with r1 show ?thesis by (rule removed_trans)
  qed
qed (simp_all add: removed_unrestricted_def)

text \<open>
  C20: a delete that goes through removes no row a \<open>@restrict\<close> relation still pointed at, at
  any depth of the cascade: the check made before anything is mutated covers everything
  the cascade then reaches.
\<close>

theorem delete_respects_restrict:
  assumes "delete_ids n e xs s = Some (Inr s')" "graph_ok s" "ids_nonzero s" "0 \<notin> set xs"
    "x \<in> ids s q" "x \<notin> ids s' q"
  shows "unrestricted s q x"
  using cascade_unrestricted(1) [OF _ shrunk_refl assms(2-4)] delete_ids_cascade [OF assms(1)] assms(5,6)
  unfolding removed_unrestricted_def by blast

lemma ex_delete: "\<exists>s'. delete_ids 5 ''P'' [1] ex_rows = Some (Inr s')"
proof -
  have "checkRestrict 5 ex_rows ''P'' [1] = Some None"
    by (simp add: numeral_eq_Suc ex_rows_tables ref_ids_def ref_of_def field_def Let_def row_id_def)
  then show ?thesis using delete_phase_ends [of ex_rows "''P''" "[1]"] by (auto simp: delete_ids_def)
qed

theorem delete_respects_restrict_witness: "unrestricted ex_rows ''P'' 1"
proof -
  obtain s' where s': "delete_ids 5 ''P'' [1] ex_rows = Some (Inr s')" using ex_delete by blast
  have g: "graph_ok ex_rows" "ids_nonzero ex_rows" "1 \<in> ids ex_rows ''P''"
    by (auto simp: graph_ok_def ids_nonzero_def ex_rows_tables field_def ids_def row_id_def)
  have "1 \<notin> ids s' ''P''"
    using cascade_integrity(1) delete_ids_cascade [OF s'] g(1) by fastforce
  then show ?thesis using delete_respects_restrict [OF s' g(1,2) _ g(3)] by simp
qed

subsection \<open>When the restriction check ends\<close>

text \<open>A rank that falls from every referenced row to the rows pointing at it.\<close>

definition ranked :: "(string \<Rightarrow> i64 \<Rightarrow> nat) \<Rightarrow> memstore \<Rightarrow> bool" where
  "ranked rk s \<longleftrightarrow> (\<forall>e. \<forall>ch \<in> set (children_of s e). \<forall>r \<in> set (rows_of s (rf_entity ch)).
     rk (rf_entity ch) (row_id r) < rk e (ref_of ch r))"

lemma check_ends:
  "ranked rk s \<Longrightarrow> \<forall>x \<in> set xs. rk e x < n \<Longrightarrow> 0 < n \<Longrightarrow> checkRestrict n s e xs \<noteq> None"
  "ranked rk s \<Longrightarrow> \<forall>x \<in> set xs. rk e x \<le> n \<Longrightarrow> set chs \<subseteq> set (children_of s e) \<Longrightarrow>
     check_children n s e xs chs \<noteq> None"
proof (induction n s e xs and n s e xs chs rule: checkRestrict_check_children.induct)
  case (2 n s e xs)
  then show ?case by (auto simp: less_Suc_eq_le)
next
  case (4 n s e xs ch chs)
  let ?r = "ref_ids s ch xs"
  have rest: "set chs \<subseteq> set (children_of s e)" using 4(7) by simp
  have low: "\<forall>i \<in> set ?r. rk (rf_entity ch) i < n"
    using 4(5-7) by (fastforce simp: ranked_def set_ref_ids)
  show ?case
  proof (cases "?r = []")
    case True
    then show ?thesis using 4(1) [OF refl True 4(5,6) rest] by simp
  next
    case ne: False
    then obtain i where "i \<in> set ?r" by (cases ?r) auto
    then have n: "0 < n" using low by auto
    show ?thesis
    proof (cases "rf_on_delete ch = ''restrict'' \<or> rf_on_delete ch = ''setNull''")
      case True
      then show ?thesis using ne 4(2) [OF refl ne _ _ 4(5,6) rest] by (auto simp: Let_def)
    next
      case False
      then have "checkRestrict n s (rf_entity ch) ?r \<noteq> None" using 4(3) [OF refl ne _ _ 4(5) low n] by blast
      then obtain a where a: "checkRestrict n s (rf_entity ch) ?r = Some a" by blast
      show ?thesis
      proof (cases a)
        case None
        then have "check_children n s e xs chs \<noteq> None"
          using 4(4) [OF refl ne _ _ a [unfolded None] refl 4(5,6) rest] False by blast
        then show ?thesis using ne False a None by (simp add: Let_def)
      next
        case (Some err)
        then show ?thesis using ne False a by (simp add: Let_def)
      qed
    qed
  qed
qed simp_all

text \<open>
  C30: when the rows' references are well founded, a delete always ends, with an error or
  with the rows gone: no amount of data makes it run out of the depth the longest chain of
  references needs.
\<close>

theorem delete_ends:
  assumes "ranked rk s" "\<forall>x \<in> set xs. rk e x < n" "xs \<noteq> []"
  shows "\<exists>r. delete_ids n e xs s = Some r"
proof -
  obtain x where "x \<in> set xs" using assms(3) by (cases xs) auto
  then have "0 < n" using assms(2) by auto
  then obtain a where "checkRestrict n s e xs = Some a" using check_ends(1) [OF assms(1,2)] by blast
  then show ?thesis using delete_phase_ends [of s e xs] by (auto simp: delete_ids_def split: option.split)
qed

theorem delete_ends_witness: "\<exists>r. delete_ids 5 ''P'' [1] ex_rows = Some r"
  by (rule delete_ends [where rk = "\<lambda>e x. if e = ''P'' then 2 else 1"])
    (simp_all add: ranked_def ex_rows_tables)

text \<open>
  On rows that reference each other in a cycle it never ends: the check does not change the
  store, so a category that is its own parent is asked about again at every depth.
\<close>

definition loop_store :: memstore where
  "loop_store = newMemStore\<lparr>ms_children := [(''Category'', [\<lparr>rf_entity = ''Category'', rf_field = ''parent'',
      rf_parent = ''Category'', rf_on_delete = []\<rparr>])],
    ms_rows := [(''Category'', [[(''id'', GInt 1), (''parent'', GInt 1)]])]\<rparr>"

theorem delete_cycle_never_ends: "Delete n ''Category'' (GInt 1) loop_store = None"
proof -
  have "checkRestrict n loop_store ''Category'' [1] = None"
    by (induction n)
      (simp_all add: loop_store_def children_of_def rows_of_def ref_ids_def ref_of_def field_def row_id_def Let_def)
  then show ?thesis by (simp add: Delete_def delete_ids_def)
qed

subsection \<open>Transactions\<close>


text \<open>
  One that fails half way keeps what it had already done: the error of the second
  operation comes back, and the first one's row is in the store.
\<close>

definition guarded_store :: memstore where
  "guarded_store = newMemStore\<lparr>ms_children := [(''P'', [\<lparr>rf_entity = ''C'', rf_field = ''p'', rf_parent = ''P'',
      rf_on_delete = ''restrict''\<rparr>])],
    ms_rows := [(''P'', [[(''id'', GInt 1)]]), (''C'', [[(''id'', GInt 7), (''p'', GInt 1)]])]\<rparr>"

theorem Commit_not_atomic:
  "\<exists>err s'. Commit 3 [TxSave ''P'' [(''id'', GInt 2)], TxDelete ''P'' (GInt 1)] guarded_store = Some (Some err, s')
     \<and> get_row ''P'' s' 2 = Some [(''id'', GInt 2)] \<and> get_row ''P'' guarded_store 2 = None"
  by (simp add: run_op_def Delete_def delete_ids_def numeral_eq_Suc guarded_store_def Save_def set_rows_def
      children_of_def rows_of_def ref_ids_def ref_of_def field_def row_id_def Let_def get_row_def)

subsection \<open>Paging\<close>

lemma distinct_stable_sort: "distinct (map f xs) \<Longrightarrow> distinct (map f (stable_sort lt xs))"
proof (rule card_distinct)
  assume "distinct (map f xs)"
  then have "card (set (map f xs)) = length (map f xs)" by (rule distinct_card)
  then show "card (set (map f (stable_sort lt xs))) = length (map f (stable_sort lt xs))" by simp
qed

fun pages :: "nat \<Rightarrow> nat \<Rightarrow> i64 option \<Rightarrow> row list \<Rightarrow> row list" where
  "pages 0 lim cur rows = []"
| "pages (Suc n) lim cur rows =
     (case page_of lim cur rows of
        (p, None) \<Rightarrow> p
      | (p, Some c) \<Rightarrow> p @ pages n lim (Some c) rows)"

lemma after_cursor_at:
  assumes "distinct (map row_id rows)" "k < length rows"
  shows "after_cursor (Some (row_id (rows ! k))) rows = drop (Suc k) rows"
proof -
  have "dropWhile (\<lambda>r. row_id r \<noteq> row_id (rows ! k)) rows = drop k rows"
    using assms
  proof (induction rows arbitrary: k)
    case (Cons r rows)
    then show ?case by (cases k) auto
  qed simp
  then show ?thesis using assms(2) by (simp add: after_cursor_def flip: Cons_nth_drop_Suc)
qed

lemma pages_from:
  assumes "distinct (map row_id rows)" "0 < lim" "after_cursor cur rows = drop k rows" "k \<le> length rows"
    "length rows - k < n"
  shows "pages n lim cur rows = drop k rows"
  using assms(3-5)
proof (induction n arbitrary: cur k)
  case (Suc n)
  let ?p = "take lim (drop k rows)"
  show ?case
  proof (cases "length ?p = lim")
    case False
    then have "length (drop k rows) < lim" by simp
    then show ?thesis using Suc.prems(1) False by (simp add: page_of_def Let_def)
  next
    case True
    then have k: "k + lim \<le> length rows" using Suc.prems(2) assms(2) by (simp add: min_def split: if_splits)
    have "?p ! (lim - 1) = rows ! (k + lim - 1)" using k assms(2) by simp
    then have "last ?p = rows ! (k + lim - 1)" using True assms(2) by (metis last_conv_nth length_0_conv not_gr0)
    moreover have "after_cursor (Some (row_id (rows ! (k + lim - 1)))) rows = drop (k + lim) rows"
      using after_cursor_at [OF assms(1), of "k + lim - 1"] k assms(2) by simp
    ultimately have "pages n lim (Some (row_id (last ?p))) rows = drop (k + lim) rows"
      using Suc.IH [of "Some (row_id (last ?p))" "k + lim"] k Suc.prems(3) assms(2) by auto
    then show ?thesis
      using Suc.prems(1) True by (simp add: page_of_def Let_def) (metis append_take_drop_id drop_drop add.commute)
  qed
qed simp

text \<open>Reading a query to its end, a page at a time, at most \<open>n\<close> pages.\<close>

fun query_pages :: "nat \<Rightarrow> ectx \<Rightarrow> query \<Rightarrow> memstore \<Rightarrow> row list" where
  "query_pages 0 C q s = []"
| "query_pages (Suc n) C q s =
     (case Query C q s of
        (p, None) \<Rightarrow> p
      | (p, Some c) \<Rightarrow> p @ query_pages n C (q\<lparr>q_after := Some c\<rparr>) s)"

lemma query_after_same:
  "matching C (q\<lparr>q_after := c\<rparr>) s = matching C q s"
  "query_sort (q\<lparr>q_after := c\<rparr>) rows = query_sort q rows"
  by (simp_all add: matching_def query_sort_def split: option.split)

lemma query_pages_pages:
  "query_pages n C q s = pages n (page_limit (q_limit q)) (q_after q) (query_sort q (matching C q s))"
  by (induction n arbitrary: q)
    (auto simp: Query_def query_after_same split: option.splits prod.splits)

lemma page_limit_pos: "0 < page_limit n"
  by (simp add: page_limit_def le64_def)


definition ex_query :: query where
  "ex_query = \<lparr>q_entity = ''C'', q_where = None, q_item = [], q_order = [], q_desc = False, q_limit = 1, q_after = None\<rparr>"


text \<open>A cursor whose row has gone since sends the reader back to the first page.\<close>

theorem after_cursor_lost:
  assumes "c \<notin> row_id ` set rows"
  shows "page_of lim (Some c) rows = page_of lim None rows"
proof -
  have "dropWhile (\<lambda>r. row_id r \<noteq> c) rows = []" using assms by auto
  then have "after_cursor (Some c) rows = after_cursor None rows"
    unfolding after_cursor_def by (simp only: option.case list.case)
  then show ?thesis by (simp add: page_of_def)
qed

subsection \<open>The job queue\<close>

lemma claim_loop_ids: "claim_loop nw js = (r, js') \<Longrightarrow> map jb_id js' = map jb_id js"
  by (induction nw js arbitrary: r js' rule: claim_loop.induct) (auto split: if_splits prod.splits)

lemma claim_loop_claims:
  "claim_loop nw js = (Some j, js') \<Longrightarrow> jb_status j = ''running'' \<and> j \<in> set js'
     \<and> (\<exists>j0 \<in> set js. jb_id j0 = jb_id j \<and> job_due nw j0)"
  by (induction nw js arbitrary: js' rule: claim_loop.induct) (fastforce split: if_splits prod.splits)+

lemma distinct_ids_eq: "distinct (map jb_id js) \<Longrightarrow> a \<in> set js \<Longrightarrow> b \<in> set js \<Longrightarrow> jb_id a = jb_id b \<Longrightarrow> a = b"
  by (simp add: distinct_map inj_on_def)

text \<open>
  C31: a job one worker has claimed is not handed to the next: two claims with nothing
  finished between them never return the same job.
\<close>

theorem claims_exclusive:
  assumes "distinct (map jb_id (ms_jobs s))" "ClaimJob t s = (Some j, s1)" "ClaimJob u s1 = (Some k, s2)"
  shows "jb_id j \<noteq> jb_id k"
proof
  assume eq: "jb_id j = jb_id k"
  have c1: "claim_loop t (ms_jobs s) = (Some j, ms_jobs s1)" "claim_loop u (ms_jobs s1) = (Some k, ms_jobs s2)"
    using assms(2,3) by (auto simp: ClaimJob_def split: prod.splits)
  obtain k0 where k0: "k0 \<in> set (ms_jobs s1)" "jb_id k0 = jb_id k" "job_due u k0"
    using claim_loop_claims [OF c1(2)] by blast
  have d: "distinct (map jb_id (ms_jobs s1))" using claim_loop_ids [OF c1(1)] assms(1) by simp
  have "k0 = j"
    using distinct_ids_eq [OF d k0(1)] claim_loop_claims [OF c1(1)] eq k0(2) by metis
  then show False using k0(3) claim_loop_claims [OF c1(1)] by (simp add: job_due_def)
qed

definition two_jobs :: memstore where
  "two_jobs = snd (EnqueueJob \<lparr>jb_id = 0, jb_queue = [], jb_action = ''b'', jb_args = [], jb_run_at = 0,
      jb_attempts = 0, jb_max_attempts = 3, jb_status = [], jb_error = []\<rparr>
    (snd (EnqueueJob \<lparr>jb_id = 0, jb_queue = [], jb_action = ''a'', jb_args = [], jb_run_at = 0,
      jb_attempts = 0, jb_max_attempts = 3, jb_status = [], jb_error = []\<rparr> newMemStore)))"

theorem claims_exclusive_witness:
  "\<exists>j k s1 s2. ClaimJob 5 two_jobs = (Some j, s1) \<and> ClaimJob 6 s1 = (Some k, s2) \<and> jb_id j \<noteq> jb_id k"
proof -
  have js: "map jb_id (ms_jobs two_jobs) = [1, 2]"
    by (simp add: two_jobs_def EnqueueJob_def newMemStore_def Let_def)
  obtain j s1 k s2 where c: "ClaimJob 5 two_jobs = (Some j, s1)" "ClaimJob 6 s1 = (Some k, s2)"
    by (simp add: two_jobs_def EnqueueJob_def newMemStore_def Let_def ClaimJob_def job_due_def)
  then have "jb_id j \<noteq> jb_id k" by (intro claims_exclusive [OF _ c]) (simp add: js)
  with c show ?thesis by blast
qed


end
