(* ===== verification/Columns.thy ===== *)
theory Columns
  imports MemStore
begin

text \<open>
  Values at the boundaries of the working set: arguments bound to typed parameters
  (\<open>coerceParam\<close>, \<open>paramArg\<close>, runtime/wirearg.go), values stored in typed columns
  (runtime/store.go \<open>columnValue\<close>), and the declared constraints a write is checked
  against (runtime/server.go \<open>constraintError\<close>, \<open>storeRow\<close>). Compiled \<open>@matches\<close> patterns
  and the password hash are parameters.
\<close>

subsection \<open>Typed values\<close>

definition int_types :: "string set" where
  "int_types = {''int'', ''money'', ''date''}"

definition text_types :: "string set" where
  "text_types = {''text'', ''datetime''}"

definition canonical :: "gval \<Rightarrow> string \<Rightarrow> bool" where
  "canonical v typ =
     (if typ \<in> int_types then (case v of GInt _ \<Rightarrow> True | _ \<Rightarrow> False)
      else if typ = ''float'' then is_float_val v
      else if typ = ''bool'' then (case v of GBool _ \<Rightarrow> True | _ \<Rightarrow> False)
      else if typ \<in> text_types then (case v of GStr _ \<Rightarrow> True | _ \<Rightarrow> False)
      else True)"

definition coerce :: "gval \<Rightarrow> string \<Rightarrow> gval" where
  "coerce v typ =
     (if canonical v typ then v
      else if typ \<in> int_types then GInt (toInt v)
      else if typ = ''float'' then GFloat (toFloat v)
      else if typ = ''bool'' then GBool (truthy v)
      else if typ \<in> text_types then GStr (toStr v)
      else v)"

definition zero_value :: "string \<Rightarrow> gval" where
  "zero_value typ =
     (if typ \<in> int_types then GInt 0
      else if typ = ''float'' then GFloat f64_zero
      else if typ = ''bool'' then GBool False
      else GStr [])"

text \<open>The dynamic type \<open>fmt.Sprintf("%T")\<close> names.\<close>

definition go_type :: "gval \<Rightarrow> nat" where
  "go_type v = (case v of GNil \<Rightarrow> 0 | GBool _ \<Rightarrow> 1 | GInt _ \<Rightarrow> 2 | GInt64 _ \<Rightarrow> 3 | GInt32 _ \<Rightarrow> 4
     | GFloat _ \<Rightarrow> 5 | GStr _ \<Rightarrow> 6 | GRaw _ \<Rightarrow> 7 | GBytes _ \<Rightarrow> 8 | GList _ \<Rightarrow> 9 | GRec _ \<Rightarrow> 10
     | GMap _ \<Rightarrow> 11 | GStruct _ _ \<Rightarrow> 12)"

definition sameValue :: "gval \<Rightarrow> gval \<Rightarrow> bool" where
  "sameValue a b \<longleftrightarrow> toStr a = toStr b \<and> go_type a = go_type b"

subsection \<open>strconv.ParseFloat\<close>

text \<open>
  The whole syntax it accepts, which is wider than \<open>numericText\<close>: the special names in any
  case, hexadecimal floats, and underscores between digits. \<open>None\<close> is a syntax error or a
  value out of range.
\<close>

definition lower_ascii :: "char \<Rightarrow> char" where
  "lower_ascii c = (if 65 \<le> byte c \<and> byte c \<le> 90 then char_of (byte c + 32) else c)"

definition special_float :: "string \<Rightarrow> f64 option" where
  "special_float s =
     (let neg = (case s of c # _ \<Rightarrow> c = CHR ''-'' | [] \<Rightarrow> False);
          signed = (case s of c # _ \<Rightarrow> c = CHR ''-'' \<or> c = CHR ''+'' | [] \<Rightarrow> False);
          t = map lower_ascii (if signed then tl s else s)
      in if t = ''inf'' \<or> t = ''infinity'' then Some (FInf neg)
         else if t = ''nan'' \<and> \<not> signed then Some FNaN else None)"

text \<open>The state of \<open>underscoreOK\<close>: what the last character was.\<close>

datatype under = AtStart | AtDigit | AtUnder | AtOther

fun under_scan :: "bool \<Rightarrow> under \<Rightarrow> string \<Rightarrow> bool" where
  "under_scan hex i [] = (i \<noteq> AtUnder)"
| "under_scan hex i (c # s) =
     (if is_digit c \<or> (hex \<and> hex_value c \<noteq> None) then under_scan hex AtDigit s
      else if c = CHR ''_'' then i = AtDigit \<and> under_scan hex AtUnder s
      else i \<noteq> AtUnder \<and> under_scan hex AtOther s)"

definition base_prefixed :: "char set \<Rightarrow> string \<Rightarrow> bool" where
  "base_prefixed letters s = (case s of a # b # _ \<Rightarrow> a = CHR ''0'' \<and> lower_ascii b \<in> letters | _ \<Rightarrow> False)"

definition underscoreOK :: "string \<Rightarrow> bool" where
  "underscoreOK s0 =
     (let s = snd (parse_sign s0) in
      if base_prefixed {CHR ''b'', CHR ''o'', CHR ''x''} s
      then under_scan (base_prefixed {CHR ''x''} s) AtDigit (drop 2 s)
      else under_scan False AtStart s)"

definition hex_nat :: "string \<Rightarrow> nat" where
  "hex_nat s = foldl (\<lambda>a c. 16 * a + (case hex_value c of Some d \<Rightarrow> d | None \<Rightarrow> 0)) 0 s"

definition hex_float :: "bool \<Rightarrow> string \<Rightarrow> f64 option" where
  "hex_float neg s =
     (let hd = (\<lambda>c. hex_value c \<noteq> None);
          ip = takeWhile hd s; r1 = dropWhile hd s;
          dotted = (case r1 of c # _ \<Rightarrow> c = CHR ''.'' | [] \<Rightarrow> False);
          fp = (if dotted then takeWhile hd (tl r1) else []);
          r2 = (if dotted then dropWhile hd (tl r1) else r1)
      in if ip = [] \<and> fp = [] then None
         else case r2 of
           [] \<Rightarrow> None
         | p # e \<Rightarrow>
             if lower_ascii p \<noteq> CHR ''p'' then None
             else let (eneg, ds) = parse_sign e in
               if ds = [] \<or> \<not> list_all is_digit ds then None
               else let m = hex_nat (ip @ fp);
                        ex = (if eneg then - int (digits_val ds) else int (digits_val ds)) - 4 * int (length fp)
                    in Some (if 0 \<le> ex then f64_round neg (m * 2 ^ nat ex) 1 else f64_round neg m (2 ^ nat (- ex))))"

definition ParseFloat :: "string \<Rightarrow> f64 option" where
  "ParseFloat s =
     (case special_float s of
        Some f \<Rightarrow> Some f
      | None \<Rightarrow>
          if CHR ''_'' \<in> set s \<and> \<not> underscoreOK s then None
          else let t = filter (\<lambda>c. c \<noteq> CHR ''_'') s; neg = fst (parse_sign t); u = snd (parse_sign t);
                   f = (if base_prefixed {CHR ''x''} u then hex_float neg (drop 2 u)
                        else map_option (\<lambda>(n, m, ex). f64_of_dec n m ex) (numeric_text t))
               in (case f of Some g \<Rightarrow> if f64_is_inf g then None else Some g | None \<Rightarrow> None))"

subsection \<open>Arguments\<close>

definition numericArg :: "string \<Rightarrow> string \<Rightarrow> gval option" where
  "numericArg s typ =
     (if trim_space s = [] then Some (zero_value typ)
      else case parse_numeric_text s of (n, ok) \<Rightarrow> if ok then Some (GInt n) else None)"

definition floatArg :: "string \<Rightarrow> gval option" where
  "floatArg s =
     (if trim_space s = [] then Some (GFloat f64_zero) else map_option GFloat (ParseFloat (trim_space s)))"

definition coerceParam :: "gval \<Rightarrow> string \<Rightarrow> gval option" where
  "coerceParam v typ =
     (if typ \<in> int_types then
        (case v of
           GNil \<Rightarrow> Some (zero_value typ)
         | GStr t \<Rightarrow> numericArg t typ
         | GRaw t \<Rightarrow> numericArg t typ
         | _ \<Rightarrow> if numeric v then Some (coerce v typ) else None)
      else if typ = ''float'' then
        (case v of
           GNil \<Rightarrow> Some (zero_value typ)
         | GStr t \<Rightarrow> floatArg t
         | GRaw t \<Rightarrow> floatArg t
         | _ \<Rightarrow> if numeric v then Some (coerce v typ) else None)
      else if typ = ''bool'' \<or> typ = ''text'' then
        (case v of GRec _ \<Rightarrow> None | GList _ \<Rightarrow> None | _ \<Rightarrow> Some (coerce v typ))
      else Some (coerce v typ))"

record param =
  pa_name :: string
  pa_type :: string
  pa_list :: bool

definition split_items :: "string \<Rightarrow> gval list" where
  "split_items s = map GStr (filter (\<lambda>t. t \<noteq> []) (map trim_space (str_split s '','')))"

text \<open>Every element its type accepts, or nothing at all.\<close>

fun all_some :: "'a option list \<Rightarrow> 'a list option" where
  "all_some [] = Some []"
| "all_some (x # xs) = (case x of None \<Rightarrow> None | Some a \<Rightarrow> map_option ((#) a) (all_some xs))"

definition list_items :: "gval \<Rightarrow> gval list option" where
  "list_items v = (case v of
     GNil \<Rightarrow> Some []
   | GList xs \<Rightarrow> Some xs
   | GStr s \<Rightarrow> Some (split_items s)
   | GRaw s \<Rightarrow> Some (split_items s)
   | GRec _ \<Rightarrow> None
   | _ \<Rightarrow> Some [v])"

definition paramArg :: "gval \<Rightarrow> param \<Rightarrow> gval option" where
  "paramArg v p =
     (if \<not> pa_list p then coerceParam v (pa_type p)
      else case list_items v of
             None \<Rightarrow> None
           | Some items \<Rightarrow> map_option GList (all_some (map (\<lambda>it. coerceParam it (pa_type p)) items)))"

definition paramZero :: "param \<Rightarrow> gval" where
  "paramZero p = (if pa_list p then GList [] else zero_value (pa_type p))"

definition paramTypeName :: "param \<Rightarrow> string" where
  "paramTypeName p = (if pa_list p then ''['' @ pa_type p @ '']'' else pa_type p)"

text \<open>
  A wire-typed argument, shaped to its type's fields: \<open>wts\<close> is what \<open>wireTypeNamed\<close>
  looks up. The recursion follows the value, so it ends on types that name themselves.
\<close>

type_synonym wire_types = "(string \<times> param list) list"

lemma size_field: "size (field m k) < size (GRec m)"
proof (cases "alget m k")
  case (Some v)
  then have "(k, v) \<in> set m" by (rule alget_Some_mem)
  then have "size v \<le> size_list (size_prod (\<lambda>x. 0) size) m" by (induction m) auto
  then show ?thesis using Some by (simp add: field_def)
qed (simp add: field_def)

lemma size_elem: "x \<in> set xs \<Longrightarrow> size x < size (GList xs)"
  by (induction xs) auto

function argFor :: "wire_types \<Rightarrow> gval \<Rightarrow> param \<Rightarrow> gval option"
  and wireValue :: "wire_types \<Rightarrow> gval \<Rightarrow> param list \<Rightarrow> gval option" where
  "argFor wts v p =
     (case alget wts (pa_type p) of
        None \<Rightarrow> paramArg v p
      | Some fs \<Rightarrow>
          if \<not> pa_list p then (if v = GNil then Some GNil else wireValue wts v fs)
          else (case v of
                  GNil \<Rightarrow> Some (GList [])
                | GList xs \<Rightarrow> map_option GList (all_some (map (\<lambda>it. wireValue wts it fs) xs))
                | _ \<Rightarrow> None))"
| "wireValue wts v fs =
     (case v of
        GRec m \<Rightarrow>
          map_option (\<lambda>kvs. GRec (fold (\<lambda>(k, w) r. alput r k w) kvs []))
            (all_some (map (\<lambda>f. map_option (Pair (pa_name f)) (argFor wts (field m (pa_name f)) f)) fs))
      | _ \<Rightarrow> None)"
  by pat_completeness auto
termination
proof (relation "measure (\<lambda>x. case x of Inl (wts, v, p) \<Rightarrow> 2 * size v + 1 | Inr (wts, v, fs) \<Rightarrow> 2 * size v)",
    goal_cases)
  case (4 wts v fs m f)
  then show ?case using size_field [of m "pa_name f"] by simp
next
  case (3 wts v p fs xs it)
  then show ?case using size_elem [of it xs] by simp
qed auto

declare argFor.simps [simp del] wireValue.simps [simp del]

subsection \<open>Columns\<close>

definition zeroFor :: "ir_field \<Rightarrow> gval" where
  "zeroFor f =
     (if IsRelation f \<or> fd_type f \<in> int_types then GInt 0
      else if fd_type f = ''float'' then GFloat f64_zero
      else if fd_type f = ''bool'' then GBool False
      else GStr [])"

definition columnValue :: "ir_field \<Rightarrow> gval \<Rightarrow> gval" where
  "columnValue f v =
     (if v = GNil then (if fd_optional f then GNil else zeroFor f)
      else if IsRelation f then coerce v ''int''
      else if fd_enum f \<noteq> [] then coerce v ''text''
      else if fd_type f \<in> int_types \<union> text_types \<union> {''float'', ''bool''} then coerce v (fd_type f)
      else v)"

text \<open>Reading a value back: the driver's shapes first, a \<open>@secret\<close> column's text decrypted.\<close>

definition normalize_value :: "(string \<Rightarrow> string) \<Rightarrow> ir_field \<Rightarrow> gval \<Rightarrow> gval" where
  "normalize_value decrypt f v =
     columnValue f
       (let plain = (\<lambda>s. if fd_secret f then decrypt s else s) in
        case v of GInt64 n \<Rightarrow> GInt n | GRaw s \<Rightarrow> GStr (plain s) | GStr s \<Rightarrow> GStr (plain s) | _ \<Rightarrow> v)"

text \<open>
  What a server knows of its entities: their declarations, the compiled \<open>@matches\<close>
  patterns by entity and field, and the password hash (a text too long to hash is an error).
\<close>

record schema =
  sc_entities :: "entity list"
  sc_matches :: "string \<Rightarrow> string \<Rightarrow> (string \<Rightarrow> bool) option"
  sc_hash :: "string \<Rightarrow> string + string"

definition entityByName :: "schema \<Rightarrow> string \<Rightarrow> entity option" where
  "entityByName S e = find (\<lambda>d. en_name d = e) (sc_entities S)"

definition column_of :: "schema \<Rightarrow> string \<Rightarrow> string \<Rightarrow> ir_field option" where
  "column_of S e c = (case entityByName S e of None \<Rightarrow> None | Some d \<Rightarrow> find (\<lambda>f. fd_name f = c) (en_fields d))"

definition colOrder :: "schema \<Rightarrow> string \<Rightarrow> ir_field list" where
  "colOrder S e = (case entityByName S e of None \<Rightarrow> [] | Some d \<Rightarrow> filter (\<lambda>f. fd_name f \<noteq> ''id'') (en_fields d))"

subsection \<open>Declared constraints\<close>

definition bound_error :: "string \<Rightarrow> i64 option \<Rightarrow> i64 option \<Rightarrow> string \<Rightarrow> i64 \<Rightarrow> string option" where
  "bound_error name lo hi unit n =
     (case lo of
        Some m \<Rightarrow> if lt64 n m then Some (name @ '' must be at least '' @ itoa m @ unit)
          else (case hi of Some k \<Rightarrow> if lt64 k n then Some (name @ '' must be at most '' @ itoa k @ unit) else None
                | None \<Rightarrow> None)
      | None \<Rightarrow>
          (case hi of Some k \<Rightarrow> if lt64 k n then Some (name @ '' must be at most '' @ itoa k @ unit) else None
           | None \<Rightarrow> None))"

definition range_violation :: "ir_field \<Rightarrow> gval \<Rightarrow> string option" where
  "range_violation f v =
     (if fd_type f = ''text'' then
        bound_error (fd_name f) (fd_min f) (fd_max f) '' characters'' (i64_of_nat (rune_count (toStr v)))
      else bound_error (fd_name f) (fd_min f) (fd_max f) [] (toInt v))"

definition taken :: "row list \<Rightarrow> string \<Rightarrow> gval \<Rightarrow> gval \<Rightarrow> bool" where
  "taken rows c exclude v \<longleftrightarrow>
     (\<exists>m \<in> set rows. \<not> (exclude \<noteq> GNil \<and> equal (field m ''id'') exclude) \<and> equal (field m c) v)"

definition unconstrained :: "ir_field \<Rightarrow> bool" where
  "unconstrained f \<longleftrightarrow> \<not> fd_required f \<and> \<not> fd_unique f \<and> fd_min f = None \<and> fd_max f = None \<and> fd_matches f = []"

text \<open>One field's checks, in the order the code makes them; the first failure is the answer.\<close>

definition field_error :: "schema \<Rightarrow> string \<Rightarrow> row list \<Rightarrow> row \<Rightarrow> gval \<Rightarrow> ir_field \<Rightarrow> string option" where
  "field_error S e rows r exclude f =
     (let v = field r (fd_name f) in
      if unconstrained f then None
      else if fd_required f \<and> (v = GNil \<or> toStr v = []) then Some (fd_name f @ '' is required'')
      else if v = GNil then None
      else case range_violation f v of
        Some msg \<Rightarrow> Some msg
      | None \<Rightarrow>
          if (case sc_matches S e (fd_name f) of Some re \<Rightarrow> \<not> re (toStr v) | None \<Rightarrow> False)
          then Some (fd_name f @ '' is not in the required format'')
          else if fd_unique f \<and> taken rows (fd_name f) exclude v then Some (fd_name f @ '' must be unique'')
          else None)"

fun first_error :: "('a \<Rightarrow> string option) \<Rightarrow> 'a list \<Rightarrow> string option" where
  "first_error chk [] = None"
| "first_error chk (x # xs) = (case chk x of Some msg \<Rightarrow> Some msg | None \<Rightarrow> first_error chk xs)"

definition constraintError ::
  "schema \<Rightarrow> string \<Rightarrow> row list \<Rightarrow> row \<Rightarrow> string \<Rightarrow> gval \<Rightarrow> string option" where
  "constraintError S e rows r changed exclude =
     (case entityByName S e of
        None \<Rightarrow> None
      | Some d \<Rightarrow>
          first_error (field_error S e rows r exclude)
            (filter (\<lambda>f. changed = [] \<or> fd_name f = changed) (en_fields d)))"

subsection \<open>Storing a row\<close>

definition storedValue :: "schema \<Rightarrow> string \<Rightarrow> string \<Rightarrow> gval \<Rightarrow> string + gval" where
  "storedValue S e c v =
     (case column_of S e c of
        None \<Rightarrow> Inr v
      | Some f \<Rightarrow>
          let w = columnValue f v in
          if \<not> fd_password f then Inr w
          else case sc_hash S (toStr w) of Inl err \<Rightarrow> Inl (c @ '' '' @ err) | Inr h \<Rightarrow> Inr (GStr h))"

fun store_fields :: "schema \<Rightarrow> string \<Rightarrow> row \<Rightarrow> string + row" where
  "store_fields S e [] = Inr []"
| "store_fields S e ((c, v) # r) =
     (case storedValue S e c v of
        Inl msg \<Rightarrow> Inl msg
      | Inr w \<Rightarrow> (case store_fields S e r of Inl msg \<Rightarrow> Inl msg | Inr r' \<Rightarrow> Inr ((c, w) # r')))"

definition fill_absent :: "schema \<Rightarrow> string \<Rightarrow> row \<Rightarrow> row" where
  "fill_absent S e r =
     fold (\<lambda>f r. if alget r (fd_name f) = None then alput r (fd_name f) (columnValue f GNil) else r) (colOrder S e) r"

definition storeRow :: "schema \<Rightarrow> string \<Rightarrow> row \<Rightarrow> string + row" where
  "storeRow S e r = store_fields S e (fill_absent S e r)"

text \<open>A soft-deleted row stays in the store and out of the working set.\<close>

definition liveRows :: "gval list \<Rightarrow> bool \<Rightarrow> gval list" where
  "liveRows rows soft =
     (if \<not> soft then rows else filter (\<lambda>r. \<not> (is_record r \<and> truthy (row_field r ''archived''))) rows)"

subsection \<open>What a column holds\<close>

definition col_type :: "ir_field \<Rightarrow> string" where
  "col_type f = (if IsRelation f then ''int'' else if fd_enum f \<noteq> [] then ''text'' else fd_type f)"

definition scalar_types :: "string set" where
  "scalar_types = int_types \<union> text_types \<union> {''float'', ''bool''}"

text \<open>A column of a scalar type; an enum's own type is its name.\<close>

definition scalar_column :: "ir_field \<Rightarrow> bool" where
  "scalar_column f \<longleftrightarrow> col_type f \<in> scalar_types \<and> (fd_enum f \<noteq> [] \<longrightarrow> fd_type f \<notin> scalar_types)"

definition fits :: "ir_field \<Rightarrow> gval \<Rightarrow> bool" where
  "fits f v \<longleftrightarrow> (v = GNil \<and> fd_optional f) \<or> canonical v (col_type f)"

lemmas type_sets = int_types_def text_types_def scalar_types_def

lemma canonical_coerce: "canonical (coerce v t) t"
  by (simp add: coerce_def canonical_def is_float_val_def)

lemma coerce_canonical: "canonical v t \<Longrightarrow> coerce v t = v"
  by (simp add: coerce_def)

lemma canonical_zero: "t \<in> scalar_types \<Longrightarrow> canonical (zero_value t) t"
  by (auto simp: canonical_def zero_value_def is_float_val_def type_sets)

lemma zeroFor_zero: "scalar_column f \<Longrightarrow> zeroFor f = zero_value (col_type f)"
  by (auto simp: scalar_column_def zeroFor_def zero_value_def col_type_def type_sets split: if_splits)

lemma columnValue_coerce:
  "scalar_column f \<Longrightarrow> v \<noteq> GNil \<Longrightarrow> columnValue f v = coerce v (col_type f)"
  by (auto simp: columnValue_def col_type_def scalar_column_def scalar_types_def)

lemma canonical_not_Nil: "t \<in> scalar_types \<Longrightarrow> \<not> canonical GNil t"
  by (auto simp: canonical_def is_float_val_def type_sets)

lemma zero_value_not_Nil [simp]: "zero_value t \<noteq> GNil"
  by (simp add: zero_value_def)

lemma columnValue_Nil: "columnValue f GNil = (if fd_optional f then GNil else zeroFor f)"
  by (simp add: columnValue_def)

lemma columnValue_cases:
  assumes "scalar_column f"
  obtains "columnValue f v = GNil" "fd_optional f" | "canonical (columnValue f v) (col_type f)" "columnValue f v \<noteq> GNil"
proof -
  have t: "col_type f \<in> scalar_types" using assms by (simp add: scalar_column_def)
  show ?thesis
  proof (cases "v = GNil")
    case True
    then show ?thesis
      using that zeroFor_zero [OF assms] canonical_zero [OF t]
      by (cases "fd_optional f") (simp_all add: columnValue_Nil)
  next
    case False
    then have "canonical (columnValue f v) (col_type f)"
      using assms canonical_coerce by (simp add: columnValue_coerce)
    moreover from this have "columnValue f v \<noteq> GNil" using canonical_not_Nil [OF t] by auto
    ultimately show ?thesis by (rule that(2))
  qed
qed

lemma columnValue_fixed:
  "scalar_column f \<Longrightarrow> canonical v (col_type f) \<Longrightarrow> columnValue f v = v"
  using canonical_not_Nil [of "col_type f"] columnValue_coerce [of f v] coerce_canonical
  by (auto simp: scalar_column_def)

lemma columnValue_idem:
  assumes "scalar_column f"
  shows "columnValue f (columnValue f v) = columnValue f v"
  by (rule columnValue_cases [OF assms, of v]) (simp_all add: columnValue_Nil columnValue_fixed assms)

lemma driver_shape:
  assumes "scalar_column f" "\<not> fd_secret f"
  shows "normalize_value decrypt f (columnValue f v) = columnValue f (columnValue f v)"
proof -
  have "case columnValue f v of GInt64 _ \<Rightarrow> False | GRaw _ \<Rightarrow> False | _ \<Rightarrow> True"
    by (rule columnValue_cases [OF assms(1), of v])
      (use assms(1) in \<open>auto simp: canonical_def scalar_column_def is_float_val_def type_sets split: gval.splits if_splits\<close>)
  then show ?thesis using assms(2) by (simp add: normalize_value_def split: gval.splits)
qed


definition plain_field :: "string \<Rightarrow> string \<Rightarrow> bool \<Rightarrow> ir_field" where
  "plain_field name typ uniq =
     \<lparr>fd_name = name, fd_type = typ, fd_ref = [], fd_enum = [], fd_index = False, fd_secret = False,
      fd_e2e = False, fd_password = False, fd_read_policy = [], fd_optional = False, fd_unique = uniq,
      fd_required = False, fd_min = None, fd_max = None, fd_matches = [], fd_on_delete = []\<rparr>"


subsection \<open>What an argument is\<close>

text \<open>A bound argument of a parameter: scalars of their type, wire values of their shape.\<close>

function arg_fits :: "wire_types \<Rightarrow> gval \<Rightarrow> param \<Rightarrow> bool"
  and shape_fits :: "wire_types \<Rightarrow> gval \<Rightarrow> param list \<Rightarrow> bool" where
  "arg_fits wts v p =
     (case alget wts (pa_type p) of
        None \<Rightarrow>
          if pa_list p then (case v of GList xs \<Rightarrow> \<forall>x \<in> set xs. canonical x (pa_type p) | _ \<Rightarrow> False)
          else canonical v (pa_type p)
      | Some fs \<Rightarrow>
          if pa_list p then (case v of GList xs \<Rightarrow> \<forall>x \<in> set xs. shape_fits wts x fs | _ \<Rightarrow> False)
          else v = GNil \<or> shape_fits wts v fs)"
| "shape_fits wts v fs =
     (case v of GRec m \<Rightarrow> fst ` set m = pa_name ` set fs \<and> (\<forall>f \<in> set fs. arg_fits wts (field m (pa_name f)) f)
      | _ \<Rightarrow> False)"
  by pat_completeness auto
termination
proof (relation "measure (\<lambda>x. case x of Inl (wts, v, p) \<Rightarrow> 2 * size v + 1 | Inr (wts, v, fs) \<Rightarrow> 2 * size v)",
    goal_cases)
  case (2 wts v p fs xs x)
  then show ?case using size_elem [of x xs] by simp
next
  case (4 wts v fs m f)
  then show ?case using size_field [of m "pa_name f"] by simp
qed auto

declare arg_fits.simps [simp del] shape_fits.simps [simp del]

lemma numericArg_canonical: "numericArg s t = Some w \<Longrightarrow> t \<in> int_types \<Longrightarrow> canonical w t"
  using canonical_zero [of t] by (auto simp: numericArg_def scalar_types_def canonical_def split: if_splits prod.splits)

lemma floatArg_canonical: "floatArg s = Some w \<Longrightarrow> canonical w ''float''"
  by (auto simp: floatArg_def canonical_def is_float_val_def int_types_def split: if_splits)

lemma coerceParam_canonical:
  assumes "coerceParam v t = Some w"
  shows "canonical w t"
proof (cases "t \<in> int_types \<union> {''float''}")
  case True
  then have "t \<in> int_types \<or> t \<notin> int_types \<and> t = ''float''" "canonical (zero_value t) t"
    using canonical_zero [of t] by (auto simp: scalar_types_def)
  then show ?thesis
    using assms numericArg_canonical floatArg_canonical canonical_coerce
    unfolding coerceParam_def by (cases v) (auto split: if_splits)
next
  case False
  then have "w = coerce v t" using assms unfolding coerceParam_def by (cases v) (auto split: if_splits)
  then show ?thesis using canonical_coerce by simp
qed

lemma all_some_Some: "all_some xs = Some ys \<longleftrightarrow> xs = map Some ys"
  by (induction xs arbitrary: ys) (auto split: option.splits)

lemma all_some_map:
  "all_some (map g xs) = Some ys \<Longrightarrow> y \<in> set ys \<Longrightarrow> \<exists>x \<in> set xs. g x = Some y"
proof -
  assume "all_some (map g xs) = Some ys" "y \<in> set ys"
  then have "Some y \<in> set (map g xs)" by (simp add: all_some_Some)
  then show ?thesis by auto
qed

lemma paramArg_fits:
  assumes "paramArg v p = Some w" "alget wts (pa_type p) = None"
  shows "arg_fits wts w p"
proof (cases "pa_list p")
  case True
  then obtain items out where io: "list_items v = Some items" "w = GList out"
      "all_some (map (\<lambda>it. coerceParam it (pa_type p)) items) = Some out"
    using assms(1) by (auto simp: paramArg_def split: option.splits)
  have "canonical x (pa_type p)" if "x \<in> set out" for x
    using all_some_map [OF io(3) that] coerceParam_canonical by blast
  then show ?thesis using True io(2) assms(2) by (simp add: arg_fits.simps)
next
  case False
  then show ?thesis using assms coerceParam_canonical by (simp add: paramArg_def arg_fits.simps)
qed

lemma fold_alput_keys: "fst ` set (fold (\<lambda>(k, w) r. alput r k w) kvs r) = fst ` set r \<union> fst ` set kvs"
  by (induction kvs arbitrary: r) (auto split: prod.splits)

lemma fold_alput_get:
  "distinct (map fst kvs) \<Longrightarrow>
   alget (fold (\<lambda>(k, w) r. alput r k w) kvs r) k = (case alget kvs k of Some v \<Rightarrow> Some v | None \<Rightarrow> alget r k)"
proof (induction kvs arbitrary: r)
  case (Cons p kvs)
  obtain a b where p: "p = (a, b)" by fastforce
  have "alget kvs a = None" using Cons.prems p by (simp add: alget_None_iff)
  then show ?case using Cons p by (cases "alget kvs k") auto
qed simp

lemma alget_distinct: "distinct (map fst m) \<Longrightarrow> (k, v) \<in> set m \<Longrightarrow> alget m k = Some v"
  by (simp add: alget_map_of)

definition types_distinct :: "wire_types \<Rightarrow> bool" where
  "types_distinct wts \<longleftrightarrow> (\<forall>(n, fs) \<in> set wts. distinct (map pa_name fs))"

lemma argFor_fits_aux:
  assumes "types_distinct wts"
  shows "argFor wts v p = Some w \<Longrightarrow> arg_fits wts w p"
    and "wireValue wts v fs = Some w \<Longrightarrow> distinct (map pa_name fs) \<Longrightarrow> shape_fits wts w fs"
  using assms
proof (induction wts v p and wts v fs arbitrary: w and w rule: argFor_wireValue.induct)
  case (1 wts v p)
  show ?case
  proof (cases "alget wts (pa_type p)")
    case None
    then show ?thesis using 1(3) paramArg_fits by (simp add: argFor.simps [of wts v p])
  next
    case (Some fs)
    have d: "distinct (map pa_name fs)"
      using 1(4) alget_Some_mem [OF Some] by (auto simp: types_distinct_def)
    show ?thesis
    proof (cases "pa_list p")
      case False
      then show ?thesis
        using 1(1) [OF Some] 1(3,4) Some d
        by (auto simp: argFor.simps [of wts v p] arg_fits.simps [of wts w p] split: if_splits)
    next
      case True
      then consider "w = GList []" | xs out where "v = GList xs" "w = GList out"
          "all_some (map (\<lambda>it. wireValue wts it fs) xs) = Some out"
        using 1(3) Some by (auto simp: argFor.simps [of wts v p] split: gval.splits)
      then show ?thesis
      proof cases
        case 1
        then show ?thesis using True Some by (simp add: arg_fits.simps)
      next
        case 2
        have "shape_fits wts y fs" if y: "y \<in> set out" for y
        proof -
          obtain x where x: "x \<in> set xs" "wireValue wts x fs = Some y" using all_some_map [OF 2(3) y] by blast
          then show ?thesis using 1(2) [OF Some _ 2(1)] True d 1(4) by simp
        qed
        then show ?thesis using True Some 2(2) by (simp add: arg_fits.simps)
      qed
    qed
  qed
next
  case (2 wts v fs)
  let ?g = "\<lambda>m f. map_option (Pair (pa_name f)) (argFor wts (field m (pa_name f)) f)"
  obtain m kvs where m: "v = GRec m" "all_some (map (?g m) fs) = Some kvs"
      "w = GRec (fold (\<lambda>(k, w) r. alput r k w) kvs [])"
    using 2(2) by (auto simp: wireValue.simps [of wts v fs] split: gval.splits)
  then have kv: "map (?g m) fs = map Some kvs" by (simp add: all_some_Some)
  have len: "length kvs = length fs" using arg_cong [OF kv, of length] by simp
  have at: "fst (kvs ! i) = pa_name (fs ! i) \<and> argFor wts (field m (pa_name (fs ! i))) (fs ! i) = Some (snd (kvs ! i))"
    if "i < length fs" for i
  proof -
    have "?g m (fs ! i) = Some (kvs ! i)" using that len arg_cong [OF kv, of "\<lambda>l. l ! i"] by simp
    then show ?thesis by (cases "kvs ! i") auto
  qed
  have keys: "map fst kvs = map pa_name fs" using len at by (intro nth_equalityI) auto
  have fit: "arg_fits wts (field (fold (\<lambda>(k, w) r. alput r k w) kvs []) (pa_name f)) f" if f: "f \<in> set fs" for f
  proof -
    obtain i where i: "i < length fs" "f = fs ! i" using f by (auto simp: in_set_conv_nth)
    have "(pa_name f, snd (kvs ! i)) \<in> set kvs"
      using i at [OF i(1)] len by (metis nth_mem prod.collapse)
    then have "alget kvs (pa_name f) = Some (snd (kvs ! i))"
      using alget_distinct [of kvs "pa_name f" "snd (kvs ! i)"] keys 2(3) by simp
    then have "field (fold (\<lambda>(k, w) r. alput r k w) kvs []) (pa_name f) = snd (kvs ! i)"
      using fold_alput_get [of kvs "[]" "pa_name f"] keys 2(3) by (simp add: field_def)
    moreover have "arg_fits wts (snd (kvs ! i)) f"
      using 2(1) [OF m(1) f] at [OF i(1)] i(2) 2(4) by simp
    ultimately show ?thesis by simp
  qed
  have "fst ` set kvs = pa_name ` set fs" using keys by (metis set_map)
  then show ?case using fit m(3) fold_alput_keys [of kvs "[]"] by (simp add: shape_fits.simps)
qed

text \<open>
  C22: an argument that binds has its parameter's type: a scalar is of it, a list's elements
  all are, and a wire-typed one has exactly its type's fields, each of its own type, to
  every depth. Nothing half-converted reaches an action's body.
\<close>

theorem argFor_fits:
  assumes "types_distinct wts" "argFor wts v p = Some w"
  shows "arg_fits wts w p"
  using argFor_fits_aux(1) [OF assms(1), OF assms(2)] .

definition ex_types :: wire_types where
  "ex_types = [(''Line'', [\<lparr>pa_name = ''qty'', pa_type = ''int'', pa_list = False\<rparr>,
     \<lparr>pa_name = ''more'', pa_type = ''Line'', pa_list = True\<rparr>])]"

theorem argFor_fits_witness:
  "arg_fits ex_types (GRec [(''qty'', GInt 3), (''more'', GList [])])
     \<lparr>pa_name = ''l'', pa_type = ''Line'', pa_list = False\<rparr>"
proof (rule argFor_fits)
  show "argFor ex_types (GRec [(''qty'', GInt 3), (''x'', GNil)]) \<lparr>pa_name = ''l'', pa_type = ''Line'', pa_list = False\<rparr>
      = Some (GRec [(''qty'', GInt 3), (''more'', GList [])])"
    by (simp add: argFor.simps wireValue.simps ex_types_def paramArg_def coerceParam_def type_sets field_def
        numeric_def coerce_def canonical_def)
qed (simp add: types_distinct_def ex_types_def)

subsection \<open>Unique columns\<close>

text \<open>No row holds, in a \<open>@unique\<close> column, what an earlier row holds there.\<close>

definition unique_rows :: "schema \<Rightarrow> string \<Rightarrow> row list \<Rightarrow> bool" where
  "unique_rows S e rows \<longleftrightarrow>
     (case entityByName S e of None \<Rightarrow> True | Some d \<Rightarrow>
        list_all (\<lambda>f. fd_unique f \<longrightarrow>
            sorted_wrt (\<lambda>m r. field r (fd_name f) = GNil \<or> \<not> equal (field m (fd_name f)) (field r (fd_name f))) rows)
          (en_fields d))"

lemma first_error_None: "first_error chk xs = None \<longleftrightarrow> (\<forall>x \<in> set xs. chk x = None)"
  by (induction xs) (auto split: option.splits)

lemma store_fields_get:
  "store_fields S e r = Inr r' \<Longrightarrow>
   (case alget r c of None \<Rightarrow> alget r' c = None | Some v \<Rightarrow> (\<exists>w. storedValue S e c v = Inr w \<and> alget r' c = Some w))"
proof (induction r arbitrary: r')
  case (Cons p r)
  obtain k v where p: "p = (k, v)" by fastforce
  then show ?case using Cons by (auto split: sum.splits option.splits)
qed simp

lemma fill_get:
  assumes "distinct (map fd_name fs)"
  shows "alget (fold (\<lambda>f r. if alget r (fd_name f) = None then alput r (fd_name f) (columnValue f GNil) else r) fs r) c
    = (case alget r c of Some v \<Rightarrow> Some v
       | None \<Rightarrow> map_option (\<lambda>f. columnValue f GNil) (find (\<lambda>f. fd_name f = c) fs))"
  using assms
proof (induction fs arbitrary: r)
  case (Cons f fs)
  have "\<forall>g \<in> set fs. fd_name g \<noteq> fd_name f" using Cons.prems by (simp add: image_iff) metis
  then have "find (\<lambda>g. fd_name g = fd_name f) fs = None" by (simp add: find_None_iff)
  then show ?case using Cons by (auto split: option.splits)
qed (simp split: option.splits)

lemma find_filter_keep:
  "find P xs = Some x \<Longrightarrow> Q x \<Longrightarrow> (\<And>y. P y \<Longrightarrow> Q y) \<Longrightarrow> find P (filter Q xs) = Some x"
  by (induction xs) (auto split: if_splits)

lemma find_distinct: "distinct (map fd_name fs) \<Longrightarrow> f \<in> set fs \<Longrightarrow> find (\<lambda>g. fd_name g = fd_name f) fs = Some f"
  by (induction fs) auto

lemma storeRow_field:
  assumes "storeRow S e r = Inr r'" "entityByName S e = Some d" "distinct (map fd_name (en_fields d))"
    "f \<in> set (en_fields d)" "fd_name f \<noteq> ''id''" "\<not> fd_password f"
    "columnValue f (field r (fd_name f)) = field r (fd_name f)"
  shows "field r' (fd_name f) = field r (fd_name f)"
proof -
  have find: "find (\<lambda>g. fd_name g = fd_name f) (en_fields d) = Some f" using assms(3,4) by (rule find_distinct)
  have col: "column_of S e (fd_name f) = Some f" using assms(2) find by (simp add: column_of_def)
  have order: "colOrder S e = filter (\<lambda>f. fd_name f \<noteq> ''id'') (en_fields d)" using assms(2) by (simp add: colOrder_def)
  have "find (\<lambda>g. fd_name g = fd_name f) (colOrder S e) = Some f"
    unfolding order using find assms(5) by (intro find_filter_keep) auto
  moreover have "distinct (map fd_name (colOrder S e))" unfolding order using assms(3) by (rule distinct_map_filter)
  ultimately have "alget (fill_absent S e r) (fd_name f) = Some (field r (fd_name f))"
    using assms(7) by (auto simp: fill_absent_def fill_get field_def split: option.splits)
  then have "\<exists>w. storedValue S e (fd_name f) (field r (fd_name f)) = Inr w \<and> alget r' (fd_name f) = Some w"
    using store_fields_get [of S e "fill_absent S e r" r' "fd_name f"] assms(1) by (simp add: storeRow_def)
  then show ?thesis using col assms(6,7) by (auto simp: storedValue_def field_def)
qed

lemma sorted_wrt_snoc: "sorted_wrt P (xs @ [x]) \<longleftrightarrow> sorted_wrt P xs \<and> (\<forall>y \<in> set xs. P y x)"
  by (auto simp: sorted_wrt_append)

text \<open>
  C21: a checked \<open>add\<close> keeps every \<open>@unique\<close> column unique, when what it writes there is
  already the column's own value (of its type, and not left out of a column that cannot be
  empty) and the column is no \<open>@password\<close>: the check made on the proposed row is then a
  check of the stored one.
\<close>

theorem add_keeps_unique:
  assumes "constraintError S e rows r [] GNil = None" "storeRow S e r = Inr r'" "unique_rows S e rows"
    "entityByName S e = Some d" "distinct (map fd_name (en_fields d))"
    "\<forall>f \<in> set (en_fields d). fd_unique f \<longrightarrow> fd_name f \<noteq> ''id'' \<and> \<not> fd_password f
       \<and> columnValue f (field r (fd_name f)) = field r (fd_name f)"
  shows "unique_rows S e (rows @ [alput r' ''id'' i])"
proof -
  have "\<forall>m \<in> set rows. field r' (fd_name f) = GNil \<or> \<not> equal (field m (fd_name f)) (field r' (fd_name f))"
    if f: "f \<in> set (en_fields d)" "fd_unique f" for f
  proof -
    have same: "field r' (fd_name f) = field r (fd_name f)"
      using storeRow_field [OF assms(2,4,5) f(1)] assms(6) f by blast
    have "field_error S e rows r GNil f = None"
      using assms(1,4) f(1) by (simp add: constraintError_def first_error_None)
    then show ?thesis
      using f(2) unfolding same field_error_def
      by (auto simp: unconstrained_def taken_def Let_def split: if_splits option.splits)
  qed
  moreover have "\<forall>f \<in> set (en_fields d). fd_unique f \<longrightarrow> fd_name f \<noteq> ''id''" using assms(6) by blast
  ultimately show ?thesis
    using assms(3,4) by (simp add: unique_rows_def list_all_iff sorted_wrt_snoc)
qed

definition ex_schema :: schema where
  "ex_schema = \<lparr>sc_entities = [\<lparr>en_name = ''E'', en_soft_delete = False, en_ephemeral = False,
       en_fields = [plain_field ''code'' ''int'' True], en_read = None, en_derives = []\<rparr>],
     sc_matches = (\<lambda>e f. None), sc_hash = Inr\<rparr>"

lemmas ex_schema_simps = ex_schema_def plain_field_def entityByName_def constraintError_def field_error_def
  unconstrained_def range_violation_def bound_error_def taken_def storeRow_def fill_absent_def colOrder_def
  storedValue_def column_of_def columnValue_def zeroFor_def IsRelation_def unique_rows_def field_def
  equal_scalar_def coerce_def canonical_def type_sets

theorem add_keeps_unique_witness:
  "unique_rows ex_schema ''E'' ([[(''code'', GInt 7), (''id'', GInt 1)]] @ [alput [(''code'', GInt 8)] ''id'' (GInt 2)])"
  by (rule add_keeps_unique [where r = "[(''code'', GInt 8)]"
      and d = "\<lparr>en_name = ''E'', en_soft_delete = False, en_ephemeral = False,
         en_fields = [plain_field ''code'' ''int'' True], en_read = None, en_derives = []\<rparr>"])
    (simp_all add: ex_schema_simps)

text \<open>
  Both conditions matter. A row that leaves the column out passes the check, which skips an
  absent value, and is then stored with the type's zero: a second such row duplicates it.
\<close>

theorem add_without_unique_column:
  "constraintError ex_schema ''E'' [[(''code'', GInt 0), (''id'', GInt 1)]] [] [] GNil = None"
  "storeRow ex_schema ''E'' [] = Inr [(''code'', GInt 0)]"
  "\<not> unique_rows ex_schema ''E'' [[(''code'', GInt 0), (''id'', GInt 1)], [(''code'', GInt 0), (''id'', GInt 2)]]"
  by (simp_all add: ex_schema_simps)

text \<open>And a value of another type is compared as it was written, and stored converted.\<close>

theorem add_before_conversion:
  "constraintError ex_schema ''E'' [[(''code'', GInt 7), (''id'', GInt 1)]] [(''code'', GStr ''07'')] [] GNil = None"
  "storeRow ex_schema ''E'' [(''code'', GStr ''07'')] = Inr [(''code'', GInt 7)]"
proof -
  have "trim_space ''07'' = ''07''" by (rule trim_space_ascii_id) (simp_all add: is_space_def is_ascii_def)
  moreover have "numeric_text ''07'' = Some (False, 7, 0)" "parse_int ''07'' = Some 7" by code_simp+
  ultimately have "toInt (GStr ''07'') = 7" by (simp add: parse_numeric_text_def atoi_def)
  moreover have "sint (7 :: i64) = 7" by simp
  moreover have "show_int 7 = ''7''" by code_simp
  ultimately have t: "toInt (GStr ''07'') = 7" "toStr (GInt 7) = ''7''" by (simp_all add: itoa_show_int)
  show "constraintError ex_schema ''E'' [[(''code'', GInt 7), (''id'', GInt 1)]] [(''code'', GStr ''07'')] [] GNil = None"
    using t by (simp add: ex_schema_simps)
  show "storeRow ex_schema ''E'' [(''code'', GStr ''07'')] = Inr [(''code'', GInt 7)]"
    using t by (simp add: ex_schema_simps)
qed

text \<open>
  \<open>sameValue\<close> tells two values apart by their text and dynamic type alone, so any two
  records, and any two lists with the same comma-joined text, are the same to it.
\<close>

theorem sameValue_collapses:
  "sameValue (GRec [(''a'', GInt 1)]) (GRec [(''a'', GInt 2)])"
  "sameValue (GList [GStr ''a,b'']) (GList [GStr ''a'', GStr ''b''])"
  by (simp_all add: sameValue_def go_type_def)

end
