(* ===== verification/Action.thy ===== *)
theory Action
  imports Columns
begin

text \<open>
  The state an action body runs over (runtime/server.go, runtime/undo.go): the working set
  of shared rows, the session, the undo log, and the frame that accumulates the action's
  effects. Rows are shared maps in the code, so they live in a store of addresses here; a
  row an expression yields is its record with the address it came from, and every read of
  the scope follows the address to the row as it now is.
\<close>

subsection \<open>The statements\<close>

datatype stmt =
    SCheck expr "expr option" string nat string
  | SAssign string expr
  | SEstablish expr "expr option"
  | SRevoke expr
  | SRestate expr expr
  | SAdd string "(string \<times> expr) list" string
  | SSet string expr string expr
  | SSetWhere string string expr "(string \<times> expr) list"
  | SRemove string expr
  | SRemoveWhere string string expr
  | SClear string
  | SCall string string "expr list" string string bool
  | SRun string "expr list" string
  | SDo string "expr list" string string bool nat
  | SExpr expr
  | SHeader string expr
  | SReturn "expr option" nat
  | SEmit string string expr "expr list" "expr option"
  | SLet string expr
  | SIf expr "stmt list" "stmt list"
  | SFor string string "expr option" string bool "expr option" "expr option" "stmt list"
  | SForeach string expr "stmt list"

record require =
  rq_name :: string
  rq_args :: "expr list"

record policy =
  po_params :: "param list"
  po_expr :: expr

record action =
  ac_name :: string
  ac_params :: "param list"
  ac_requires :: "require list"
  ac_body :: "stmt list"

text \<open>
  A loaded program. External services, the proc engine, file digests and the signing of
  session tokens are functions of the model; \<open>ap_new_sid\<close> is the identifier a re-keyed
  session gets, \<open>ap_new_visitor\<close> the key of a new session, and \<open>ap_show\<close> is \<open>fmt\<close>'s \<open>%v\<close>.
\<close>

record app =
  ap_schema :: schema
  ap_lib :: stdlib
  ap_actions :: "(string \<times> action) list"
  ap_policies :: "(string \<times> policy) list"
  ap_triggers :: "(string \<times> string) list"
  ap_wires :: wire_types
  ap_records :: wire_types
  ap_private :: "string \<Rightarrow> bool"
  ap_reserved :: "string \<Rightarrow> bool"
  ap_service_ops :: "string \<Rightarrow> (string \<times> string list) list option"
  ap_call :: "string \<Rightarrow> string \<Rightarrow> (string \<times> gval) list \<Rightarrow> bool \<Rightarrow> gval option"
  ap_proc :: "string \<Rightarrow> (gval list \<Rightarrow> string + gval) option"
  ap_digest :: "string \<Rightarrow> gval"
  ap_sign :: "string \<Rightarrow> string"
  ap_new_sid :: string
  ap_new_visitor :: string
  ap_new_state :: "(string \<times> gval) list"
  ap_show :: "gval \<Rightarrow> string"

subsection \<open>The state\<close>

type_synonym addr = nat

record sess =
  ss_actor :: string
  ss_role :: string
  ss_verified :: bool
  ss_visitor :: string
  ss_pending :: string
  ss_state :: "(string \<times> gval) list"

record world =
  wd_heap :: "addr \<Rightarrow> row"
  wd_next :: addr
  wd_rows :: "string \<Rightarrow> addr list"
  wd_ids :: "string \<Rightarrow> i64"
  wd_sessions :: "(string \<times> sess) list"
  wd_store :: memstore
  wd_audit :: "audit_entry list"

record undo_log =
  un_rows :: "(string \<times> addr list) list"
  un_ids :: "(string \<times> i64) list"
  un_fields :: "(addr \<times> string \<times> gval option) list"
  un_sess :: "(string \<times> gval option) list"
  un_actor :: string
  un_role :: string

definition newUndoLog :: "sess \<Rightarrow> undo_log" where
  "newUndoLog s = \<lparr>un_rows = [], un_ids = [], un_fields = [], un_sess = [],
     un_actor = ss_actor s, un_role = ss_role s\<rparr>"

datatype dur_op = DurSave string addr | DurDelete string gval | DurClear string

record emitted =
  em_type :: string
  em_name :: string
  em_payload :: gval
  em_to :: "string option"
  em_key :: string

text \<open>
  The frame one action body runs in. \<open>ar_live\<close> says the session is one the server holds, and
  not the guest made up for this run alone.
\<close>

record run =
  ar_world :: world
  ar_ses :: sess
  ar_live :: bool
  ar_undo :: undo_log
  ar_sid :: string
  ar_actor :: string
  ar_action :: string
  ar_given :: "string list"
  ar_scope :: scope
  ar_deltas :: "(string \<times> gval) list"
  ar_changed :: "string list"
  ar_ops :: "dur_op list"
  ar_ret :: gval
  ar_status :: nat
  ar_returned :: bool
  ar_err :: string
  ar_rekey :: string
  ar_revokes :: "string list"
  ar_restates :: "(string \<times> string) list"
  ar_headers :: "(string \<times> string) list"
  ar_emits :: "emitted list"

subsection \<open>Rows as values\<close>

definition live :: "(addr \<Rightarrow> row) \<Rightarrow> addr \<Rightarrow> gval" where
  "live h a = GRec ((row_key, GInt (word_of_nat a)) # h a)"

text \<open>The row a record is, if it is one.\<close>

definition address_of :: "(string \<times> gval) list \<Rightarrow> addr option" where
  "address_of m = (case alget m row_key of Some (GInt a) \<Rightarrow> Some (unat a) | _ \<Rightarrow> None)"

lemma size_pair_elem [termination_simp]: "(k, v) \<in> set m \<Longrightarrow> size v < Suc (size_list (size_prod (\<lambda>x. 0) size) m)"
  by (induction m) auto

text \<open>Reading a value again: every row in it as it is now, and no further than the rows.\<close>

fun follow :: "(addr \<Rightarrow> row) \<Rightarrow> gval \<Rightarrow> gval" where
  "follow h (GRec m) =
     (case address_of m of Some a \<Rightarrow> live h a | None \<Rightarrow> GRec (map (\<lambda>(k, v). (k, follow h v)) m))"
| "follow h (GList xs) = GList (map (follow h) xs)"
| "follow h v = v"

text \<open>A value handed out of the model, without the addresses.\<close>

fun plain :: "gval \<Rightarrow> gval" where
  "plain (GRec m) = GRec (map (\<lambda>(k, v). (k, plain v)) (filter (\<lambda>p. fst p \<noteq> row_key) m))"
| "plain (GList xs) = GList (map plain xs)"
| "plain v = v"

text \<open>\<open>plainValue\<close>: what a proc returns, as the action's world holds it.\<close>

fun plainValue :: "gval \<Rightarrow> gval" where
  "plainValue (GStruct n fs) = GRec (map (\<lambda>(k, v). (k, plainValue v)) fs)"
| "plainValue (GList xs) = GList (map plainValue xs)"
| "plainValue (GBytes b) = GList (promoteBytes b)"
| "plainValue (GMap m) = GRec (fold (\<lambda>(k, v) r. alput r k v) (map (\<lambda>(k, v). (toStr k, plainValue v)) m) [])"
| "plainValue v = v"

definition rows_live :: "world \<Rightarrow> string \<Rightarrow> gval" where
  "rows_live w e = GList (map (live (wd_heap w)) (wd_rows w e))"

definition rows_now :: "world \<Rightarrow> string \<Rightarrow> row list" where
  "rows_now w e = map (wd_heap w) (wd_rows w e)"

subsection \<open>Evaluating in the frame\<close>

definition run_proc :: "app \<Rightarrow> string \<Rightarrow> gval list \<Rightarrow> gval option" where
  "run_proc A name args =
     (if name = CHR 0x00 # ''fileDigest'' \<and> length args = 1 then Some (ap_digest A (toStr (hd args)))
      else case ap_proc A name of
        None \<Rightarrow> None
      | Some p \<Rightarrow> Some (case p (map plain args) of Inr v \<Rightarrow> plainValue v | Inl err \<Rightarrow> GNil))"

definition frame_ctx :: "app \<Rightarrow> run \<Rightarrow> ectx" where
  "frame_ctx A r = \<lparr>ec_lib = (ap_lib A)\<lparr>sl_call := (\<lambda>n args. sl_call (ap_lib A) n (map plain args))\<rparr>,
     ec_given = (\<lambda>p. p \<in> set (ar_given r)), ec_proc = Some (run_proc A), ec_indexing = True\<rparr>"

definition scope_now :: "run \<Rightarrow> scope" where
  "scope_now r = map (\<lambda>(k, v). (k, follow (wd_heap (ar_world r)) v)) (ar_scope r)"

definition ev :: "app \<Rightarrow> run \<Rightarrow> expr \<Rightarrow> gval" where
  "ev A r e = eval (frame_ctx A r) (scope_now r) e"

definition bind_var :: "string \<Rightarrow> gval \<Rightarrow> run \<Rightarrow> run" where
  "bind_var x v r = r\<lparr>ar_scope := alput (ar_scope r) x v\<rparr>"

text \<open>What the name held before, or nothing.\<close>

definition restore_var :: "string \<Rightarrow> gval option \<Rightarrow> run \<Rightarrow> run" where
  "restore_var x old r =
     r\<lparr>ar_scope := (case old of Some v \<Rightarrow> alput (ar_scope r) x v | None \<Rightarrow> aldel (ar_scope r) x)\<rparr>"

subsection \<open>Logged writes\<close>

text \<open>
  \<open>undo.entity\<close> keeps the first snapshot of an entity's rows and counter, \<open>undo.field\<close> every
  edit, \<open>undo.state\<close> the first value of a cell.
\<close>

definition log_entity :: "string \<Rightarrow> run \<Rightarrow> run" where
  "log_entity e r =
     (let u = ar_undo r; w = ar_world r in
      if alget (un_rows u) e \<noteq> None then r
      else r\<lparr>ar_undo := u\<lparr>un_rows := alput (un_rows u) e (wd_rows w e), un_ids := alput (un_ids u) e (wd_ids w e)\<rparr>\<rparr>)"

definition log_field :: "addr \<Rightarrow> string \<Rightarrow> run \<Rightarrow> run" where
  "log_field a f r =
     r\<lparr>ar_undo := (ar_undo r)\<lparr>un_fields := un_fields (ar_undo r) @ [(a, f, alget (wd_heap (ar_world r) a) f)]\<rparr>\<rparr>"

definition log_state :: "string \<Rightarrow> run \<Rightarrow> run" where
  "log_state c r =
     (let u = ar_undo r in
      if alget (un_sess u) c \<noteq> None then r
      else r\<lparr>ar_undo := u\<lparr>un_sess := alput (un_sess u) c (alget (ss_state (ar_ses r)) c)\<rparr>\<rparr>)"

definition write_field :: "addr \<Rightarrow> string \<Rightarrow> gval \<Rightarrow> run \<Rightarrow> run" where
  "write_field a f v r0 =
     (let r = log_field a f r0; w = ar_world r in
      r\<lparr>ar_world := w\<lparr>wd_heap := (wd_heap w)(a := alput (wd_heap w a) f v)\<rparr>\<rparr>)"

definition write_rows :: "string \<Rightarrow> addr list \<Rightarrow> run \<Rightarrow> run" where
  "write_rows e as r0 =
     (let r = log_entity e r0; w = ar_world r in
      r\<lparr>ar_world := w\<lparr>wd_rows := (wd_rows w)(e := as)\<rparr>\<rparr>)"

text \<open>A new row, with the next id of its entity, at a fresh address.\<close>

definition insert_row :: "string \<Rightarrow> row \<Rightarrow> run \<Rightarrow> run" where
  "insert_row e rw r0 =
     (let r = log_entity e r0; w = ar_world r; i = wd_ids w e + 1; a = wd_next w in
      r\<lparr>ar_world := w\<lparr>wd_heap := (wd_heap w)(a := alput rw ''id'' (GInt i)), wd_next := Suc a,
          wd_ids := (wd_ids w)(e := i), wd_rows := (wd_rows w)(e := wd_rows w e @ [a])\<rparr>\<rparr>)"

definition write_cell :: "string \<Rightarrow> gval \<Rightarrow> run \<Rightarrow> run" where
  "write_cell c v r0 =
     (let r = log_state c r0 in r\<lparr>ar_ses := (ar_ses r)\<lparr>ss_state := alput (ss_state (ar_ses r)) c v\<rparr>\<rparr>)"

definition write_actor :: "string \<Rightarrow> run \<Rightarrow> run" where
  "write_actor a r = r\<lparr>ar_ses := (ar_ses r)\<lparr>ss_actor := a\<rparr>\<rparr>"

definition write_role :: "string \<Rightarrow> run \<Rightarrow> run" where
  "write_role x r = r\<lparr>ar_ses := (ar_ses r)\<lparr>ss_role := x\<rparr>\<rparr>"

definition mark_changed :: "string \<Rightarrow> run \<Rightarrow> run" where
  "mark_changed e r = r\<lparr>ar_changed := (if e \<in> set (ar_changed r) then ar_changed r else ar_changed r @ [e])\<rparr>"

definition push_op :: "dur_op \<Rightarrow> run \<Rightarrow> run" where
  "push_op d r = r\<lparr>ar_ops := ar_ops r @ [d]\<rparr>"

definition audit_line :: "app \<Rightarrow> string \<Rightarrow> string \<Rightarrow> bool \<Rightarrow> string \<Rightarrow> audit_entry" where
  "audit_line A actor act allowed detail =
     \<lparr>au_time = sl_now (ap_lib A), au_actor = actor, au_action = act, au_allowed = allowed, au_detail = detail\<rparr>"

definition recordAudit :: "app \<Rightarrow> bool \<Rightarrow> string \<Rightarrow> run \<Rightarrow> run" where
  "recordAudit A allowed detail r =
     r\<lparr>ar_world := (ar_world r)\<lparr>wd_audit := wd_audit (ar_world r)
        @ [audit_line A (ar_actor r) (ar_action r) allowed detail]\<rparr>\<rparr>"

subsection \<open>Rolling back\<close>

text \<open>The field edits, newest first.\<close>

definition undo_field :: "addr \<times> string \<times> gval option \<Rightarrow> (addr \<Rightarrow> row) \<Rightarrow> addr \<Rightarrow> row" where
  "undo_field x h = (case x of (a, f, old) \<Rightarrow>
     h(a := (case old of Some v \<Rightarrow> alput (h a) f v | None \<Rightarrow> aldel (h a) f)))"

definition undo_fields :: "(addr \<times> string \<times> gval option) list \<Rightarrow> (addr \<Rightarrow> row) \<Rightarrow> addr \<Rightarrow> row" where
  "undo_fields xs h = fold undo_field (rev xs) h"

definition undo_cells :: "(string \<times> gval option) list \<Rightarrow> (string \<times> gval) list \<Rightarrow> (string \<times> gval) list" where
  "undo_cells xs st = fold (\<lambda>(c, old) m. case old of Some v \<Rightarrow> alput m c v | None \<Rightarrow> aldel m c) xs st"

definition rollback :: "run \<Rightarrow> run" where
  "rollback r =
     (let u = ar_undo r; w = ar_world r in
      r\<lparr>ar_world := w\<lparr>
           wd_heap := undo_fields (un_fields u) (wd_heap w),
           wd_rows := (\<lambda>e. case alget (un_rows u) e of Some as \<Rightarrow> as | None \<Rightarrow> wd_rows w e),
           wd_ids := (\<lambda>e. case alget (un_rows u) e of
              Some _ \<Rightarrow> (case alget (un_ids u) e of Some i \<Rightarrow> i | None \<Rightarrow> 0) | None \<Rightarrow> wd_ids w e)\<rparr>,
         ar_ses := (ar_ses r)\<lparr>ss_state := undo_cells (un_sess u) (ss_state (ar_ses r)),
           ss_actor := un_actor u, ss_role := un_role u\<rparr>\<rparr>)"

end
