(* ===== verification/ActionExec.thy ===== *)
theory ActionExec
  imports Action
begin

text \<open>
  The execution of an action (runtime/server.go \<open>execActionBlock\<close>, \<open>runNested\<close>,
  \<open>runActionLocked\<close>, \<open>commit\<close>, \<open>cascadeMem\<close>, \<open>policyPasses\<close>): one definition per kind of
  statement, then the block interpreter over them, nested runs, and the authoritative run
  with its gate, its commit and its session effects.
\<close>

subsection \<open>Results of services and procs\<close>

definition coerceRetScalarList :: "gval \<Rightarrow> string \<Rightarrow> gval" where
  "coerceRetScalarList v typ =
     GList (map (\<lambda>it. coerce it typ) (case v of GList xs \<Rightarrow> xs | GNil \<Rightarrow> [] | _ \<Rightarrow> [v]))"

definition coerceOne :: "app \<Rightarrow> gval \<Rightarrow> string \<Rightarrow> gval" where
  "coerceOne A v typ =
     (case alget (ap_records A) typ of
        None \<Rightarrow> coerce v typ
      | Some fs \<Rightarrow>
          let obj = (case v of GRec m \<Rightarrow> m | _ \<Rightarrow> []) in
          GRec (fold (\<lambda>f m. alput m (pa_name f)
              (if pa_list f then coerceRetScalarList (field obj (pa_name f)) (pa_type f)
               else coerce (field obj (pa_name f)) (pa_type f))) fs []))"

definition coerceRet :: "app \<Rightarrow> gval \<Rightarrow> string \<Rightarrow> bool \<Rightarrow> gval" where
  "coerceRet A v ret is_list =
     (case v of
        GMap _ \<Rightarrow> v
      | _ \<Rightarrow>
          if \<not> is_list then coerceOne A v ret
          else (case v of
                  GBytes b \<Rightarrow> if ret = ''int'' then v else GList (map (\<lambda>it. coerceOne A it ret) (promoteBytes b))
                | GNil \<Rightarrow> GList []
                | GList items \<Rightarrow> GList (map (\<lambda>it. coerceOne A it ret) items)
                | _ \<Rightarrow> GList [coerceOne A v ret]))"

definition coerceRetDepth :: "app \<Rightarrow> gval \<Rightarrow> string \<Rightarrow> bool \<Rightarrow> nat \<Rightarrow> gval" where
  "coerceRetDepth A v ret is_list depth =
     (if 1 < depth then (case v of GNil \<Rightarrow> GList [] | GList _ \<Rightarrow> v | _ \<Rightarrow> coerceRet A v ret is_list)
      else coerceRet A v ret is_list)"

subsection \<open>The cascade over the working set\<close>

definition children_in :: "schema \<Rightarrow> string \<Rightarrow> reference list" where
  "children_in S p = filter (\<lambda>r. rf_parent r = p) (References (sc_entities S))"

definition points_at :: "reference \<Rightarrow> i64 list \<Rightarrow> row \<Rightarrow> bool" where
  "points_at ch ids rw \<longleftrightarrow> toInt (field rw (rf_field ch)) \<in> set ids"

definition clear_refs_mem :: "reference \<Rightarrow> i64 list \<Rightarrow> run \<Rightarrow> run" where
  "clear_refs_mem ch ids r =
     (let hit = filter (\<lambda>a. points_at ch ids (wd_heap (ar_world r) a)) (wd_rows (ar_world r) (rf_entity ch));
          r' = fold (\<lambda>a r. write_field a (rf_field ch) GNil r) hit r
      in if hit = [] then r' else mark_changed (rf_entity ch) r')"

text \<open>
  \<open>cascadeMem\<close>, with fuel for its depth: every level takes rows out of the working set, so one
  more than it holds is enough.
\<close>

fun cascadeMem :: "nat \<Rightarrow> schema \<Rightarrow> string \<Rightarrow> i64 list \<Rightarrow> run \<Rightarrow> run option"
  and cascade_refs :: "nat \<Rightarrow> schema \<Rightarrow> i64 list \<Rightarrow> reference list \<Rightarrow> run \<Rightarrow> run option" where
  "cascadeMem 0 S p ids r = None"
| "cascadeMem (Suc n) S p ids r = cascade_refs n S ids (children_in S p) r"
| "cascade_refs n S ids [] r = Some r"
| "cascade_refs n S ids (ch # chs) r =
     (if rf_on_delete ch = ''setNull'' then cascade_refs n S ids chs (clear_refs_mem ch ids r)
      else let w = ar_world r; as = wd_rows w (rf_entity ch);
               gone = filter (\<lambda>a. points_at ch ids (wd_heap w a)) as;
               cids = remdups (map (\<lambda>a. row_id (wd_heap w a)) gone)
           in if gone = [] then cascade_refs n S ids chs r
              else case cascadeMem n S (rf_entity ch) cids
                     (mark_changed (rf_entity ch)
                       (write_rows (rf_entity ch) (filter (\<lambda>a. \<not> points_at ch ids (wd_heap w a)) as) r)) of
                     None \<Rightarrow> None
                   | Some r' \<Rightarrow> cascade_refs n S ids chs r')"

definition row_count :: "schema \<Rightarrow> world \<Rightarrow> nat" where
  "row_count S w = sum_list (map (\<lambda>e. length (wd_rows w e)) (remdups (map en_name (sc_entities S))))"

definition cascade :: "schema \<Rightarrow> string \<Rightarrow> i64 list \<Rightarrow> run \<Rightarrow> run" where
  "cascade S p ids r = (case cascadeMem (Suc (row_count S (ar_world r))) S p ids r of Some r' \<Rightarrow> r' | None \<Rightarrow> r)"

subsection \<open>Statements without a block\<close>

text \<open>A statement goes on, or ends its block with a status and a message; 200 is success.\<close>

datatype flow = Next run | Ret nat string run

definition fail_invalid :: "app \<Rightarrow> string \<Rightarrow> run \<Rightarrow> flow" where
  "fail_invalid A msg r = Ret 422 msg (recordAudit A False (''constraint: '' @ msg) r)"

definition exec_check :: "app \<Rightarrow> expr \<Rightarrow> expr option \<Rightarrow> string \<Rightarrow> nat \<Rightarrow> string \<Rightarrow> run \<Rightarrow> flow" where
  "exec_check A c key msg0 status code r =
     (if truthy (ev A r c) then Next r
      else let msg = (case key of Some k \<Rightarrow> toStr (ev A r k) | None \<Rightarrow> msg0) in
        Ret (if status \<noteq> 0 then status else 422) msg
          (recordAudit A False (''check failed: '' @ msg) (r\<lparr>ar_err := code\<rparr>)))"

definition exec_assign :: "app \<Rightarrow> string \<Rightarrow> expr \<Rightarrow> run \<Rightarrow> run" where
  "exec_assign A c e r =
     (let v = ev A r e in
      if sameValue (field (ss_state (ar_ses r)) c) v then r
      else let r1 = bind_var c v (write_cell c v r) in
           if ap_private A c then r1 else r1\<lparr>ar_deltas := alput (ar_deltas r1) c v\<rparr>)"

definition system_sids :: "string set" where
  "system_sids = {''__system'', ''tool''}"

definition sessionToken :: "app \<Rightarrow> string \<Rightarrow> string" where
  "sessionToken A sid = (if sid = [] \<or> sid \<in> system_sids then [] else ap_sign A sid)"

definition adopt_actor :: "string \<Rightarrow> run \<Rightarrow> run" where
  "adopt_actor a r = (let r1 = bind_var ''actor'' (GStr a) (write_actor a r)
     in r1\<lparr>ar_deltas := alput (ar_deltas r1) ''actor'' (GStr a)\<rparr>)"

definition adopt_role :: "string \<Rightarrow> run \<Rightarrow> run" where
  "adopt_role x r = (let r1 = bind_var ''role'' (GStr x) (write_role x r)
     in r1\<lparr>ar_deltas := alput (ar_deltas r1) ''role'' (GStr x)\<rparr>)"

definition exec_establish :: "app \<Rightarrow> expr \<Rightarrow> expr option \<Rightarrow> run \<Rightarrow> run" where
  "exec_establish A val role r0 =
     (let na = toStr (ev A r0 val);
          r = (if ar_rekey r0 = [] \<and> sessionToken A (ar_sid r0) \<noteq> []
               then bind_var ''sessionToken'' (GStr (sessionToken A (ap_new_sid A))) (r0\<lparr>ar_rekey := ap_new_sid A\<rparr>)
               else r0);
          r1 = adopt_actor na r
      in case role of None \<Rightarrow> r1 | Some x \<Rightarrow> adopt_role (toStr (ev A r1 x)) r1)"

definition build_row :: "app \<Rightarrow> run \<Rightarrow> (string \<times> expr) list \<Rightarrow> row \<Rightarrow> row" where
  "build_row A r fis m0 = fold (\<lambda>(f, x) m. alput m f (ev A r x)) fis m0"

definition exec_add :: "app \<Rightarrow> string \<Rightarrow> (string \<times> expr) list \<Rightarrow> string \<Rightarrow> run \<Rightarrow> flow" where
  "exec_add A e fis x r =
     (let S = ap_schema A; rw = build_row A r fis [] in
      case constraintError S e (rows_now (ar_world r) e) rw [] GNil of
        Some msg \<Rightarrow> fail_invalid A msg r
      | None \<Rightarrow>
          (case storeRow S e rw of
             Inl msg \<Rightarrow> fail_invalid A msg r
           | Inr rw' \<Rightarrow>
               let r1 = mark_changed e (push_op (DurSave e (wd_next (ar_world r))) (insert_row e rw' r)) in
               Next (if x = [] then r1 else bind_var x (GInt (wd_ids (ar_world r1) e)) r1)))"

text \<open>The first row an id names.\<close>

definition row_named :: "world \<Rightarrow> string \<Rightarrow> gval \<Rightarrow> addr option" where
  "row_named w e key = find (\<lambda>a. equal (field (wd_heap w a) ''id'') key) (wd_rows w e)"

definition exec_set :: "app \<Rightarrow> string \<Rightarrow> expr \<Rightarrow> string \<Rightarrow> expr \<Rightarrow> run \<Rightarrow> flow" where
  "exec_set A e key f val r =
     (let S = ap_schema A; w = ar_world r in
      case row_named w e (ev A r key) of
        None \<Rightarrow> Next r
      | Some a \<Rightarrow>
          let nv = ev A r val; m = wd_heap w a in
          (case constraintError S e (rows_now w e) (alput m f nv) f (field m ''id'') of
             Some msg \<Rightarrow> fail_invalid A msg r
           | None \<Rightarrow>
               (case storedValue S e f nv of
                  Inl msg \<Rightarrow> fail_invalid A msg r
                | Inr sv \<Rightarrow> Next (mark_changed e (push_op (DurSave e a) (write_field a f sv r))))))"

text \<open>The values a filtered \<open>set\<close> writes, each as its column stores it.\<close>

fun stored_fields :: "schema \<Rightarrow> string \<Rightarrow> string list \<Rightarrow> row \<Rightarrow> string + row" where
  "stored_fields S e [] cand = Inr cand"
| "stored_fields S e (f # fs) cand =
     (case storedValue S e f (field cand f) of
        Inl msg \<Rightarrow> Inl msg
      | Inr v \<Rightarrow> stored_fields S e fs (alput cand f v))"

definition update_row :: "app \<Rightarrow> string \<Rightarrow> (string \<times> expr) list \<Rightarrow> addr \<Rightarrow> run \<Rightarrow> string + run" where
  "update_row A e fis a r =
     (let S = ap_schema A; w = ar_world r; m = wd_heap w a; cand = build_row A r fis m; fs = map fst fis in
      case first_error (\<lambda>f. constraintError S e (rows_now w e) cand f (field m ''id'')) fs of
        Some msg \<Rightarrow> Inl msg
      | None \<Rightarrow>
          (case stored_fields S e fs cand of
             Inl msg \<Rightarrow> Inl msg
           | Inr c \<Rightarrow> Inr (push_op (DurSave e a) (fold (\<lambda>f r. write_field a f (field c f) r) fs r))))"

fun set_where_loop :: "app \<Rightarrow> string \<Rightarrow> string \<Rightarrow> expr \<Rightarrow> (string \<times> expr) list \<Rightarrow> addr list \<Rightarrow> bool \<Rightarrow> run
    \<Rightarrow> string option \<times> bool \<times> run" where
  "set_where_loop A e x c fis [] hit r = (None, hit, r)"
| "set_where_loop A e x c fis (a # as) hit r =
     (let r1 = bind_var x (live (wd_heap (ar_world r)) a) r in
      if \<not> truthy (ev A r1 c) then set_where_loop A e x c fis as hit r1
      else case update_row A e fis a r1 of
             Inl msg \<Rightarrow> (Some msg, hit, r1)
           | Inr r2 \<Rightarrow> set_where_loop A e x c fis as True r2)"

definition exec_set_where :: "app \<Rightarrow> string \<Rightarrow> string \<Rightarrow> expr \<Rightarrow> (string \<times> expr) list \<Rightarrow> run \<Rightarrow> flow" where
  "exec_set_where A e x c fis r =
     (case set_where_loop A e x c fis (wd_rows (ar_world r) e) False r of
        (Some msg, _, r1) \<Rightarrow> fail_invalid A msg (restore_var x (alget (ar_scope r) x) r1)
      | (None, hit, r1) \<Rightarrow>
          let r2 = restore_var x (alget (ar_scope r) x) r1 in Next (if hit then mark_changed e r2 else r2))"

definition soft_delete :: "schema \<Rightarrow> string \<Rightarrow> bool" where
  "soft_delete S e = (case entityByName S e of Some d \<Rightarrow> en_soft_delete d | None \<Rightarrow> False)"

definition archive :: "string \<Rightarrow> addr \<Rightarrow> run \<Rightarrow> run" where
  "archive e a r = push_op (DurSave e a) (write_field a ''archived'' (GBool True) r)"

definition exec_remove :: "app \<Rightarrow> string \<Rightarrow> expr \<Rightarrow> run \<Rightarrow> run" where
  "exec_remove A e key r =
     (let S = ap_schema A; w = ar_world r; k = ev A r key; other = (\<lambda>a. \<not> equal (field (wd_heap w a) ''id'') k) in
      case row_named w e k of
        None \<Rightarrow> r
      | Some a \<Rightarrow>
          let r1 = write_rows e (takeWhile other (wd_rows w e) @ tl (dropWhile other (wd_rows w e))) r in
          mark_changed e
            (if soft_delete S e then archive e a r1
             else cascade S e [toInt k] (push_op (DurDelete e k) r1)))"

fun remove_loop :: "app \<Rightarrow> string \<Rightarrow> string \<Rightarrow> expr \<Rightarrow> addr list \<Rightarrow> addr list \<Rightarrow> i64 list \<Rightarrow> run
    \<Rightarrow> addr list \<times> i64 list \<times> run" where
  "remove_loop A e x c [] kept gone r = (kept, gone, r)"
| "remove_loop A e x c (a # as) kept gone r =
     (let r1 = bind_var x (live (wd_heap (ar_world r)) a) r; i = field (wd_heap (ar_world r) a) ''id'' in
      if truthy (ev A r1 c) then
        remove_loop A e x c as kept (gone @ [toInt i])
          (if soft_delete (ap_schema A) e then archive e a r1 else push_op (DurDelete e i) r1)
      else remove_loop A e x c as (kept @ [a]) gone r1)"

definition exec_remove_where :: "app \<Rightarrow> string \<Rightarrow> string \<Rightarrow> expr \<Rightarrow> run \<Rightarrow> run" where
  "exec_remove_where A e x c r =
     (case remove_loop A e x c (wd_rows (ar_world r) e) [] [] r of
        (kept, gone, r1) \<Rightarrow>
          let r2 = restore_var x (alget (ar_scope r) x) r1 in
          if gone = [] then r2
          else let r3 = mark_changed e (write_rows e kept r2) in
               if soft_delete (ap_schema A) e then r3 else cascade (ap_schema A) e (remdups gone) r3)"

definition exec_clear :: "app \<Rightarrow> string \<Rightarrow> run \<Rightarrow> run" where
  "exec_clear A e r =
     (let w = ar_world r; ids = remdups (map (\<lambda>a. row_id (wd_heap w a)) (wd_rows w e)) in
      cascade (ap_schema A) e ids (mark_changed e (push_op (DurClear e) (write_rows e [] r))))"

definition call_body :: "string list \<Rightarrow> gval list \<Rightarrow> (string \<times> gval) list" where
  "call_body params vals =
     fold (\<lambda>(i, v) m. alput m (if i < length params then params ! i else ''arg'' @ show_nat i) v)
       (zip [0..<length vals] vals) []"

definition exec_call :: "app \<Rightarrow> string \<Rightarrow> string \<Rightarrow> expr list \<Rightarrow> string \<Rightarrow> string \<Rightarrow> bool \<Rightarrow> run \<Rightarrow> flow" where
  "exec_call A sv opn args x ret is_list r =
     (case ap_service_ops A sv of
        None \<Rightarrow> Next r
      | Some ops \<Rightarrow>
          let params = (case alget ops opn of Some ps \<Rightarrow> ps | None \<Rightarrow> []);
              body = call_body params (map (\<lambda>e. plain (ev A r e)) args)
          in if x = [] then Next r
             else case ap_call A sv opn body (ret = ''bytes'') of
                    None \<Rightarrow> Ret 502 (sv @ ''.'' @ opn @ '' unavailable'') r
                  | Some res \<Rightarrow> Next (bind_var x (coerceRet A res ret is_list) r))"

definition exec_do :: "app \<Rightarrow> string \<Rightarrow> expr list \<Rightarrow> string \<Rightarrow> string \<Rightarrow> bool \<Rightarrow> nat \<Rightarrow> run \<Rightarrow> flow" where
  "exec_do A p args x ret is_list depth r =
     (case ap_proc A p of
        None \<Rightarrow> Next r
      | Some f \<Rightarrow>
          (case f (map (\<lambda>e. plain (ev A r e)) args) of
             Inl err \<Rightarrow> Ret 500 (ar_action r @ '': proc '' @ p @ '' failed: '' @ err) r
           | Inr res \<Rightarrow>
               Next (if x = [] then r else bind_var x (plainValue (coerceRetDepth A res ret is_list depth)) r)))"

definition validHeaderValue :: "string \<Rightarrow> bool" where
  "validHeaderValue v = list_all (\<lambda>c. \<not> (byte c < 32 \<and> byte c \<noteq> 9 \<or> byte c = 127)) v"

definition exec_header :: "app \<Rightarrow> string \<Rightarrow> expr \<Rightarrow> run \<Rightarrow> flow" where
  "exec_header A name e r =
     (let v = toStr (ev A r e) in
      if \<not> validHeaderValue v
      then Ret 500 (''header '' @ name @ '' has a value that is not a valid HTTP header value'') r
      else Next (r\<lparr>ar_headers := ar_headers r @ [(name, v)]\<rparr>))"

definition streamKey :: "gval list \<Rightarrow> string" where
  "streamKey vals = str_join (map toStr vals) [CHR 0x00]"

definition exec_emit :: "app \<Rightarrow> string \<Rightarrow> string \<Rightarrow> expr \<Rightarrow> expr list \<Rightarrow> expr option \<Rightarrow> run \<Rightarrow> run" where
  "exec_emit A typ name payload keys to r =
     r\<lparr>ar_emits := ar_emits r @ [\<lparr>em_type = typ, em_name = name, em_payload = ev A r payload,
         em_to = map_option (\<lambda>e. toStr (ev A r e)) to,
         em_key = (if keys = [] then [] else streamKey (map (ev A r) keys))\<rparr>]\<rparr>"

definition exec_return :: "app \<Rightarrow> expr option \<Rightarrow> nat \<Rightarrow> run \<Rightarrow> flow" where
  "exec_return A val status r =
     Ret 200 [] (r\<lparr>ar_ret := (case val of Some e \<Rightarrow> ev A r e | None \<Rightarrow> ar_ret r), ar_status := status,
       ar_returned := True\<rparr>)"

text \<open>The rows a \<open>for\<close> visits, chosen before its body first runs.\<close>

definition picked_rows :: "app \<Rightarrow> string \<Rightarrow> string \<Rightarrow> expr option \<Rightarrow> string \<Rightarrow> bool \<Rightarrow> expr option \<Rightarrow> expr option
    \<Rightarrow> run \<Rightarrow> gval list" where
  "picked_rows A x e c order desc key lim r =
     (let w = ar_world r; item = live (wd_heap w);
          kept = filter (\<lambda>a. case c of None \<Rightarrow> True | Some p \<Rightarrow> truthy (ev A (bind_var x (item a) r) p)) (wd_rows w e);
          s1 = sortRows (map item kept) order desc;
          s2 = (case key of None \<Rightarrow> s1 | Some k \<Rightarrow> sortRowsBy (\<lambda>v. ev A (bind_var x v r) k) s1 desc)
      in case lim of
           None \<Rightarrow> s2
         | Some l \<Rightarrow> let n = toInt (ev A r l) in if le64 n 0 then [] else take (nat (sint n)) s2)"


subsection \<open>Blocks\<close>

text \<open>The scope's collections follow the working set, for every entity the action has changed.\<close>

definition freshen :: "run \<Rightarrow> run" where
  "freshen r = r\<lparr>ar_scope := fold (\<lambda>e sc. alput sc e (rows_live (ar_world r) e)) (ar_changed r) (ar_scope r)\<rparr>"

text \<open>The names a statement binds for the rest of its block.\<close>

definition binds_of :: "stmt \<Rightarrow> string list" where
  "binds_of st = (case st of SAdd e fis x \<Rightarrow> if x = [] then [] else [x] | SLet x e \<Rightarrow> [x] | _ \<Rightarrow> [])"

definition unbind :: "string list \<Rightarrow> run \<Rightarrow> run" where
  "unbind xs r = r\<lparr>ar_scope := fold (\<lambda>x sc. aldel sc x) xs (ar_scope r)\<rparr>"

type_synonym result = "(nat \<times> string) \<times> run"

text \<open>A loop over values, its body run in the frame with the item bound.\<close>

fun each_item :: "(run \<Rightarrow> result) \<Rightarrow> string \<Rightarrow> gval list \<Rightarrow> run \<Rightarrow> flow" where
  "each_item body x [] r = Next r"
| "each_item body x (v # vs) r =
     (case body (bind_var x v r) of
        ((s, m), r') \<Rightarrow> if s \<noteq> 200 \<or> ar_returned r' then Ret s m r' else each_item body x vs r')"

definition loop_items :: "(run \<Rightarrow> result) \<Rightarrow> string \<Rightarrow> gval list \<Rightarrow> run \<Rightarrow> flow" where
  "loop_items body x vs r =
     (case each_item body x vs r of
        Next r' \<Rightarrow> Next (restore_var x (alget (ar_scope r) x) r')
      | Ret s m r' \<Rightarrow> Ret s m (restore_var x (alget (ar_scope r) x) r'))"

definition after_branch :: "result \<Rightarrow> flow" where
  "after_branch res = (case res of
     ((s, m), r) \<Rightarrow> if s \<noteq> 200 then Ret s m r else if ar_returned r then Ret 200 [] r else Next r)"

definition basic_stmt :: "app \<Rightarrow> stmt \<Rightarrow> run \<Rightarrow> flow" where
  "basic_stmt A st r = (case st of
     SCheck c key msg status code \<Rightarrow> exec_check A c key msg status code r
   | SAssign c e \<Rightarrow> Next (exec_assign A c e r)
   | SEstablish v role \<Rightarrow> Next (exec_establish A v role r)
   | SRevoke e \<Rightarrow> Next (r\<lparr>ar_revokes := ar_revokes r @ [toStr (ev A r e)]\<rparr>)
   | SRestate e x \<Rightarrow> Next (r\<lparr>ar_restates := ar_restates r @ [(toStr (ev A r e), toStr (ev A r x))]\<rparr>)
   | SAdd e fis x \<Rightarrow> exec_add A e fis x r
   | SSet e key f v \<Rightarrow> exec_set A e key f v r
   | SSetWhere e x c fis \<Rightarrow> exec_set_where A e x c fis r
   | SRemove e key \<Rightarrow> Next (exec_remove A e key r)
   | SRemoveWhere e x c \<Rightarrow> Next (exec_remove_where A e x c r)
   | SClear e \<Rightarrow> Next (exec_clear A e r)
   | SCall sv opn args x ret l \<Rightarrow> exec_call A sv opn args x ret l r
   | SDo p args x ret l d \<Rightarrow> exec_do A p args x ret l d r
   | SHeader name e \<Rightarrow> exec_header A name e r
   | SReturn v status \<Rightarrow> exec_return A v status r
   | SEmit t n p ks to \<Rightarrow> Next (exec_emit A t n p ks to r)
   | SLet x e \<Rightarrow> Next (bind_var x (ev A r e) r)
   | _ \<Rightarrow> Next r)"

text \<open>
  \<open>execActionBlock\<close>: the statements in order, the locals the block bound dropped however it
  ends. \<open>N\<close> runs a nested action.
\<close>

fun exec_stmt :: "app \<Rightarrow> (string \<Rightarrow> expr list \<Rightarrow> string \<Rightarrow> run \<Rightarrow> flow) \<Rightarrow> stmt \<Rightarrow> run \<Rightarrow> flow"
  and exec_stmts :: "app \<Rightarrow> (string \<Rightarrow> expr list \<Rightarrow> string \<Rightarrow> run \<Rightarrow> flow) \<Rightarrow> stmt list \<Rightarrow> string list \<Rightarrow> run \<Rightarrow> result" where
  "exec_stmt A N (SIf c yes no) r =
     (if truthy (ev A r c) then after_branch (exec_stmts A N yes [] r)
      else after_branch (exec_stmts A N no [] r))"
| "exec_stmt A N (SFor e x c order desc key lim body) r =
     loop_items (\<lambda>r. exec_stmts A N body [] r) x (picked_rows A x e c order desc key lim r) r"
| "exec_stmt A N (SForeach x e body) r =
     loop_items (\<lambda>r. exec_stmts A N body [] r) x (list_of (ev A r e)) r"
| "exec_stmt A N (SRun name args x) r = N name args x r"
| "exec_stmt A N st r = basic_stmt A st r"
| "exec_stmts A N [] bound r = ((200, []), unbind bound r)"
| "exec_stmts A N (st # sts) bound r =
     (case exec_stmt A N st r of
        Ret s m r' \<Rightarrow> ((s, m), unbind bound r')
      | Next r' \<Rightarrow> exec_stmts A N sts (bound @ binds_of st) (freshen r'))"

subsection \<open>Policies and nested runs\<close>

definition policyPasses :: "app \<Rightarrow> run \<Rightarrow> require \<Rightarrow> bool" where
  "policyPasses A r req =
     (case alget (ap_policies A) (rq_name req) of
        None \<Rightarrow> False
      | Some pol \<Rightarrow>
          let C = frame_ctx A r; sc = scope_now r in
          truthy (eval C
            (if po_params pol = [] then sc
             else fold (\<lambda>(i, p) ps. alput ps (pa_name p)
                 (coerce (if i < length (rq_args req) then eval C sc (rq_args req ! i) else GNil) (pa_type p)))
               (zip [0..<length (po_params pol)] (po_params pol)) sc)
            (po_expr pol)))"

fun first_denied :: "app \<Rightarrow> run \<Rightarrow> require list \<Rightarrow> string option" where
  "first_denied A r [] = None"
| "first_denied A r (q # qs) = (if policyPasses A r q then first_denied A r qs else Some (rq_name q))"

definition activeTenant :: "sess option \<Rightarrow> i64" where
  "activeTenant os = (case os of None \<Rightarrow> 0 | Some s \<Rightarrow> toInt (field (ss_state s) ''__tenant''))"

definition tenantRoleFor :: "world \<Rightarrow> string \<Rightarrow> i64 \<Rightarrow> string" where
  "tenantRoleFor w actor tid =
     (if tid = 0 \<or> actor = [] \<or> actor = ''guest'' then []
      else case find (\<lambda>m. toInt (field m ''tenant'') = tid \<and> toStr (field m ''username'') = actor)
                 (rows_now w ''FacetMembership'') of
             Some m \<Rightarrow> toStr (field m ''role'') | None \<Rightarrow> [])"

text \<open>\<open>scope\<close>: identity, tenant, every collection a program may see, then the session's cells.\<close>

definition scope_of :: "app \<Rightarrow> world \<Rightarrow> sess option \<Rightarrow> scope" where
  "scope_of A w os =
     (let actor = (case os of Some s \<Rightarrow> ss_actor s | None \<Rightarrow> ''guest'');
          role = (case os of Some s \<Rightarrow> ss_role s | None \<Rightarrow> ''guest'');
          verified = (case os of Some s \<Rightarrow> ss_verified s | None \<Rightarrow> False);
          visitor = (case os of Some s \<Rightarrow> ss_visitor s | None \<Rightarrow> []);
          tid = activeTenant os;
          base = [(''actor'', GStr actor), (''role'', GStr role), (''verified'', GBool verified),
                  (''session'', GStr visitor), (''tenant'', GInt tid),
                  (''tenantRole'', GStr (tenantRoleFor w actor tid))];
          ents = filter (\<lambda>e. \<not> ap_reserved A e) (map en_name (sc_entities (ap_schema A)));
          cells = (case os of Some s \<Rightarrow> filter (\<lambda>p. \<not> has_prefix (fst p) ''__'') (ss_state s) | None \<Rightarrow> [])
      in fold (\<lambda>(k, v) sc. alput sc k v) cells (fold (\<lambda>e sc. alput sc e (rows_live w e)) ents base))"

fun bind_params :: "wire_types \<Rightarrow> param list \<Rightarrow> gval list \<Rightarrow> scope \<Rightarrow> (param \<times> gval) + scope" where
  "bind_params wts [] vs sc = Inr sc"
| "bind_params wts (p # ps) [] sc = bind_params wts ps [] (alput sc (pa_name p) (paramZero p))"
| "bind_params wts (p # ps) (v # vs) sc =
     (case argFor wts v p of
        None \<Rightarrow> Inl (p, v)
      | Some w \<Rightarrow> bind_params wts ps vs (alput sc (pa_name p) w))"

definition quoted :: "string \<Rightarrow> string" where
  "quoted s = [CHR 0x22] @ s @ [CHR 0x22]"

definition expects :: "string \<Rightarrow> param \<Rightarrow> string" where
  "expects act p = act @ '': parameter '' @ quoted (pa_name p) @ '' expects '' @ paramTypeName p"

text \<open>The callee's frame: the world and the caller's identity, not the caller's locals.\<close>

definition nested_frame :: "app \<Rightarrow> action \<Rightarrow> expr list \<Rightarrow> run \<Rightarrow> (nat \<times> string) + run" where
  "nested_frame A callee args r =
     (let sc0 = scope_of A (ar_world r) (if ar_live r then Some (ar_ses r) else None);
          sc1 = fold (\<lambda>n sc. alput sc n (field (ar_scope r) n)) [''actor'', ''role'', ''verified''] sc0;
          sc2 = fold (\<lambda>e sc. alput sc e (rows_live (ar_world r) e))
            (filter (\<lambda>e. \<not> ap_reserved A e) (map en_name (sc_entities (ap_schema A)))) sc1
      in case bind_params (ap_wires A) (ac_params callee) (map (ev A r) args) sc2 of
           Inl (p, v) \<Rightarrow> Inl (400, expects (ac_name callee) p)
         | Inr sc \<Rightarrow>
             let child = r\<lparr>ar_action := ac_name callee, ar_scope := sc, ar_given := [], ar_ret := GNil,
                   ar_status := 0, ar_returned := False\<rparr>
             in case first_denied A child (ac_requires callee) of
                  Some n \<Rightarrow> Inl (403, ''forbidden: '' @ n)
                | None \<Rightarrow> Inr child)"

text \<open>The caller goes on with what the callee did to the world, the session and the batch.\<close>

definition rejoin :: "run \<Rightarrow> run \<Rightarrow> run" where
  "rejoin r child = child\<lparr>ar_action := ar_action r, ar_scope := ar_scope r, ar_given := ar_given r,
     ar_ret := ar_ret r, ar_status := ar_status r, ar_returned := ar_returned r, ar_err := ar_err r\<rparr>"

definition max_run_depth :: nat where
  "max_run_depth = 16"

fun run_nested :: "nat \<Rightarrow> app \<Rightarrow> string \<Rightarrow> expr list \<Rightarrow> string \<Rightarrow> run \<Rightarrow> flow" where
  "run_nested d A name args x r =
     (case alget (ap_actions A) name of
        None \<Rightarrow> Ret 500 (''run: unknown action '' @ name) r
      | Some callee \<Rightarrow>
          (case d of
             0 \<Rightarrow> Ret 500 (''run: '' @ name @ '' nests deeper than '' @ show_nat max_run_depth @ '' actions'') r
           | Suc d' \<Rightarrow>
               (case nested_frame A callee args r of
                  Inl (s, m) \<Rightarrow> Ret s m r
                | Inr child \<Rightarrow>
                    (case exec_stmts A (run_nested d' A) (ac_body callee) [] child of
                       ((s, m), c') \<Rightarrow>
                         if s \<noteq> 200 then Ret s m ((rejoin r c')\<lparr>ar_err := ar_err c'\<rparr>)
                         else Next (if x = [] then rejoin r c' else bind_var x (ar_ret c') (rejoin r c'))))))"

declare run_nested.simps [simp del]

definition execActionBlock :: "app \<Rightarrow> stmt list \<Rightarrow> run \<Rightarrow> result" where
  "execActionBlock A body r = exec_stmts A (run_nested max_run_depth A) body [] r"

subsection \<open>The durable batch\<close>

definition ephemeral :: "schema \<Rightarrow> string \<Rightarrow> bool" where
  "ephemeral S e = (case entityByName S e of Some d \<Rightarrow> en_ephemeral d | None \<Rightarrow> False)"

definition op_entity :: "dur_op \<Rightarrow> string" where
  "op_entity d = (case d of DurSave e _ \<Rightarrow> e | DurDelete e _ \<Rightarrow> e | DurClear e \<Rightarrow> e)"

text \<open>A saved row is what its address holds when the batch is replayed.\<close>

definition tx_of :: "world \<Rightarrow> dur_op \<Rightarrow> tx_op" where
  "tx_of w d = (case d of DurSave e a \<Rightarrow> TxSave e (wd_heap w a) | DurDelete e i \<Rightarrow> TxDelete e i | DurClear e \<Rightarrow> TxClear e)"

text \<open>\<open>commit\<close>: the store's own transaction over the batch; \<open>None\<close> when the store never answers.\<close>

definition commit_ops :: "nat \<Rightarrow> app \<Rightarrow> dur_op list \<Rightarrow> world \<Rightarrow> (string option \<times> world) option" where
  "commit_ops n A ops w =
     (let live_ops = filter (\<lambda>d. \<not> ephemeral (ap_schema A) (op_entity d)) ops in
      if live_ops = [] then Some (None, w)
      else map_option (\<lambda>(err, st). (map_option (\<lambda>m. ''commit failed: '' @ m) err, w\<lparr>wd_store := st\<rparr>))
        (Commit n (map (tx_of w) live_ops) (wd_store w)))"

subsection \<open>The authoritative run\<close>

record reply =
  rp_deltas :: "(string \<times> gval) list"
  rp_value :: gval
  rp_sid :: string
  rp_status :: nat
  rp_msg :: string
  rp_code :: string
  rp_http :: nat
  rp_headers :: "(string \<times> string) list"
  rp_emits :: "emitted list"

definition refusal :: "string \<Rightarrow> nat \<Rightarrow> string \<Rightarrow> string \<Rightarrow> reply" where
  "refusal sid status msg code = \<lparr>rp_deltas = [], rp_value = GNil, rp_sid = sid, rp_status = status,
     rp_msg = msg, rp_code = code, rp_http = 0, rp_headers = [], rp_emits = []\<rparr>"

definition newSession :: "app \<Rightarrow> string \<Rightarrow> string \<Rightarrow> sess" where
  "newSession A actor role = \<lparr>ss_actor = actor, ss_role = role, ss_verified = False,
     ss_visitor = ap_new_visitor A, ss_pending = [], ss_state = ap_new_state A\<rparr>"

definition ensureSession :: "app \<Rightarrow> string \<Rightarrow> world \<Rightarrow> world" where
  "ensureSession A sid w =
     (if sid \<notin> system_sids \<or> alget (wd_sessions w) sid \<noteq> None then w
      else w\<lparr>wd_sessions := alput (wd_sessions w) sid
        (if sid = ''__system'' then (newSession A ''system'' ''admin'')\<lparr>ss_verified := True\<rparr>
         else newSession A ''guest'' ''guest'')\<rparr>)"

definition given_params :: "param list \<Rightarrow> gval list \<Rightarrow> string list" where
  "given_params ps args = map (\<lambda>(p, v). pa_name p) (filter (\<lambda>(p, v). v \<noteq> GNil) (zip ps args))"

definition start_run :: "app \<Rightarrow> string \<Rightarrow> action \<Rightarrow> gval list \<Rightarrow> world \<Rightarrow> scope \<Rightarrow> run" where
  "start_run A sid act args w sc =
     (let ses = (case alget (wd_sessions w) sid of Some s \<Rightarrow> s | None \<Rightarrow> newSession A ''guest'' ''guest'') in
      \<lparr>ar_world = w, ar_ses = ses, ar_live = (alget (wd_sessions w) sid \<noteq> None), ar_undo = newUndoLog ses,
       ar_sid = sid, ar_actor = toStr (field sc ''actor''), ar_action = ac_name act,
       ar_given = given_params (ac_params act) args, ar_scope = sc, ar_deltas = [], ar_changed = [], ar_ops = [],
       ar_ret = GNil, ar_status = 0, ar_returned = False, ar_err = [], ar_rekey = [], ar_revokes = [],
       ar_restates = [], ar_headers = [], ar_emits = []\<rparr>)"

text \<open>The world as a run leaves it: a session the server holds is the run's.\<close>

definition put_session :: "run \<Rightarrow> world" where
  "put_session r =
     (if ar_live r then (ar_world r)\<lparr>wd_sessions := alput (wd_sessions (ar_world r)) (ar_sid r) (ar_ses r)\<rparr>
      else ar_world r)"

definition revokeVisitor :: "app \<Rightarrow> string \<Rightarrow> string \<Rightarrow> world \<Rightarrow> bool \<times> world" where
  "revokeVisitor A key own w =
     (let ended = (\<lambda>(i, s). ss_visitor s = key \<and> sessionToken A i \<noteq> []) in
      (\<exists>p \<in> set (wd_sessions w). ended p \<and> fst p = own,
       w\<lparr>wd_sessions := filter (\<lambda>p. \<not> ended p) (wd_sessions w)\<rparr>))"

fun revoke_all :: "app \<Rightarrow> string list \<Rightarrow> string \<Rightarrow> world \<Rightarrow> string \<times> world" where
  "revoke_all A [] after w = (after, w)"
| "revoke_all A (key # keys) after w =
     (if key = [] then revoke_all A keys after w
      else case revokeVisitor A key after w of
             (own, w') \<Rightarrow> revoke_all A keys (if own then [] else after) w')"

definition restate_session :: "string \<Rightarrow> sess \<Rightarrow> sess" where
  "restate_session role s = s\<lparr>ss_role := role, ss_state := alput (ss_state s) ''role'' (GStr role)\<rparr>"

definition restateActor :: "string \<Rightarrow> string \<Rightarrow> world \<Rightarrow> world" where
  "restateActor actor role w =
     (if actor = [] \<or> actor = ''guest'' then w
      else w\<lparr>wd_sessions := map (\<lambda>(i, s). (i,
          if ss_actor s = actor \<and> i \<notin> system_sids then restate_session role s else s)) (wd_sessions w)\<rparr>)"

text \<open>Session effects, which land once the batch is durable: the re-key, then the revocations, then the roles.\<close>

definition session_effects :: "app \<Rightarrow> run \<Rightarrow> world \<Rightarrow> string \<times> world" where
  "session_effects A r w =
     (let moved = (if ar_rekey r \<noteq> []
            then (ar_rekey r, w\<lparr>wd_sessions := alput (aldel (wd_sessions w) (ar_sid r)) (ar_rekey r) (ar_ses r)\<rparr>)
            else (ar_sid r, w));
          ended = revoke_all A (ar_revokes r) (fst moved) (snd moved)
      in (fst ended, fold (\<lambda>(a, x) w. restateActor a x w) (ar_restates r) (snd ended)))"

definition succeed :: "app \<Rightarrow> string \<Rightarrow> string \<Rightarrow> run \<Rightarrow> world \<Rightarrow> reply \<times> world" where
  "succeed A actor act r w =
     (let eff = session_effects A r w in
      (\<lparr>rp_deltas = ar_deltas r, rp_value = ar_ret r, rp_sid = fst eff, rp_status = 200, rp_msg = [],
        rp_code = [], rp_http = ar_status r, rp_headers = ar_headers r, rp_emits = ar_emits r\<rparr>,
       (snd eff)\<lparr>wd_audit := wd_audit (snd eff) @ [audit_line A actor act True []]\<rparr>))"

text \<open>The body, then the batch; whatever fails, the working set is rolled back.\<close>

definition finish_run :: "nat \<Rightarrow> app \<Rightarrow> action \<Rightarrow> run \<Rightarrow> (reply \<times> world) option" where
  "finish_run n A act r =
     (case execActionBlock A (ac_body act) r of
        ((s, m), r1) \<Rightarrow>
          if s \<noteq> 200 then Some (refusal (ar_sid r) s m (ar_err r1), put_session (rollback r1))
          else case commit_ops n A (ar_ops r1) (ar_world r1) of
                 None \<Rightarrow> None
               | Some (Some err, w) \<Rightarrow>
                   Some (refusal (ar_sid r) 500 ''the write could not be stored and was rolled back'' [],
                     put_session (recordAudit A False (''store write failed: '' @ err) (rollback (r1\<lparr>ar_world := w\<rparr>))))
               | Some (None, w) \<Rightarrow> Some (succeed A (ar_actor r) (ac_name act) r1 (put_session (r1\<lparr>ar_world := w\<rparr>))))"

definition runActionLocked :: "nat \<Rightarrow> app \<Rightarrow> string \<Rightarrow> action \<Rightarrow> gval list \<Rightarrow> world \<Rightarrow> (reply \<times> world) option" where
  "runActionLocked n A sid act args w0 =
     (let w = ensureSession A sid w0;
          sc0 = alput (scope_of A w (alget (wd_sessions w) sid)) ''sessionToken'' (GStr (sessionToken A sid))
      in case bind_params (ap_wires A) (ac_params act) args sc0 of
           Inl (p, v) \<Rightarrow> Some (refusal sid 400 (expects (ac_name act) p @ '', got '' @ ap_show A v) [], w)
         | Inr sc \<Rightarrow>
             let r = start_run A sid act args w sc in
             (case first_denied A r (ac_requires act) of
                Some q \<Rightarrow> Some (refusal sid 403 (''forbidden: '' @ q) [], ar_world (recordAudit A False (''denied: '' @ q) r))
              | None \<Rightarrow> finish_run n A act r))"

subsection \<open>Reactions\<close>

definition max_trigger_depth :: nat where
  "max_trigger_depth = 64"

definition reactions :: "app \<Rightarrow> string \<Rightarrow> action list" where
  "reactions A name =
     List.map_filter (\<lambda>(on, act). if on = name then alget (ap_actions A) act else None) (ap_triggers A)"

fun fire_each :: "(action \<Rightarrow> world \<Rightarrow> (reply \<times> world) option) \<Rightarrow> action list \<Rightarrow> world \<Rightarrow> world option" where
  "fire_each go [] w = Some w"
| "fire_each go (act # acts) w = (case go act w of None \<Rightarrow> None | Some (_, w') \<Rightarrow> fire_each go acts w')"

text \<open>\<open>runActionDepth\<close> with \<open>d\<close> levels of reactions left: a success fires its own.\<close>

fun run_depth :: "nat \<Rightarrow> nat \<Rightarrow> app \<Rightarrow> string \<Rightarrow> action \<Rightarrow> gval list \<Rightarrow> world \<Rightarrow> (reply \<times> world) option" where
  "run_depth d n A sid act args w =
     (case runActionLocked n A sid act args w of
        None \<Rightarrow> None
      | Some (rp, w') \<Rightarrow>
          if rp_status rp \<noteq> 200 then Some (rp, w')
          else (case d of
                  0 \<Rightarrow> Some (rp, w')
                | Suc d' \<Rightarrow>
                    map_option (Pair rp)
                      (fire_each (\<lambda>a w. run_depth d' n A ''__system'' a [] w) (reactions A (ac_name act)) w')))"

declare run_depth.simps [simp del]

definition runAction :: "nat \<Rightarrow> app \<Rightarrow> string \<Rightarrow> action \<Rightarrow> gval list \<Rightarrow> world \<Rightarrow> (reply \<times> world) option" where
  "runAction n A = run_depth max_trigger_depth n A"

end
