(* ===== verification/Accounts.thy ===== *)
theory Accounts
  imports ActionExec
begin

text \<open>
  The identities behind an action's gate: the built-in accounts (runtime/auth.go), the
  brute-force lockout in front of them (runtime/ratelimit.go) and tenancy
  (runtime/tenancy.go, runtime/enterprise.go), over the same working set, sessions and store
  as the actions. Password hashing, one-time codes and the signing of tokens are functions of
  the model; a fresh token, secret or session identifier is an argument of the step that
  mints it.
\<close>

subsection \<open>The lockout\<close>

record fail_record =
  fr_count :: nat
  fr_first :: int
  fr_until :: "int option"

record lockout =
  lo_fails :: "(string \<times> fail_record) list"
  lo_max :: nat
  lo_window :: int
  lo_cool :: int

definition minute :: int where
  "minute = 60000000000"

definition newLockout :: lockout where
  "newLockout = \<lparr>lo_fails = [], lo_max = 5, lo_window = 15 * minute, lo_cool = 15 * minute\<rparr>"

definition locked :: "int \<Rightarrow> lockout \<Rightarrow> string \<Rightarrow> bool" where
  "locked now l key =
     (case alget (lo_fails l) key of
        None \<Rightarrow> False
      | Some r \<Rightarrow> (case fr_until r of None \<Rightarrow> False | Some u \<Rightarrow> now < u))"

text \<open>A failure counts from the first of its cluster; the threshold locks, and locks again.\<close>

definition note_fail :: "int \<Rightarrow> string \<Rightarrow> lockout \<Rightarrow> lockout" where
  "note_fail now key l =
     (let fresh = \<lparr>fr_count = 0, fr_first = now, fr_until = None\<rparr>;
          r = (case alget (lo_fails l) key of
                 None \<Rightarrow> fresh
               | Some r \<Rightarrow> if lo_window l < now - fr_first r then fresh else r);
          r1 = r\<lparr>fr_count := Suc (fr_count r)\<rparr>;
          r2 = (if lo_max l \<le> fr_count r1 then r1\<lparr>fr_until := Some (now + lo_cool l)\<rparr> else r1)
      in l\<lparr>lo_fails := alput (lo_fails l) key r2\<rparr>)"

definition reset_fails :: "string \<Rightarrow> lockout \<Rightarrow> lockout" where
  "reset_fails key l = l\<lparr>lo_fails := aldel (lo_fails l) key\<rparr>"

subsection \<open>The environment, the state and the answers\<close>

record crypt =
  cr_hash :: "string \<Rightarrow> string + string"
  cr_compare :: "string \<Rightarrow> string \<Rightarrow> bool"
  cr_sign :: "string \<Rightarrow> string"
  cr_totp :: "string \<Rightarrow> string \<Rightarrow> int \<Rightarrow> bool"
  cr_uri :: "string \<Rightarrow> string \<Rightarrow> string"

text \<open>What a step draws from the outside: the clock in nanoseconds and the random values.\<close>

record draw =
  dr_now :: int
  dr_sid :: string
  dr_token :: string
  dr_secret :: string

record site =
  si_world :: world
  si_lock :: lockout

datatype answer = Refused nat string | Answered "(string \<times> gval) list"

definition passwordMatches :: "crypt \<Rightarrow> string \<Rightarrow> string \<Rightarrow> bool" where
  "passwordMatches C hash candidate \<longleftrightarrow> hash \<noteq> [] \<and> cr_compare C hash candidate"

definition hashToken :: "crypt \<Rightarrow> string \<Rightarrow> string" where
  "hashToken C token = cr_sign C (''token:'' @ token)"

definition tokenEqual :: "crypt \<Rightarrow> string \<Rightarrow> string \<Rightarrow> bool" where
  "tokenEqual C presented stored \<longleftrightarrow> stored \<noteq> [] \<and> hashToken C presented = stored"

definition unix :: "int \<Rightarrow> int" where
  "unix ns = ns div 1000000000"

definition note_audit :: "draw \<Rightarrow> string \<Rightarrow> string \<Rightarrow> bool \<Rightarrow> string \<Rightarrow> world \<Rightarrow> world" where
  "note_audit d actor act allowed detail w = w\<lparr>wd_audit := wd_audit w
     @ [\<lparr>au_time = word_of_int (unix (dr_now d)), au_actor = actor, au_action = act, au_allowed = allowed, au_detail = detail\<rparr>]\<rparr>"

subsection \<open>Rows the runtime manages\<close>

definition put_field :: "addr \<Rightarrow> string \<Rightarrow> gval \<Rightarrow> world \<Rightarrow> world" where
  "put_field a f v w = w\<lparr>wd_heap := (wd_heap w)(a := alput (wd_heap w a) f v)\<rparr>"

definition saveReserved :: "string \<Rightarrow> addr \<Rightarrow> world \<Rightarrow> world" where
  "saveReserved e a w = w\<lparr>wd_store := Save e (wd_heap w a) (wd_store w)\<rparr>"

definition insertReserved :: "string \<Rightarrow> row \<Rightarrow> world \<Rightarrow> addr \<times> world" where
  "insertReserved e rw w =
     (let i = wd_ids w e + 1; a = wd_next w; m = alput rw ''id'' (GInt i) in
      (a, w\<lparr>wd_heap := (wd_heap w)(a := m), wd_next := Suc a, wd_ids := (wd_ids w)(e := i),
           wd_rows := (wd_rows w)(e := wd_rows w e @ [a]), wd_store := Save e m (wd_store w)\<rparr>))"

text \<open>The first row with the id; what the store makes of the delete is its own affair.\<close>

definition removeReserved :: "nat \<Rightarrow> string \<Rightarrow> i64 \<Rightarrow> world \<Rightarrow> world" where
  "removeReserved n e i w =
     (let other = (\<lambda>a. row_id (wd_heap w a) \<noteq> i); as = wd_rows w e in
      if list_all other as then w
      else w\<lparr>wd_rows := (wd_rows w)(e := takeWhile other as @ tl (dropWhile other as)),
             wd_store := (case Delete n e (GInt i) (wd_store w) of Some (Inr s) \<Rightarrow> s | _ \<Rightarrow> wd_store w)\<rparr>)"

definition user_entity :: string where
  "user_entity = ''FacetUser''"

definition findUser :: "world \<Rightarrow> string \<Rightarrow> addr option" where
  "findUser w name = find (\<lambda>a. toStr (field (wd_heap w a) ''username'') = name) (wd_rows w user_entity)"

definition actorOf :: "world \<Rightarrow> string \<Rightarrow> string" where
  "actorOf w sid = (case alget (wd_sessions w) sid of Some s \<Rightarrow> ss_actor s | None \<Rightarrow> ''guest'')"

subsection \<open>Sessions\<close>

definition edit_session :: "string \<Rightarrow> (sess \<Rightarrow> sess) \<Rightarrow> world \<Rightarrow> world" where
  "edit_session sid f w =
     (case alget (wd_sessions w) sid of
        None \<Rightarrow> w
      | Some s \<Rightarrow> w\<lparr>wd_sessions := alput (wd_sessions w) sid (f s)\<rparr>)"

definition signIn :: "string \<Rightarrow> row \<Rightarrow> world \<Rightarrow> world" where
  "signIn sid u = edit_session sid (\<lambda>s. s\<lparr>ss_actor := toStr (field u ''username''), ss_role := toStr (field u ''role''),
     ss_verified := truthy (field u ''verified''), ss_pending := []\<rparr>)"

definition rotateSession :: "string \<Rightarrow> string \<Rightarrow> world \<Rightarrow> world" where
  "rotateSession fresh old w =
     (case alget (wd_sessions w) old of
        None \<Rightarrow> w
      | Some s \<Rightarrow> w\<lparr>wd_sessions := alput (aldel (wd_sessions w) old) fresh s\<rparr>)"

definition every_session :: "string \<Rightarrow> (sess \<Rightarrow> sess) \<Rightarrow> world \<Rightarrow> world" where
  "every_session actor f w =
     w\<lparr>wd_sessions := map (\<lambda>(i, s). (i, if ss_actor s = actor then f s else s)) (wd_sessions w)\<rparr>"

subsection \<open>The account actions\<close>

definition reply_reload :: answer where
  "reply_reload = Answered [(''reload'', GBool True)]"

definition authSignup :: "crypt \<Rightarrow> app \<Rightarrow> draw \<Rightarrow> string \<Rightarrow> string \<Rightarrow> string \<Rightarrow> site \<Rightarrow> answer \<times> site" where
  "authSignup C A d sid username password st =
     (if username = [] \<or> password = [] then (Refused 400 ''username and password are required'', st)
      else case cr_hash C password of
        Inl err \<Rightarrow> (Refused 400 (''password '' @ err), st)
      | Inr hash \<Rightarrow>
          let w = si_world st in
          if findUser w username \<noteq> None then (Refused 409 ''username is taken'', st)
          else let role = (if wd_rows w user_entity = [] then ''admin'' else ''member'');
                   rw = [(''username'', GStr username), (''password'', GStr hash), (''role'', GStr role),
                     (''email'', GStr []), (''verified'', GBool False), (''verifyToken'', GStr (hashToken C (dr_token d))),
                     (''resetToken'', GStr []), (''resetExpires'', GInt 0), (''mfaSecret'', GStr []), (''mfaEnabled'', GBool False)]
               in case insertReserved user_entity rw w of
                    (a, w1) \<Rightarrow>
                      (Answered [(''reload'', GBool True), (''verifyToken'', GStr (dr_token d)), (''token'', GStr (ap_sign A (dr_sid d)))],
                       st\<lparr>si_world := note_audit d username ''signup'' True []
                          (signIn (dr_sid d) (wd_heap w1 a) (rotateSession (dr_sid d) sid w1))\<rparr>))"

definition authLogin :: "crypt \<Rightarrow> app \<Rightarrow> draw \<Rightarrow> string \<Rightarrow> string \<Rightarrow> string \<Rightarrow> site \<Rightarrow> answer \<times> site" where
  "authLogin C A d sid username password st =
     (let w = si_world st; l = si_lock st; denied = Refused 401 ''invalid username or password'';
          fail = st\<lparr>si_world := note_audit d username ''login'' False ''bad credentials'' w, si_lock := note_fail (dr_now d) username l\<rparr>
      in if locked (dr_now d) l username
         then (Refused 429 ''account temporarily locked after too many attempts'',
               st\<lparr>si_world := note_audit d username ''login'' False ''locked out'' w\<rparr>)
         else case findUser w username of
                None \<Rightarrow> (denied, fail)
              | Some a \<Rightarrow>
                  let u = wd_heap w a; l' = reset_fails username l in
                  if \<not> passwordMatches C (toStr (field u ''password'')) password then (denied, fail)
                  else if truthy (field u ''mfaEnabled'') then
                    (Answered [(''mfa'', GBool True)],
                     \<lparr>si_world = note_audit d username ''login'' True ''mfa required''
                        (edit_session sid (\<lambda>s. s\<lparr>ss_pending := username\<rparr>) w), si_lock = l'\<rparr>)
                  else
                    (Answered [(''reload'', GBool True), (''token'', GStr (ap_sign A (dr_sid d)))],
                     \<lparr>si_world = note_audit d username ''login'' True [] (signIn (dr_sid d) u (rotateSession (dr_sid d) sid w)),
                      si_lock = l'\<rparr>))"

definition mfa_ok :: "crypt \<Rightarrow> draw \<Rightarrow> string \<Rightarrow> string \<Rightarrow> string \<Rightarrow> world \<Rightarrow> addr option" where
  "mfa_ok C d sid username code w =
     (case alget (wd_sessions w) sid of
        None \<Rightarrow> None
      | Some s \<Rightarrow>
          if ss_pending s \<noteq> username then None
          else case findUser w username of
                 None \<Rightarrow> None
               | Some a \<Rightarrow> if truthy (field (wd_heap w a) ''mfaEnabled'')
                             \<and> cr_totp C (toStr (field (wd_heap w a) ''mfaSecret'')) code (dr_now d)
                           then Some a else None)"

definition authLoginMFA :: "crypt \<Rightarrow> draw \<Rightarrow> string \<Rightarrow> string \<Rightarrow> string \<Rightarrow> site \<Rightarrow> answer \<times> site" where
  "authLoginMFA C d sid username code st =
     (let w = si_world st; l = si_lock st in
      if locked (dr_now d) l username then (Refused 429 ''account temporarily locked after too many attempts'', st)
      else case mfa_ok C d sid username code w of
             None \<Rightarrow> (Refused 401 ''invalid code'',
               \<lparr>si_world = note_audit d username ''loginMFA'' False ''bad code'' w, si_lock = note_fail (dr_now d) username l\<rparr>)
           | Some a \<Rightarrow> (reply_reload,
               \<lparr>si_world = note_audit d username ''loginMFA'' True []
                  (signIn (dr_sid d) (wd_heap w a) (rotateSession (dr_sid d) sid w)),
                si_lock = reset_fails username l\<rparr>))"

definition guest_again :: "sess \<Rightarrow> sess" where
  "guest_again s = s\<lparr>ss_actor := ''guest'', ss_role := ''guest'', ss_verified := False, ss_pending := []\<rparr>"

definition authLogout :: "draw \<Rightarrow> string \<Rightarrow> site \<Rightarrow> answer \<times> site" where
  "authLogout d sid st =
     (let w = si_world st; actor = (case alget (wd_sessions w) sid of None \<Rightarrow> [] | Some s \<Rightarrow> ss_actor s) in
      (reply_reload, st\<lparr>si_world := note_audit d actor ''logout'' True []
         (rotateSession (dr_sid d) sid (edit_session sid guest_again w))\<rparr>))"

definition authSetRole :: "draw \<Rightarrow> string \<Rightarrow> string \<Rightarrow> string \<Rightarrow> site \<Rightarrow> answer \<times> site" where
  "authSetRole d sid username role st =
     (let w = si_world st; caller = alget (wd_sessions w) sid in
      if role \<noteq> ''admin'' \<and> role \<noteq> ''member'' then (Refused 400 ''role must be admin or member'', st)
      else if (case caller of None \<Rightarrow> True | Some s \<Rightarrow> ss_role s \<noteq> ''admin'')
      then (Refused 403 ''forbidden: admin only'',
            st\<lparr>si_world := note_audit d (case caller of None \<Rightarrow> [] | Some s \<Rightarrow> ss_actor s) ''setRole'' False ''not admin'' w\<rparr>)
      else case findUser w username of
             None \<Rightarrow> (Refused 404 ''no such user'', st)
           | Some a \<Rightarrow> (Answered [(''ok'', GBool True)],
               st\<lparr>si_world := note_audit d (actorOf w sid) ''setRole'' True (username @ '' -> '' @ role)
                  (every_session username (\<lambda>s. s\<lparr>ss_role := role\<rparr>)
                    (saveReserved user_entity a (put_field a ''role'' (GStr role) w)))\<rparr>))"

definition authRequestReset :: "crypt \<Rightarrow> draw \<Rightarrow> string \<Rightarrow> site \<Rightarrow> answer \<times> site" where
  "authRequestReset C d username st =
     (let w = si_world st in
      case findUser w username of
        None \<Rightarrow> (Answered [(''ok'', GBool True)], st\<lparr>si_world := note_audit d username ''requestReset'' False [] w\<rparr>)
      | Some a \<Rightarrow> (Answered [(''ok'', GBool True), (''resetToken'', GStr (dr_token d))],
          st\<lparr>si_world := note_audit d username ''requestReset'' True []
            (saveReserved user_entity a
              (put_field a ''resetExpires'' (GInt (word_of_int (unix (dr_now d + 60 * minute))))
                (put_field a ''resetToken'' (GStr (hashToken C (dr_token d))) w)))\<rparr>))"

definition reset_ok :: "crypt \<Rightarrow> draw \<Rightarrow> string \<Rightarrow> string \<Rightarrow> world \<Rightarrow> addr option" where
  "reset_ok C d username token w =
     (case findUser w username of
        None \<Rightarrow> None
      | Some a \<Rightarrow>
          let u = wd_heap w a in
          if tokenEqual C token (toStr (field u ''resetToken'')) \<and> unix (dr_now d) < sint (toInt (field u ''resetExpires''))
          then Some a else None)"

definition authResetPassword :: "crypt \<Rightarrow> draw \<Rightarrow> string \<Rightarrow> string \<Rightarrow> string \<Rightarrow> site \<Rightarrow> answer \<times> site" where
  "authResetPassword C d username token password st =
     (if password = [] then (Refused 400 ''a new password is required'', st)
      else case cr_hash C password of
        Inl err \<Rightarrow> (Refused 400 (''password '' @ err), st)
      | Inr hash \<Rightarrow>
          let w = si_world st in
          (case reset_ok C d username token w of
             None \<Rightarrow> (Refused 400 ''invalid or expired reset token'',
               st\<lparr>si_world := note_audit d username ''resetPassword'' False [] w\<rparr>)
           | Some a \<Rightarrow> (Answered [(''ok'', GBool True)],
               st\<lparr>si_world := note_audit d username ''resetPassword'' True []
                 (saveReserved user_entity a (put_field a ''resetExpires'' (GInt 0)
                   (put_field a ''resetToken'' (GStr []) (put_field a ''password'' (GStr hash) w))))\<rparr>)))"

definition authVerifyEmail :: "crypt \<Rightarrow> draw \<Rightarrow> string \<Rightarrow> site \<Rightarrow> answer \<times> site" where
  "authVerifyEmail C d token st =
     (let w = si_world st in
      case find (\<lambda>a. tokenEqual C token (toStr (field (wd_heap w a) ''verifyToken''))) (wd_rows w user_entity) of
        None \<Rightarrow> (Refused 400 ''invalid verification token'',
          st\<lparr>si_world := note_audit d [] ''verifyEmail'' False ''invalid token'' w\<rparr>)
      | Some a \<Rightarrow>
          let name = toStr (field (wd_heap w a) ''username'') in
          (Answered [(''ok'', GBool True), (''reload'', GBool True)],
           st\<lparr>si_world := note_audit d name ''verifyEmail'' True []
             (every_session name (\<lambda>s. s\<lparr>ss_verified := True\<rparr>)
               (saveReserved user_entity a (put_field a ''verifyToken'' (GStr []) (put_field a ''verified'' (GBool True) w))))\<rparr>))"

definition signed_in :: "world \<Rightarrow> string \<Rightarrow> string option" where
  "signed_in w sid = (case alget (wd_sessions w) sid of
     None \<Rightarrow> None
   | Some s \<Rightarrow> if ss_actor s = [] \<or> ss_actor s = ''guest'' then None else Some (ss_actor s))"

definition authEnableMFA :: "crypt \<Rightarrow> draw \<Rightarrow> string \<Rightarrow> site \<Rightarrow> answer \<times> site" where
  "authEnableMFA C d sid st =
     (let w = si_world st in
      case signed_in w sid of
        None \<Rightarrow> (Refused 403 ''sign in first'', st)
      | Some actor \<Rightarrow>
          (case findUser w actor of
             None \<Rightarrow> (Refused 404 ''no such user'', st)
           | Some a \<Rightarrow> (Answered [(''ok'', GBool True), (''secret'', GStr (dr_secret d)), (''otpauth'', GStr (cr_uri C actor (dr_secret d)))],
               st\<lparr>si_world := note_audit d actor ''enableMFA'' True []
                 (saveReserved user_entity a (put_field a ''mfaEnabled'' (GBool False)
                   (put_field a ''mfaSecret'' (GStr (dr_secret d)) w)))\<rparr>)))"

definition authConfirmMFA :: "crypt \<Rightarrow> draw \<Rightarrow> string \<Rightarrow> string \<Rightarrow> site \<Rightarrow> answer \<times> site" where
  "authConfirmMFA C d sid code st =
     (let w = si_world st; bad = Refused 400 ''invalid code'' in
      case signed_in w sid of
        None \<Rightarrow> (Refused 403 ''sign in first'', st)
      | Some actor \<Rightarrow>
          let refuse = (bad, st\<lparr>si_world := note_audit d actor ''confirmMFA'' False [] w\<rparr>) in
          (case findUser w actor of
             None \<Rightarrow> refuse
           | Some a \<Rightarrow>
               if cr_totp C (toStr (field (wd_heap w a) ''mfaSecret'')) code (dr_now d)
               then (Answered [(''ok'', GBool True)],
                 st\<lparr>si_world := note_audit d actor ''confirmMFA'' True []
                   (saveReserved user_entity a (put_field a ''mfaEnabled'' (GBool True) w))\<rparr>)
               else refuse))"

definition argStr :: "gval list \<Rightarrow> nat \<Rightarrow> string" where
  "argStr args i = (if i < length args then toStr (args ! i) else [])"

definition runAuth :: "crypt \<Rightarrow> app \<Rightarrow> draw \<Rightarrow> string \<Rightarrow> string \<Rightarrow> gval list \<Rightarrow> site \<Rightarrow> answer \<times> site" where
  "runAuth C A d sid act args st =
     (if act = ''signup'' then authSignup C A d sid (argStr args 0) (argStr args 1) st
      else if act = ''login'' then authLogin C A d sid (argStr args 0) (argStr args 1) st
      else if act = ''logout'' then authLogout d sid st
      else if act = ''setRole'' then authSetRole d sid (argStr args 0) (argStr args 1) st
      else if act = ''requestReset'' then authRequestReset C d (argStr args 0) st
      else if act = ''resetPassword'' then authResetPassword C d (argStr args 0) (argStr args 1) (argStr args 2) st
      else if act = ''verifyEmail'' then authVerifyEmail C d (argStr args 0) st
      else if act = ''enableMFA'' then authEnableMFA C d sid st
      else if act = ''confirmMFA'' then authConfirmMFA C d sid (argStr args 0) st
      else if act = ''loginMFA'' then authLoginMFA C d sid (argStr args 0) (argStr args 1) st
      else (Refused 404 ''unknown auth action'', st))"

subsection \<open>Tenancy\<close>

definition membership_entity :: string where
  "membership_entity = ''FacetMembership''"

definition membershipOf :: "world \<Rightarrow> string \<Rightarrow> i64 \<Rightarrow> addr option" where
  "membershipOf w actor tid =
     find (\<lambda>a. toInt (field (wd_heap w a) ''tenant'') = tid \<and> toStr (field (wd_heap w a) ''username'') = actor)
       (wd_rows w membership_entity)"

definition tenantManager :: "string \<Rightarrow> bool" where
  "tenantManager role \<longleftrightarrow> role = ''owner'' \<or> role = ''admin''"

definition enter_tenant :: "string \<Rightarrow> i64 \<Rightarrow> world \<Rightarrow> world" where
  "enter_tenant sid tid = edit_session sid (\<lambda>s. s\<lparr>ss_state := alput (ss_state s) ''__tenant'' (GInt tid)\<rparr>)"

definition slug_step :: "nat \<Rightarrow> string \<times> bool \<Rightarrow> string \<times> bool" where
  "slug_step c acc = (case acc of (out, dash) \<Rightarrow>
     if (97 \<le> c \<and> c \<le> 122) \<or> (48 \<le> c \<and> c \<le> 57) then (out @ [char_of c], False)
     else if \<not> dash \<and> out \<noteq> [] then (out @ ''-'', True) else (out, dash))"

fun drop_dashes :: "string \<Rightarrow> string" where
  "drop_dashes [] = []"
| "drop_dashes (c # s) = (if c = CHR ''-'' then drop_dashes s else c # s)"

definition slugify :: "app \<Rightarrow> string \<Rightarrow> string" where
  "slugify A name =
     (let out = fst (fold slug_step (map fst (runes (strings_map (rune_lower (ap_lib A)) name))) ([], False)) in
      rev (drop_dashes (rev (drop_dashes out))))"

definition acting_manager :: "world \<Rightarrow> string \<Rightarrow> i64 option" where
  "acting_manager w sid =
     (let tid = activeTenant (alget (wd_sessions w) sid) in
      if tenantManager (tenantRoleFor w (actorOf w sid) tid) then Some tid else None)"

definition tenantCreate :: "app \<Rightarrow> draw \<Rightarrow> string \<Rightarrow> string \<Rightarrow> site \<Rightarrow> answer \<times> site" where
  "tenantCreate A d sid name0 st =
     (let name = trim_space name0; w = si_world st; actor = actorOf w sid; now = GInt (word_of_int (unix (dr_now d))) in
      if name = [] then (Refused 400 ''a tenant name is required'', st)
      else if actor = [] \<or> actor = ''guest'' then (Refused 403 ''sign in first'', st)
      else case insertReserved ''FacetTenant''
          [(''name'', GStr name), (''slug'', GStr (slugify A name)), (''owner'', GStr actor), (''created'', now)] w of
        (a, w1) \<Rightarrow>
          let tid = row_id (wd_heap w1 a);
              w2 = snd (insertReserved membership_entity
                [(''tenant'', GInt tid), (''username'', GStr actor), (''role'', GStr ''owner''), (''created'', now)] w1)
          in (Answered [(''ok'', GBool True), (''reload'', GBool True), (''tenant'', GRec (wd_heap w1 a))],
              st\<lparr>si_world := note_audit d actor ''createTenant'' True name (enter_tenant sid tid w2)\<rparr>))"

definition tenantSwitch :: "draw \<Rightarrow> string \<Rightarrow> i64 \<Rightarrow> site \<Rightarrow> answer \<times> site" where
  "tenantSwitch d sid tid st =
     (let w = si_world st; actor = actorOf w sid in
      if membershipOf w actor tid = None then (Refused 403 ''you are not a member of that tenant'', st)
      else (Answered [(''ok'', GBool True), (''reload'', GBool True)],
            st\<lparr>si_world := note_audit d actor ''switchTenant'' True (itoa tid) (enter_tenant sid tid w)\<rparr>))"

definition invite_ttl :: int where
  "invite_ttl = 7 * 24 * 60 * minute"

definition tenantInvite :: "crypt \<Rightarrow> draw \<Rightarrow> string \<Rightarrow> string \<Rightarrow> string \<Rightarrow> site \<Rightarrow> answer \<times> site" where
  "tenantInvite C d sid email role0 st =
     (let role = (if role0 = [] then ''member'' else role0); w = si_world st; actor = actorOf w sid in
      if role \<noteq> ''member'' \<and> role \<noteq> ''admin'' then (Refused 400 ''role must be member or admin'', st)
      else case acting_manager w sid of
        None \<Rightarrow> (Refused 403 ''forbidden: only a tenant owner or admin may invite'',
          st\<lparr>si_world := note_audit d actor ''inviteMember'' False ''not a tenant manager'' w\<rparr>)
      | Some tid \<Rightarrow> (Answered [(''ok'', GBool True), (''token'', GStr (dr_token d))],
          st\<lparr>si_world := note_audit d actor ''inviteMember'' True (email @ '' -> '' @ role)
            (snd (insertReserved ''FacetInvite''
              [(''tenant'', GInt tid), (''email'', GStr (trim_space email)), (''token'', GStr (hashToken C (dr_token d))),
               (''role'', GStr role), (''inviter'', GStr actor), (''accepted'', GBool False),
               (''expires'', GInt (word_of_int (unix (dr_now d + invite_ttl))))] w))\<rparr>))"

definition open_invite :: "crypt \<Rightarrow> draw \<Rightarrow> string \<Rightarrow> world \<Rightarrow> addr option" where
  "open_invite C d token w =
     find (\<lambda>a. let m = wd_heap w a in
         \<not> truthy (field m ''accepted'') \<and> tokenEqual C token (toStr (field m ''token''))
         \<and> unix (dr_now d) < sint (toInt (field m ''expires'')))
       (wd_rows w ''FacetInvite'')"

definition tenantAccept :: "crypt \<Rightarrow> draw \<Rightarrow> string \<Rightarrow> string \<Rightarrow> site \<Rightarrow> answer \<times> site" where
  "tenantAccept C d sid token st =
     (let w = si_world st; actor = actorOf w sid; now = GInt (word_of_int (unix (dr_now d))) in
      if actor = [] \<or> actor = ''guest'' then (Refused 403 ''sign in first'', st)
      else case open_invite C d token w of
        None \<Rightarrow> (Refused 400 ''invalid or expired invitation'',
          st\<lparr>si_world := note_audit d actor ''acceptInvite'' False ''invalid token'' w\<rparr>)
      | Some a \<Rightarrow>
          let inv = wd_heap w a; tid = toInt (field inv ''tenant'');
              w1 = (if membershipOf w actor tid = None
                then snd (insertReserved membership_entity [(''tenant'', GInt tid), (''username'', GStr actor),
                  (''role'', GStr (toStr (field inv ''role''))), (''created'', now)] w)
                else w)
          in (Answered [(''ok'', GBool True), (''reload'', GBool True)],
              st\<lparr>si_world := note_audit d actor ''acceptInvite'' True (itoa tid)
                (enter_tenant sid tid (saveReserved ''FacetInvite'' a (put_field a ''accepted'' (GBool True) w1)))\<rparr>))"

definition tenantSetRole :: "draw \<Rightarrow> string \<Rightarrow> string \<Rightarrow> string \<Rightarrow> site \<Rightarrow> answer \<times> site" where
  "tenantSetRole d sid username role st =
     (let w = si_world st in
      if role \<noteq> ''member'' \<and> role \<noteq> ''admin'' \<and> role \<noteq> ''owner''
      then (Refused 400 ''role must be owner, admin, or member'', st)
      else case acting_manager w sid of
        None \<Rightarrow> (Refused 403 ''forbidden: only a tenant owner or admin may set roles'', st)
      | Some tid \<Rightarrow>
          (case membershipOf w username tid of
             None \<Rightarrow> (Refused 404 ''no such member'', st)
           | Some a \<Rightarrow> (Answered [(''ok'', GBool True)],
               st\<lparr>si_world := note_audit d (actorOf w sid) ''setMemberRole'' True (username @ '' -> '' @ role)
                 (saveReserved membership_entity a (put_field a ''role'' (GStr role) w))\<rparr>)))"

definition tenantRemoveMember :: "nat \<Rightarrow> draw \<Rightarrow> string \<Rightarrow> string \<Rightarrow> site \<Rightarrow> answer \<times> site" where
  "tenantRemoveMember n d sid username st =
     (let w = si_world st in
      case acting_manager w sid of
        None \<Rightarrow> (Refused 403 ''forbidden: only a tenant owner or admin may remove members'', st)
      | Some tid \<Rightarrow>
          (case membershipOf w username tid of
             None \<Rightarrow> (Refused 404 ''no such member'', st)
           | Some a \<Rightarrow>
               if toStr (field (wd_heap w a) ''role'') = ''owner''
               then (Refused 400 ''the tenant owner cannot be removed'', st)
               else (Answered [(''ok'', GBool True)],
                 st\<lparr>si_world := note_audit d (actorOf w sid) ''removeMember'' True username
                   (removeReserved n membership_entity (row_id (wd_heap w a)) w)\<rparr>)))"

definition tenantLeave :: "nat \<Rightarrow> draw \<Rightarrow> string \<Rightarrow> site \<Rightarrow> answer \<times> site" where
  "tenantLeave n d sid st =
     (let w = si_world st; actor = actorOf w sid; tid = activeTenant (alget (wd_sessions w) sid) in
      case membershipOf w actor tid of
        None \<Rightarrow> (Refused 400 ''you are not a member of the active tenant'', st)
      | Some a \<Rightarrow>
          if toStr (field (wd_heap w a) ''role'') = ''owner''
          then (Refused 400 ''the owner cannot leave; transfer ownership or delete the tenant first'', st)
          else (Answered [(''ok'', GBool True), (''reload'', GBool True)],
            st\<lparr>si_world := note_audit d actor ''leaveTenant'' True (itoa tid)
              (enter_tenant sid 0 (removeReserved n membership_entity (row_id (wd_heap w a)) w))\<rparr>))"

definition runTenantAction :: "nat \<Rightarrow> crypt \<Rightarrow> app \<Rightarrow> draw \<Rightarrow> bool \<Rightarrow> string \<Rightarrow> string \<Rightarrow> gval list \<Rightarrow> site \<Rightarrow> answer \<times> site" where
  "runTenantAction n C A d enabled sid act args st =
     (if \<not> enabled then (Refused 501 ''multi-tenancy is not enabled (set FACET_MULTI_TENANT=1)'', st)
      else if act = ''createTenant'' then tenantCreate A d sid (argStr args 0) st
      else if act = ''switchTenant'' then tenantSwitch d sid (if args = [] then toInt GNil else toInt (hd args)) st
      else if act = ''inviteMember'' then tenantInvite C d sid (argStr args 0) (argStr args 1) st
      else if act = ''acceptInvite'' then tenantAccept C d sid (argStr args 0) st
      else if act = ''setMemberRole'' then tenantSetRole d sid (argStr args 0) (argStr args 1) st
      else if act = ''removeMember'' then tenantRemoveMember n d sid (argStr args 0) st
      else if act = ''leaveTenant'' then tenantLeave n d sid st
      else (Refused 404 ''unknown tenant action'', st))"

end
