(* ===== verification/ActionLaws.thy ===== *)
theory ActionLaws
  imports ActionExec
begin

text \<open>
  What every action keeps: the locale states what it is for a property of the frame to be
  kept by each logged write, and proves that every statement, block and nested run then
  keeps it. Its interpretations give the undo log (a failed action leaves the working set as
  it was) and the ownership of rows.
\<close>

subsection \<open>The interface of logged writes\<close>

definition same_core :: "run \<Rightarrow> run \<Rightarrow> bool" where
  "same_core r r' \<longleftrightarrow>
     wd_heap (ar_world r') = wd_heap (ar_world r) \<and> wd_next (ar_world r') = wd_next (ar_world r)
     \<and> wd_rows (ar_world r') = wd_rows (ar_world r) \<and> wd_ids (ar_world r') = wd_ids (ar_world r)
     \<and> wd_sessions (ar_world r') = wd_sessions (ar_world r) \<and> wd_store (ar_world r') = wd_store (ar_world r)
     \<and> ar_undo r' = ar_undo r \<and> ar_ses r' = ar_ses r \<and> ar_sid r' = ar_sid r \<and> ar_live r' = ar_live r"

text \<open>The first element that fails the test, taken out.\<close>

lemma first_out: "mset (takeWhile P xs) + mset (tl (dropWhile P xs)) \<subseteq># mset xs"
proof -
  have "mset (tl ys) \<subseteq># mset ys" for ys :: "'a list" by (cases ys) simp_all
  then have "mset (tl (dropWhile P xs)) \<subseteq># mset (dropWhile P xs)" .
  moreover have "mset xs = mset (takeWhile P xs) + mset (dropWhile P xs)" by (metis mset_append takeWhile_dropWhile_id)
  ultimately show ?thesis by (metis subset_mset.add_left_mono)
qed

locale logged_writes =
  fixes I :: "run \<Rightarrow> bool"
  assumes frame: "same_core r r' \<Longrightarrow> I r \<Longrightarrow> I r'"
    and field: "I r \<Longrightarrow> I (write_field a f v r)"
    and rows: "I r \<Longrightarrow> mset as \<subseteq># mset (wd_rows (ar_world r) e) \<Longrightarrow> I (write_rows e as r)"
    and insert: "I r \<Longrightarrow> I (insert_row e rw r)"
    and cell: "I r \<Longrightarrow> I (write_cell c v r)"
    and actor: "I r \<Longrightarrow> I (write_actor x r)"
    and role: "I r \<Longrightarrow> I (write_role x r)"
begin

lemma frame_simps [simp]:
  "I (bind_var x v r) \<longleftrightarrow> I r" "I (restore_var x old r) \<longleftrightarrow> I r" "I (mark_changed e r) \<longleftrightarrow> I r"
  "I (push_op d r) \<longleftrightarrow> I r" "I (recordAudit A b m r) \<longleftrightarrow> I r" "I (freshen r) \<longleftrightarrow> I r" "I (unbind xs r) \<longleftrightarrow> I r"
  by (auto elim!: frame [rotated]
      simp: same_core_def bind_var_def restore_var_def mark_changed_def push_op_def recordAudit_def freshen_def unbind_def)

lemma frame_upd [simp]:
  "I (r\<lparr>ar_err := x1\<rparr>) \<longleftrightarrow> I r" "I (r\<lparr>ar_deltas := x2\<rparr>) \<longleftrightarrow> I r" "I (r\<lparr>ar_rekey := x3\<rparr>) \<longleftrightarrow> I r"
  "I (r\<lparr>ar_headers := x4\<rparr>) \<longleftrightarrow> I r" "I (r\<lparr>ar_emits := x5\<rparr>) \<longleftrightarrow> I r" "I (r\<lparr>ar_revokes := x6\<rparr>) \<longleftrightarrow> I r"
  "I (r\<lparr>ar_restates := x7\<rparr>) \<longleftrightarrow> I r" "I (r\<lparr>ar_ret := x8, ar_status := x9, ar_returned := x10\<rparr>) \<longleftrightarrow> I r"
  by (auto elim!: frame [rotated] simp: same_core_def)

lemma fold_fields: "I r \<Longrightarrow> I (fold (\<lambda>x r. write_field (g x) (h x) (k x) r) xs r)"
  by (induction xs arbitrary: r) (simp_all add: field)

subsection \<open>Statements\<close>

lemma clear_refs: "I r \<Longrightarrow> I (clear_refs_mem ch ids r)"
  using fold_fields [of r "\<lambda>a. a" "\<lambda>a. rf_field ch" "\<lambda>a. GNil"] by (simp add: clear_refs_mem_def Let_def)

lemma cascadeMem_inv:
  "cascadeMem n S p ids r = Some r' \<Longrightarrow> I r \<Longrightarrow> I r'"
  "cascade_refs n S ids chs r = Some r' \<Longrightarrow> I r \<Longrightarrow> I r'"
proof (induction n S p ids r and n S ids chs r arbitrary: r' and r' rule: cascadeMem_cascade_refs.induct)
  case (4 n S ids ch chs r)
  show ?case
  proof (cases "rf_on_delete ch = ''setNull''")
    case True
    then show ?thesis using 4 by (simp add: clear_refs)
  next
    case False
    then show ?thesis
      using 4(2-4) 4(5,6) rows [of r _ "rf_entity ch"] by (auto simp: multiset_filter_subset Let_def split: if_splits option.splits)
  qed
qed simp_all

lemma cascade_inv [simp]: "I r \<Longrightarrow> I (cascade S p ids r)"
  by (auto simp: cascade_def simp del: cascadeMem.simps dest: cascadeMem_inv(1) split: option.split)

text \<open>The frame a statement leaves, however it ends.\<close>

definition keeps :: "flow \<Rightarrow> bool" where
  "keeps fl \<longleftrightarrow> (case fl of Next r \<Rightarrow> I r | Ret s m r \<Rightarrow> I r)"

lemma keeps_simps [simp]: "keeps (Next r) = I r" "keeps (Ret s m r) = I r"
  by (simp_all add: keeps_def)

lemma update_row_inv: "update_row A e fis a r = Inr r' \<Longrightarrow> I r \<Longrightarrow> I r'"
  using fold_fields [of r "\<lambda>x. a" "\<lambda>x. x"]
  by (auto simp: update_row_def Let_def split: option.splits sum.splits)

lemma set_where_inv: "set_where_loop A e x c fis as hit r = (b, hit', r') \<Longrightarrow> I r \<Longrightarrow> I r'"
  by (induction A e x c fis as hit r rule: set_where_loop.induct)
    (auto simp: Let_def split: if_splits sum.splits dest: update_row_inv)

lemma archive_inv [simp]: "I r \<Longrightarrow> I (archive e a r)"
  by (simp add: archive_def field)

lemma remove_loop_inv: "remove_loop A e x c as kept gone r = (kept', gone', r') \<Longrightarrow> I r \<Longrightarrow> I r'"
  by (induction A e x c as kept gone r rule: remove_loop.induct) (auto simp: Let_def split: if_splits)

end

lemma wd_rows_write [simp]:
  "wd_rows (ar_world (write_field a f v r)) = wd_rows (ar_world r)"
  "wd_rows (ar_world (bind_var x u r)) = wd_rows (ar_world r)"
  "wd_rows (ar_world (push_op d r)) = wd_rows (ar_world r)"
  "wd_rows (ar_world (archive e a r)) = wd_rows (ar_world r)"
  "wd_rows (ar_world (restore_var x old r)) = wd_rows (ar_world r)"
  by (simp_all add: write_field_def log_field_def bind_var_def push_op_def archive_def restore_var_def Let_def)

lemma remove_loop_kept:
  "remove_loop A e x c as kept gone r = (kept', gone', r') \<Longrightarrow>
     mset kept' \<subseteq># mset kept + mset as \<and> wd_rows (ar_world r') = wd_rows (ar_world r)"
proof (induction A e x c as kept gone r rule: remove_loop.induct)
  case (2 A e x c a as kept gone r)
  have "M \<subseteq># add_mset a N" if "M \<subseteq># N" for M N :: "addr multiset"
    using that by (metis mset_subset_eq_add_right add_mset_add_single subset_mset.order_trans mset_subset_eq_add_left)
  then show ?case using 2 by (fastforce simp: Let_def split: if_splits)
qed simp

context logged_writes
begin

lemma exec_remove_inv [simp]: "I r \<Longrightarrow> I (exec_remove A e key r)"
proof -
  assume i: "I r"
  show ?thesis using i rows [OF i] by (auto simp: first_out exec_remove_def Let_def split: option.split)
qed

lemma exec_remove_where_inv [simp]: "I r \<Longrightarrow> I (exec_remove_where A e x c r)"
proof -
  assume i: "I r"
  obtain kept gone r1 where l: "remove_loop A e x c (wd_rows (ar_world r) e) [] [] r = (kept, gone, r1)"
    by (metis prod_cases3)
  then have "I r1" "mset kept \<subseteq># mset (wd_rows (ar_world r1) e)"
    using remove_loop_inv [OF l i] remove_loop_kept [OF l] by simp_all
  then show ?thesis using l rows by (simp add: exec_remove_where_def Let_def)
qed

lemma exec_clear_inv [simp]: "I r \<Longrightarrow> I (exec_clear A e r)"
  using rows [of r "[]"] by (simp add: exec_clear_def Let_def)

lemma exec_assign_inv [simp]: "I r \<Longrightarrow> I (exec_assign A c e r)"
  by (simp add: exec_assign_def Let_def cell)

lemma exec_establish_inv [simp]: "I r \<Longrightarrow> I (exec_establish A v x r)"
  by (auto simp: exec_establish_def adopt_actor_def adopt_role_def Let_def actor role split: option.split)

lemma exec_set_where_inv: "I r \<Longrightarrow> keeps (exec_set_where A e x c fis r)"
  by (auto simp: exec_set_where_def fail_invalid_def Let_def split: prod.split option.split dest: set_where_inv)

lemma basic_inv: "I r \<Longrightarrow> keeps (basic_stmt A st r)"
  by (cases st)
    (auto simp: basic_stmt_def exec_set_where_inv exec_check_def exec_add_def exec_set_def fail_invalid_def
      exec_call_def exec_do_def exec_header_def exec_return_def exec_emit_def Let_def insert field
      split: option.split sum.split)

subsection \<open>Blocks, loops and nested runs\<close>

lemma each_item_inv:
  "(\<And>r. I r \<Longrightarrow> I (snd (body r))) \<Longrightarrow> I r \<Longrightarrow> keeps (each_item body x vs r)"
proof (induction body x vs r rule: each_item.induct)
  case (2 body x v vs r)
  obtain s m r' where b: "body (bind_var x v r) = ((s, m), r')" by (metis prod.exhaust)
  have "I r'" using 2(2) [of "bind_var x v r"] 2(3) b by simp
  then show ?case using 2 b by simp
qed simp

lemma loop_items_inv: "(\<And>r. I r \<Longrightarrow> I (snd (body r))) \<Longrightarrow> I r \<Longrightarrow> keeps (loop_items body x vs r)"
  using each_item_inv [of body r x vs] by (auto simp: loop_items_def split: flow.splits)

lemma after_branch_inv: "I (snd res) \<Longrightarrow> keeps (after_branch res)"
  by (cases res) (auto simp: after_branch_def)

definition nested_ok :: "(string \<Rightarrow> expr list \<Rightarrow> string \<Rightarrow> run \<Rightarrow> flow) \<Rightarrow> bool" where
  "nested_ok N \<longleftrightarrow> (\<forall>name args x r. I r \<longrightarrow> keeps (N name args x r))"

lemma exec_inv:
  "nested_ok N \<Longrightarrow> I r \<Longrightarrow> keeps (exec_stmt A N st r)"
  "nested_ok N \<Longrightarrow> I r \<Longrightarrow> I (snd (exec_stmts A N sts bound r))"
proof (induction A N st r and A N sts bound r rule: exec_stmt_exec_stmts.induct)
  case (1 A N c yes no r)
  then show ?case by (simp add: after_branch_inv)
next
  case (2 A N e x c order desc key lim body r)
  then show ?case by (simp add: loop_items_inv)
next
  case (3 A N x e body r)
  then show ?case by (simp add: loop_items_inv)
next
  case (4 A N name args x r)
  then show ?case by (simp add: nested_ok_def)
qed (auto simp: basic_inv split: flow.split)

lemma nested_frame_inv: "nested_frame A callee args r = Inr child \<Longrightarrow> I r \<Longrightarrow> I child"
  by (auto simp: nested_frame_def Let_def same_core_def split: sum.splits option.splits prod.splits elim!: frame [rotated])

lemma rejoin_inv [simp]: "I (rejoin r child) \<longleftrightarrow> I child"
  by (auto elim!: frame [rotated] simp: same_core_def rejoin_def)

lemma run_nested_inv: "nested_ok (run_nested d A)"
proof (induction d)
  case 0
  show ?case
    unfolding nested_ok_def
    by (subst run_nested.simps) (auto split: option.split)
next
  case (Suc d)
  have "keeps (run_nested (Suc d) A name args x r)" if i: "I r" for name args x r
  proof (cases "alget (ap_actions A) name")
    case None
    then show ?thesis using i by (simp add: run_nested.simps)
  next
    case (Some callee)
    show ?thesis
    proof (cases "nested_frame A callee args r")
      case (Inl e)
      then show ?thesis using i Some by (cases e) (simp add: run_nested.simps)
    next
      case (Inr child)
      have "I child" using nested_frame_inv [OF Inr i] .
      then have "I (snd (exec_stmts A (run_nested d A) (ac_body callee) [] child))"
        using exec_inv(2) [OF Suc.IH] by blast
      then show ?thesis using Some Inr by (auto simp: run_nested.simps [of "Suc d"] split: prod.split)
    qed
  qed
  then show ?case by (simp add: nested_ok_def)
qed

lemma execActionBlock_inv: "I r \<Longrightarrow> I (snd (execActionBlock A body r))"
  unfolding execActionBlock_def by (rule exec_inv(2) [OF run_nested_inv])

end

subsection \<open>The undo log\<close>

text \<open>Two rows with the same columns, two sessions and two working sets that read alike.\<close>

definition same_row :: "row \<Rightarrow> row \<Rightarrow> bool" where
  "same_row m m' \<longleftrightarrow> (\<forall>f. alget m' f = alget m f)"

definition same_sess :: "sess \<Rightarrow> sess \<Rightarrow> bool" where
  "same_sess s s' \<longleftrightarrow> ss_actor s' = ss_actor s \<and> ss_role s' = ss_role s \<and> ss_verified s' = ss_verified s
     \<and> ss_visitor s' = ss_visitor s \<and> ss_pending s' = ss_pending s \<and> same_row (ss_state s) (ss_state s')"

definition same_rows :: "world \<Rightarrow> world \<Rightarrow> bool" where
  "same_rows w w' \<longleftrightarrow> wd_next w \<le> wd_next w' \<and> wd_rows w' = wd_rows w \<and> wd_ids w' = wd_ids w
     \<and> (\<forall>a < wd_next w. same_row (wd_heap w a) (wd_heap w' a))"

definition logs_entity :: "world \<Rightarrow> run \<Rightarrow> string \<Rightarrow> bool" where
  "logs_entity w0 r e \<longleftrightarrow>
     (\<forall>as. alget (un_rows (ar_undo r)) e = Some as \<longrightarrow>
        as = wd_rows w0 e \<and> alget (un_ids (ar_undo r)) e = Some (wd_ids w0 e))
     \<and> (alget (un_rows (ar_undo r)) e = None \<longrightarrow>
        wd_rows (ar_world r) e = wd_rows w0 e \<and> wd_ids (ar_world r) e = wd_ids w0 e)"

definition logs_entities :: "world \<Rightarrow> run \<Rightarrow> bool" where
  "logs_entities w0 r \<longleftrightarrow> (\<forall>e. logs_entity w0 r e)"

definition logs_fields :: "world \<Rightarrow> run \<Rightarrow> bool" where
  "logs_fields w0 r \<longleftrightarrow> wd_next w0 \<le> wd_next (ar_world r)
     \<and> (\<forall>a < wd_next w0. same_row (wd_heap w0 a) (undo_fields (un_fields (ar_undo r)) (wd_heap (ar_world r)) a))"

definition logs_cells :: "sess \<Rightarrow> run \<Rightarrow> bool" where
  "logs_cells s0 r \<longleftrightarrow> distinct (map fst (un_sess (ar_undo r)))
     \<and> (\<forall>c. (\<forall>old. alget (un_sess (ar_undo r)) c = Some old \<longrightarrow> old = alget (ss_state s0) c)
            \<and> (alget (un_sess (ar_undo r)) c = None \<longrightarrow> alget (ss_state (ar_ses r)) c = alget (ss_state s0) c))"

definition undoes :: "world \<Rightarrow> sess \<Rightarrow> run \<Rightarrow> bool" where
  "undoes w0 s0 r \<longleftrightarrow> logs_entities w0 r \<and> logs_fields w0 r \<and> logs_cells s0 r
     \<and> un_actor (ar_undo r) = ss_actor s0 \<and> un_role (ar_undo r) = ss_role s0
     \<and> ss_verified (ar_ses r) = ss_verified s0 \<and> ss_visitor (ar_ses r) = ss_visitor s0
     \<and> ss_pending (ar_ses r) = ss_pending s0"

lemma undo_fields_snoc: "undo_fields (xs @ [x]) h = undo_fields xs (undo_field x h)"
  by (simp add: undo_fields_def)

lemma undo_field_at:
  "same_row (h a) (h' a) \<Longrightarrow> same_row (undo_field x h a) (undo_field x h' a)"
  by (auto simp: undo_field_def same_row_def split: prod.split option.split)

lemma undo_fields_at:
  "same_row (h a) (h' a) \<Longrightarrow> same_row (undo_fields xs h a) (undo_fields xs h' a)"
proof (induction xs arbitrary: h h' rule: rev_induct)
  case (snoc x xs)
  then show ?case using undo_field_at by (simp add: undo_fields_snoc)
qed (simp add: undo_fields_def)

lemma same_row_trans: "same_row a b \<Longrightarrow> same_row b c \<Longrightarrow> same_row a c"
  by (simp add: same_row_def)

lemma undo_cells_get:
  "distinct (map fst xs) \<Longrightarrow>
     alget (undo_cells xs st) c = (case alget xs c of Some old \<Rightarrow> old | None \<Rightarrow> alget st c)"
proof (induction xs arbitrary: st)
  case (Cons p xs)
  obtain k old where p: "p = (k, old)" by fastforce
  have "alget xs k = None" using Cons.prems p by (simp add: alget_None_iff)
  then show ?case using Cons p by (auto simp: undo_cells_def split: option.splits)
qed (simp add: undo_cells_def)

lemma log_entity_logs:
  "logs_entity w0 r e \<Longrightarrow> logs_entity w0 r k \<Longrightarrow> logs_entity w0 (log_entity e r) k"
  "alget (un_rows (ar_undo (log_entity e r))) e \<noteq> None"
  by (auto simp: logs_entity_def log_entity_def Let_def split: option.splits if_splits)

lemma log_state_logs: "logs_cells s0 r \<Longrightarrow> logs_cells s0 (log_state c r) \<and> alget (un_sess (ar_undo (log_state c r))) c \<noteq> None"
  by (auto simp: logs_cells_def log_state_def Let_def alget_None_iff split: option.splits if_splits)

lemma logs_entities_write:
  assumes "logs_entities w0 r"
  shows "logs_entities w0 (write_rows e as r)" "logs_entities w0 (insert_row e rw r)"
proof -
  have "logs_entity w0 (log_entity e r) k" for k
    using assms log_entity_logs(1) by (simp add: logs_entities_def)
  moreover obtain y where "alget (un_rows (ar_undo (log_entity e r))) e = Some y"
    using log_entity_logs(2) [of e r] by blast
  ultimately have "logs_entity w0 (write_rows e as r) k \<and> logs_entity w0 (insert_row e rw r) k" for k
    unfolding logs_entity_def by (cases "k = e") (simp_all add: write_rows_def insert_row_def Let_def)
  then show "logs_entities w0 (write_rows e as r)" "logs_entities w0 (insert_row e rw r)"
    by (simp_all add: logs_entities_def)
qed

lemma logs_fields_write:
  assumes "logs_fields w0 r"
  shows "logs_fields w0 (write_field a f v r)"
proof -
  let ?h = "wd_heap (ar_world r)"
  let ?x = "(a, f, alget (?h a) f)"
  have "same_row (?h b) (undo_field ?x (?h(a := alput (?h a) f v)) b)" for b
    by (auto simp: undo_field_def same_row_def split: option.split)
  then have "same_row (undo_fields xs ?h b) (undo_fields xs (undo_field ?x (?h(a := alput (?h a) f v))) b)" for xs b
    by (rule undo_fields_at)
  then show ?thesis
    using assms same_row_trans
    by (fastforce simp: logs_fields_def write_field_def log_field_def Let_def undo_fields_snoc)
qed

lemma log_entity_fields [simp]:
  "un_fields (ar_undo (log_entity e r)) = un_fields (ar_undo r)" "ar_world (log_entity e r) = ar_world r"
  "ar_ses (log_entity e r) = ar_ses r" "un_sess (ar_undo (log_entity e r)) = un_sess (ar_undo r)"
  "un_actor (ar_undo (log_entity e r)) = un_actor (ar_undo r)" "un_role (ar_undo (log_entity e r)) = un_role (ar_undo r)"
  by (simp_all add: log_entity_def Let_def)

lemma logs_fields_insert:
  assumes "logs_fields w0 r"
  shows "logs_fields w0 (insert_row e rw r)"
proof -
  let ?h = "wd_heap (ar_world r)" and ?n = "wd_next (ar_world r)"
  have "same_row (undo_fields xs ?h b) (undo_fields xs (?h(?n := m)) b)" if "b < wd_next w0" for xs b m
    using that assms by (intro undo_fields_at) (simp add: logs_fields_def same_row_def)
  then show ?thesis
    using assms same_row_trans by (fastforce simp: logs_fields_def insert_row_def Let_def)
qed

lemma logs_cells_write: "logs_cells s0 r \<Longrightarrow> logs_cells s0 (write_cell c v r)"
  using log_state_logs [of s0 r c]
  by (auto simp: logs_cells_def write_cell_def Let_def split: option.splits)

interpretation undo: logged_writes "undoes w0 s0" for w0 s0
proof unfold_locales
  fix r r'
  assume "same_core r r'" "undoes w0 s0 r"
  then show "undoes w0 s0 r'"
    by (simp add: same_core_def undoes_def logs_entities_def logs_entity_def logs_entity_def logs_fields_def logs_cells_def)
next
  fix r a f v
  assume "undoes w0 s0 r"
  then show "undoes w0 s0 (write_field a f v r)"
    using logs_fields_write [of w0 r a f v]
    by (simp add: undoes_def logs_entities_def logs_entity_def logs_cells_def write_field_def log_field_def Let_def)
next
  fix r as e
  assume "undoes w0 s0 r"
  then show "undoes w0 s0 (write_rows e as r)"
    using logs_entities_write(1) [of w0 r e as]
    by (simp add: undoes_def logs_fields_def logs_cells_def write_rows_def Let_def)
next
  fix r e rw
  assume "undoes w0 s0 r"
  then show "undoes w0 s0 (insert_row e rw r)"
    using logs_entities_write(2) [of w0 r e rw] logs_fields_insert [of w0 r e rw]
    by (simp add: undoes_def logs_cells_def insert_row_def Let_def)
next
  fix r c v
  assume "undoes w0 s0 r"
  then show "undoes w0 s0 (write_cell c v r)"
    using logs_cells_write [of s0 r c v]
    by (simp add: undoes_def logs_entities_def logs_entity_def logs_fields_def write_cell_def log_state_def Let_def)
qed (simp_all add: undoes_def logs_entities_def logs_entity_def logs_fields_def logs_cells_def write_actor_def write_role_def)

lemma undoes_start: "ar_undo r = newUndoLog (ar_ses r) \<Longrightarrow> undoes (ar_world r) (ar_ses r) r"
  by (simp add: undoes_def newUndoLog_def logs_entities_def logs_entity_def logs_fields_def logs_cells_def undo_fields_def same_row_def)

lemma rollback_restores:
  assumes "undoes w0 s0 r"
  shows "same_rows w0 (ar_world (rollback r)) \<and> same_sess s0 (ar_ses (rollback r))"
proof -
  have "wd_rows (ar_world (rollback r)) e = wd_rows w0 e \<and> wd_ids (ar_world (rollback r)) e = wd_ids w0 e" for e
    using assms unfolding undoes_def logs_entities_def logs_entity_def rollback_def Let_def
    by (auto split: option.splits dest!: spec [of _ e])
  then have "same_rows w0 (ar_world (rollback r))"
    using assms by (auto simp: same_rows_def undoes_def logs_fields_def rollback_def Let_def)
  moreover have "same_row (ss_state s0) (ss_state (ar_ses (rollback r)))"
    using assms
    by (auto simp: undoes_def logs_cells_def same_row_def rollback_def Let_def undo_cells_get split: option.split)
  ultimately show ?thesis using assms by (simp add: same_sess_def undoes_def rollback_def Let_def)
qed

subsection \<open>What a body does not touch\<close>

text \<open>Neither the store nor any other session: both wait for the commit.\<close>

definition bystanders :: "world \<Rightarrow> string \<Rightarrow> bool \<Rightarrow> run \<Rightarrow> bool" where
  "bystanders w0 sid lv r \<longleftrightarrow>
     wd_sessions (ar_world r) = wd_sessions w0 \<and> wd_store (ar_world r) = wd_store w0
     \<and> ar_sid r = sid \<and> ar_live r = lv"

interpretation outside: logged_writes "bystanders w0 sid lv" for w0 sid lv
  by unfold_locales
    (simp_all add: bystanders_def same_core_def write_field_def log_field_def write_rows_def insert_row_def log_entity_def
      write_cell_def log_state_def write_actor_def write_role_def Let_def)

subsection \<open>A failed action\<close>

definition same_sessions :: "(string \<times> sess) list \<Rightarrow> (string \<times> sess) list \<Rightarrow> bool" where
  "same_sessions xs ys \<longleftrightarrow>
     (\<forall>i. (alget xs i = None \<longleftrightarrow> alget ys i = None) \<and> (\<forall>s t. alget xs i = Some s \<longrightarrow> alget ys i = Some t \<longrightarrow> same_sess s t))"

lemma same_sess_refl [simp]: "same_sess s s"
  by (simp add: same_sess_def same_row_def)

lemma same_sessions_refl [simp]: "same_sessions xs xs"
  by (simp add: same_sessions_def)

lemma same_rows_refl: "wd_next w' = wd_next w \<Longrightarrow> wd_rows w' = wd_rows w \<Longrightarrow> wd_ids w' = wd_ids w \<Longrightarrow> wd_heap w' = wd_heap w \<Longrightarrow> same_rows w w'"
  by (simp add: same_rows_def same_row_def)

lemma same_sessions_put: "alget xs i = Some s \<Longrightarrow> same_sess s t \<Longrightarrow> same_sessions xs (alput xs i t)"
  by (auto simp: same_sessions_def)

lemma ensure_core [simp]:
  "wd_rows (ensureSession A sid w) = wd_rows w" "wd_ids (ensureSession A sid w) = wd_ids w"
  "wd_heap (ensureSession A sid w) = wd_heap w" "wd_store (ensureSession A sid w) = wd_store w"
  "wd_next (ensureSession A sid w) = wd_next w"
  by (simp_all add: ensureSession_def)

lemma rollback_bystanders [simp]:
  "wd_sessions (ar_world (rollback r)) = wd_sessions (ar_world r)" "wd_store (ar_world (rollback r)) = wd_store (ar_world r)"
  "ar_sid (rollback r) = ar_sid r" "ar_live (rollback r) = ar_live r"
  by (simp_all add: rollback_def Let_def)

text \<open>The run a body leaves, rolled back, is the run it started from.\<close>

lemma body_undone:
  assumes "execActionBlock A body r = (res, r1)" "ar_undo r = newUndoLog (ar_ses r)"
  shows "same_rows (ar_world r) (ar_world (rollback r1))" "same_sess (ar_ses r) (ar_ses (rollback r1))"
    "wd_sessions (ar_world r1) = wd_sessions (ar_world r)" "wd_store (ar_world r1) = wd_store (ar_world r)"
    "ar_sid r1 = ar_sid r" "ar_live r1 = ar_live r"
proof -
  have r1: "snd (execActionBlock A body r) = r1" using assms(1) by simp
  have "undoes (ar_world r) (ar_ses r) r1"
    using undo.execActionBlock_inv [OF undoes_start [OF assms(2)]] r1 by metis
  then show "same_rows (ar_world r) (ar_world (rollback r1))" "same_sess (ar_ses r) (ar_ses (rollback r1))"
    using rollback_restores by blast+
  have "bystanders (ar_world r) (ar_sid r) (ar_live r) r" by (simp add: bystanders_def)
  then have "bystanders (ar_world r) (ar_sid r) (ar_live r) r1"
    using outside.execActionBlock_inv r1 by metis
  then show "wd_sessions (ar_world r1) = wd_sessions (ar_world r)" "wd_store (ar_world r1) = wd_store (ar_world r)"
    "ar_sid r1 = ar_sid r" "ar_live r1 = ar_live r"
    by (simp_all add: bystanders_def)
qed

lemma rollback_store: "rollback (r\<lparr>ar_world := (ar_world r)\<lparr>wd_store := st\<rparr>\<rparr>) = (rollback r)\<lparr>ar_world := (ar_world (rollback r))\<lparr>wd_store := st\<rparr>\<rparr>"
  by (simp add: rollback_def Let_def cong: option.case_cong)

lemma commit_ops_world: "commit_ops n A ops w = Some (err, w') \<Longrightarrow> \<exists>st. w' = w\<lparr>wd_store := st\<rparr>"
  by (auto simp: commit_ops_def Let_def split: if_splits intro: exI [of _ "wd_store w"])

definition store_refused :: string where
  "store_refused = ''the write could not be stored and was rolled back''"

lemma finish_failed:
  assumes "finish_run n A act r = Some (rp, w')" "rp_status rp \<noteq> 200" "ar_undo r = newUndoLog (ar_ses r)"
    "ar_live r \<Longrightarrow> alget (wd_sessions (ar_world r)) (ar_sid r) = Some (ar_ses r)"
  shows "same_rows (ar_world r) w' \<and> same_sessions (wd_sessions (ar_world r)) (wd_sessions w')
    \<and> (rp_msg rp \<noteq> store_refused \<longrightarrow> wd_store w' = wd_store (ar_world r))"
proof -
  obtain s m r1 where b: "execActionBlock A (ac_body act) r = ((s, m), r1)" by (metis prod.exhaust)
  note u = body_undone [OF b assms(3)]
  have sess: "same_sessions (wd_sessions (ar_world r)) (wd_sessions (put_session x))"
    if "wd_sessions (ar_world x) = wd_sessions (ar_world r)" "ar_sid x = ar_sid r" "ar_live x = ar_live r"
      "same_sess (ar_ses r) (ar_ses x)" for x
    using that assms(4) same_sessions_put by (auto simp: put_session_def)
  show ?thesis
  proof (cases "s = 200")
    case False
    then have w': "w' = put_session (rollback r1)" "rp_status rp = s"
      using assms(1) b by (auto simp: finish_run_def refusal_def)
    have "same_rows (ar_world r) w'" using u(1) by (simp add: w' put_session_def same_rows_def)
    moreover have "wd_store w' = wd_store (ar_world r)" using u(4) by (simp add: w' put_session_def)
    ultimately show ?thesis using sess [of "rollback r1"] u by (simp add: w')
  next
    case True
    then obtain err w where c: "commit_ops n A (ar_ops r1) (ar_world r1) = Some (Some err, w)"
      "w' = put_session (recordAudit A False (''store write failed: '' @ err) (rollback (r1\<lparr>ar_world := w\<rparr>)))"
      "rp_msg rp = store_refused"
      using assms(1,2) b by (auto simp: finish_run_def refusal_def succeed_def store_refused_def Let_def split: option.splits)
    obtain st where st: "w = (ar_world r1)\<lparr>wd_store := st\<rparr>" using commit_ops_world [OF c(1)] by blast
    have "same_rows (ar_world r) w'"
      using u(1) by (simp add: c(2) st rollback_store put_session_def recordAudit_def same_rows_def)
    moreover have "same_sessions (wd_sessions (ar_world r)) (wd_sessions w')"
      unfolding c(2) by (rule sess) (simp_all add: st rollback_store recordAudit_def u)
    ultimately show ?thesis using c(3) by simp
  qed
qed

lemma failed_run:
  assumes "runActionLocked n A sid act args w = Some (rp, w')" "rp_status rp \<noteq> 200"
  shows "same_rows w w' \<and> same_sessions (wd_sessions (ensureSession A sid w)) (wd_sessions w')
    \<and> (rp_msg rp \<noteq> store_refused \<longrightarrow> wd_store w' = wd_store w)"
proof -
  let ?w = "ensureSession A sid w"
  let ?sc0 = "alput (scope_of A ?w (alget (wd_sessions ?w) sid)) ''sessionToken'' (GStr (sessionToken A sid))"
  have rows: "same_rows w x \<longleftrightarrow> same_rows ?w x" for x by (simp add: same_rows_def)
  show ?thesis
  proof (cases "bind_params (ap_wires A) (ac_params act) args ?sc0")
    case (Inl e)
    then have "w' = ?w" using assms(1) by (cases e) (simp add: runActionLocked_def Let_def)
    then show ?thesis by (simp add: same_rows_refl)
  next
    case (Inr sc)
    let ?r = "start_run A sid act args ?w sc"
    show ?thesis
    proof (cases "first_denied A ?r (ac_requires act)")
      case (Some q)
      then have "w' = ar_world (recordAudit A False (''denied: '' @ q) ?r)"
        using assms(1) Inr by (simp add: runActionLocked_def Let_def)
      then show ?thesis by (simp add: same_rows_refl recordAudit_def start_run_def Let_def)
    next
      case None
      then have "finish_run n A act ?r = Some (rp, w')"
        using assms(1) Inr by (simp add: runActionLocked_def Let_def)
      then have "same_rows (ar_world ?r) w' \<and> same_sessions (wd_sessions (ar_world ?r)) (wd_sessions w')
          \<and> (rp_msg rp \<noteq> store_refused \<longrightarrow> wd_store w' = wd_store (ar_world ?r))"
        by (rule finish_failed [OF _ assms(2)]) (auto simp: start_run_def Let_def)
      then show ?thesis by (simp add: rows start_run_def Let_def)
    qed
  qed
qed

text \<open>
  C1: an action that does not succeed (its gate, an argument, a check, a constraint, a
  nested action, a proc or the store refusing it) leaves every collection, every row, every
  id counter and every session reading as before, whatever its body had already written,
  nested runs included; and unless the store itself refused, the store was never touched.
\<close>

theorem failed_action_changes_nothing:
  assumes "runActionLocked n A sid act args w = Some (rp, w')" "rp_status rp \<noteq> 200"
  shows "same_rows w w' \<and> same_sessions (wd_sessions (ensureSession A sid w)) (wd_sessions w')
    \<and> (rp_msg rp \<noteq> store_refused \<longrightarrow> wd_store w' = wd_store w)"
  using assms by (rule failed_run)

definition ex_app :: app where
  "ex_app = \<lparr>ap_schema = ex_schema, ap_lib = std0, ap_actions = [], ap_policies = [], ap_triggers = [],
     ap_wires = [], ap_records = [], ap_private = (\<lambda>c. False), ap_reserved = (\<lambda>e. False),
     ap_service_ops = (\<lambda>s. None), ap_call = (\<lambda>s e b y. None), ap_proc = (\<lambda>p. None),
     ap_digest = GStr, ap_sign = (\<lambda>s. s @ ''.s''), ap_new_sid = ''n1'', ap_new_visitor = ''v1'',
     ap_new_state = [(''count'', GInt 0)], ap_show = toStr\<rparr>"

definition ex_world :: world where
  "ex_world = \<lparr>wd_heap = (\<lambda>a. []), wd_next = 0, wd_rows = (\<lambda>e. []), wd_ids = (\<lambda>e. 0),
     wd_sessions = [(''a1'', newSession ex_app ''ada'' ''member'')], wd_store = newMemStore, wd_audit = []\<rparr>"

definition ex_fail :: action where
  "ex_fail = \<lparr>ac_name = ''f'', ac_params = [], ac_requires = [],
     ac_body = [SAdd ''E'' [(''code'', ILit (GInt 7) ''int'')] [],
                SCheck (ILit (GBool False) ''bool'') None ''no'' 0 []]\<rparr>"

lemmas ex_defs = ex_app_def ex_world_def ex_fail_def newSession_def

lemmas ex_exec = finish_run_def execActionBlock_def start_run_def basic_stmt_def exec_add_def exec_check_def
  build_row_def ev_def binds_of_def insert_row_def log_entity_def mark_changed_def push_op_def freshen_def unbind_def
  newUndoLog_def recordAudit_def audit_line_def rows_now_def litValue_def refusal_def

lemma ex_fail_fails: "\<exists>rp w'. runActionLocked 3 ex_app ''a1'' ex_fail [] ex_world = Some (rp, w') \<and> rp_status rp \<noteq> 200"
  by (simp add: runActionLocked_def ensureSession_def ex_defs system_sids_def Let_def)
    (simp add: ex_exec ex_schema_simps Let_def)

theorem failed_action_changes_nothing_witness:
  "\<exists>rp w'. runActionLocked 3 ex_app ''a1'' ex_fail [] ex_world = Some (rp, w')
     \<and> same_rows ex_world w' \<and> wd_rows ex_world ''E'' = []"
proof -
  obtain rp w' where r: "runActionLocked 3 ex_app ''a1'' ex_fail [] ex_world = Some (rp, w')" "rp_status rp \<noteq> 200"
    using ex_fail_fails by blast
  show ?thesis using failed_action_changes_nothing [OF r] r(1) by (auto simp: ex_world_def)
qed

end
