(* ===== verification/ActionSafety.thy ===== *)
theory ActionSafety
  imports ActionLaws
begin

text \<open>
  What holds of every authoritative run (runtime/server.go \<open>runActionLocked\<close>): who may have
  it succeed and what the audit trail says of it, and that the working set stays a proper
  heap of rows, each row in one collection and at most once, through every action and every
  reaction it sets off.
\<close>

subsection \<open>The gate\<close>

lemma first_denied_None: "first_denied A r qs = None \<longleftrightarrow> (\<forall>q \<in> set qs. policyPasses A r q)"
  by (induction qs) simp_all

lemma first_denied_Some: "first_denied A r qs = Some n \<Longrightarrow> \<exists>q \<in> set qs. rq_name q = n \<and> \<not> policyPasses A r q"
  by (induction qs) (auto split: if_splits)

definition run_scope :: "app \<Rightarrow> string \<Rightarrow> world \<Rightarrow> scope" where
  "run_scope A sid w = alput (scope_of A w (alget (wd_sessions w) sid)) ''sessionToken'' (GStr (sessionToken A sid))"

text \<open>A run by its outcome: a bad argument, a denied policy, or the body.\<close>

lemma runActionLocked_cases:
  assumes "runActionLocked n A sid act args w = Some (rp, w')"
  obtains (argument) p v where "bind_params (ap_wires A) (ac_params act) args (run_scope A sid (ensureSession A sid w)) = Inl (p, v)"
      "rp_status rp = 400" "w' = ensureSession A sid w"
    | (denied) sc q where "bind_params (ap_wires A) (ac_params act) args (run_scope A sid (ensureSession A sid w)) = Inr sc"
      "q \<in> set (ac_requires act)" "\<not> policyPasses A (start_run A sid act args (ensureSession A sid w) sc) q"
      "rp = refusal sid 403 (''forbidden: '' @ rq_name q) []"
      "w' = ar_world (recordAudit A False (''denied: '' @ rq_name q) (start_run A sid act args (ensureSession A sid w) sc))"
    | (body) sc where "bind_params (ap_wires A) (ac_params act) args (run_scope A sid (ensureSession A sid w)) = Inr sc"
      "\<forall>q \<in> set (ac_requires act). policyPasses A (start_run A sid act args (ensureSession A sid w) sc) q"
      "finish_run n A act (start_run A sid act args (ensureSession A sid w) sc) = Some (rp, w')"
proof (cases "bind_params (ap_wires A) (ac_params act) args (run_scope A sid (ensureSession A sid w))")
  case (Inl pv)
  obtain p v where pv: "pv = (p, v)" by fastforce
  then have "rp_status rp = 400 \<and> w' = ensureSession A sid w"
    using assms Inl by (auto simp: runActionLocked_def run_scope_def refusal_def Let_def)
  then show ?thesis using argument [of p v] Inl pv by simp
next
  case (Inr sc)
  let ?r = "start_run A sid act args (ensureSession A sid w) sc"
  have run: "Some (rp, w') = (case first_denied A ?r (ac_requires act) of
      Some q \<Rightarrow> Some (refusal sid 403 (''forbidden: '' @ q) [], ar_world (recordAudit A False (''denied: '' @ q) ?r))
    | None \<Rightarrow> finish_run n A act ?r)"
    using assms Inr by (simp add: runActionLocked_def run_scope_def Let_def)
  show ?thesis
  proof (cases "first_denied A ?r (ac_requires act)")
    case None
    then have "finish_run n A act ?r = Some (rp, w')" using run by simp
    then show ?thesis using body [OF Inr] None by (simp add: first_denied_None)
  next
    case (Some q)
    then obtain rq where rq: "rq \<in> set (ac_requires act)" "rq_name rq = q" "\<not> policyPasses A ?r rq"
      using first_denied_Some by blast
    have "rp = refusal sid 403 (''forbidden: '' @ q) []" "w' = ar_world (recordAudit A False (''denied: '' @ q) ?r)"
      using run Some by simp_all
    then show ?thesis using denied [OF Inr rq(1,3)] rq(2) by simp
  qed
qed

lemma finish_run_success:
  assumes "finish_run n A act r = Some (rp, w')" "rp_status rp = 200"
  obtains m r1 w where "execActionBlock A (ac_body act) r = ((200, m), r1)"
    "commit_ops n A (ar_ops r1) (ar_world r1) = Some (None, w)"
    "(rp, w') = succeed A (ar_actor r) (ac_name act) r1 (put_session (r1\<lparr>ar_world := w\<rparr>))"
  using assms by (auto simp: finish_run_def refusal_def split: prod.splits option.splits if_splits)

text \<open>
  C2: an action answers 200 only when every argument was bound to its parameter's type, every
  policy it requires passed on the frame its body starts from, its body ran to the end and
  the store took the whole batch; and the audit trail's last entry then says that this actor
  ran this action and was allowed.
\<close>

theorem success_means_allowed:
  assumes "runActionLocked n A sid act args w = Some (rp, w')" "rp_status rp = 200"
  shows "\<exists>sc r1 m st.
      bind_params (ap_wires A) (ac_params act) args (run_scope A sid (ensureSession A sid w)) = Inr sc
    \<and> (\<forall>q \<in> set (ac_requires act). policyPasses A (start_run A sid act args (ensureSession A sid w) sc) q)
    \<and> execActionBlock A (ac_body act) (start_run A sid act args (ensureSession A sid w) sc) = ((200, m), r1)
    \<and> commit_ops n A (ar_ops r1) (ar_world r1) = Some (None, st)
    \<and> (\<exists>log. wd_audit w' = log @ [audit_line A (toStr (field sc ''actor'')) (ac_name act) True []])"
  using assms(1)
proof (cases rule: runActionLocked_cases)
  case (body sc)
  let ?r = "start_run A sid act args (ensureSession A sid w) sc"
  obtain m r1 x where f: "execActionBlock A (ac_body act) ?r = ((200, m), r1)"
    "commit_ops n A (ar_ops r1) (ar_world r1) = Some (None, x)"
    "(rp, w') = succeed A (ar_actor ?r) (ac_name act) r1 (put_session (r1\<lparr>ar_world := x\<rparr>))"
    using finish_run_success [OF body(3) assms(2)] .
  have "ar_actor ?r = toStr (field sc ''actor'')" by (simp add: start_run_def Let_def)
  then have "\<exists>log. wd_audit w' = log @ [audit_line A (toStr (field sc ''actor'')) (ac_name act) True []]"
    using f(3) by (auto simp: succeed_def Let_def)
  then show ?thesis using body(1,2) f(1,2) by blast
qed (use assms(2) in \<open>simp_all add: refusal_def\<close>)

text \<open>
  C34: a policy that does not pass stops the action before its body: the answer is 403, and the
  only trace in the whole world is one audit line that says the actor was denied.
\<close>

theorem denied_only_recorded:
  assumes "runActionLocked n A sid act args w = Some (rp, w')"
    "bind_params (ap_wires A) (ac_params act) args (run_scope A sid (ensureSession A sid w)) = Inr sc"
    "q \<in> set (ac_requires act)" "\<not> policyPasses A (start_run A sid act args (ensureSession A sid w) sc) q"
  shows "rp_status rp = 403 \<and> rp_deltas rp = [] \<and> rp_emits rp = [] \<and> rp_sid rp = sid
    \<and> (\<exists>d \<in> set (ac_requires act). \<not> policyPasses A (start_run A sid act args (ensureSession A sid w) sc) d
        \<and> rp_msg rp = ''forbidden: '' @ rq_name d
        \<and> w' = (ensureSession A sid w)\<lparr>wd_audit := wd_audit (ensureSession A sid w)
            @ [audit_line A (toStr (field sc ''actor'')) (ac_name act) False (''denied: '' @ rq_name d)]\<rparr>)"
  using assms(1)
proof (cases rule: runActionLocked_cases)
  case (denied sc' d)
  then have "sc' = sc" using assms(2) by simp
  then show ?thesis
    using denied(2-5) by (auto simp: refusal_def recordAudit_def start_run_def Let_def)
qed (use assms(2-4) in auto)

subsection \<open>Ownership of rows\<close>

definition owned :: "world \<Rightarrow> bool" where
  "owned w \<longleftrightarrow> (\<forall>e. distinct (wd_rows w e) \<and> (\<forall>a \<in> set (wd_rows w e). a < wd_next w))
     \<and> (\<forall>e e'. e \<noteq> e' \<longrightarrow> set (wd_rows w e) \<inter> set (wd_rows w e') = {})"

lemma distinct_submset:
  assumes "mset as \<subseteq># mset bs" "distinct bs"
  shows "distinct as"
proof -
  have "count (mset as) x \<le> 1" for x
  proof -
    have "count (mset bs) x = (if x \<in> set bs then 1 else 0)"
      using assms(2) unfolding distinct_count_atmost_1 by blast
    then have "count (mset bs) x \<le> 1" by simp
    then show ?thesis using mset_subset_eq_count [OF assms(1), of x] by (rule le_trans [rotated])
  qed
  then show ?thesis
    unfolding distinct_count_atmost_1 by (metis One_nat_def count_mset_0_iff le_SucE le_zero_eq)
qed

lemma owned_shrink:
  assumes "owned w" "mset as \<subseteq># mset (wd_rows w e)" "wd_rows w' = (wd_rows w)(e := as)" "wd_next w' = wd_next w"
  shows "owned w'"
proof -
  have "set as \<subseteq> set (wd_rows w e)" using assms(2) by (metis set_mset_mono set_mset_mset)
  moreover have "distinct as" using assms(1,2) distinct_submset by (auto simp: owned_def)
  ultimately show ?thesis using assms(1) by (simp add: owned_def assms(3,4)) blast
qed

lemma owned_write:
  assumes "owned (ar_world r)" "mset as \<subseteq># mset (wd_rows (ar_world r) e)"
  shows "owned (ar_world (write_rows e as r))"
  by (rule owned_shrink [OF assms]) (simp_all add: write_rows_def Let_def)

lemma owned_insert: "owned (ar_world r) \<Longrightarrow> owned (ar_world (insert_row e rw r))"
  by (fastforce simp: owned_def insert_row_def log_entity_def Let_def)

interpretation owner: logged_writes "\<lambda>r. owned (ar_world r)"
proof unfold_locales
  fix r r'
  assume "same_core r r'" "owned (ar_world r)"
  then show "owned (ar_world r')" by (simp add: same_core_def owned_def)
qed (simp_all add: owned_write owned_insert,
  simp_all add: owned_def write_field_def log_field_def write_cell_def log_state_def write_actor_def write_role_def Let_def)

lemma owned_same: "same_rows w w' \<Longrightarrow> owned w \<Longrightarrow> owned w'"
  by (fastforce simp: same_rows_def owned_def)

lemma owned_cong: "wd_rows w' = wd_rows w \<Longrightarrow> wd_next w' = wd_next w \<Longrightarrow> owned w' = owned w"
  by (simp add: owned_def)

lemma effects_rows:
  "wd_rows (snd (session_effects A r w)) = wd_rows w" "wd_next (snd (session_effects A r w)) = wd_next w"
  "wd_heap (snd (session_effects A r w)) = wd_heap w" "wd_store (snd (session_effects A r w)) = wd_store w"
proof -
  have f: "wd_rows (fold (\<lambda>(a, x) w. restateActor a x w) xs w) = wd_rows w
      \<and> wd_next (fold (\<lambda>(a, x) w. restateActor a x w) xs w) = wd_next w
      \<and> wd_heap (fold (\<lambda>(a, x) w. restateActor a x w) xs w) = wd_heap w
      \<and> wd_store (fold (\<lambda>(a, x) w. restateActor a x w) xs w) = wd_store w" for xs w
    by (induction xs arbitrary: w) (auto simp: restateActor_def)
  have g: "wd_rows (snd (revoke_all A ks a w)) = wd_rows w \<and> wd_next (snd (revoke_all A ks a w)) = wd_next w
      \<and> wd_heap (snd (revoke_all A ks a w)) = wd_heap w \<and> wd_store (snd (revoke_all A ks a w)) = wd_store w" for ks a w
    by (induction A ks a w rule: revoke_all.induct) (auto simp: revokeVisitor_def Let_def split: prod.split)
  show "wd_rows (snd (session_effects A r w)) = wd_rows w" "wd_next (snd (session_effects A r w)) = wd_next w"
    "wd_heap (snd (session_effects A r w)) = wd_heap w" "wd_store (snd (session_effects A r w)) = wd_store w"
    by (simp_all add: session_effects_def Let_def f g)
qed

lemma put_session_rows [simp]:
  "wd_rows (put_session r) = wd_rows (ar_world r)" "wd_next (put_session r) = wd_next (ar_world r)"
  "wd_heap (put_session r) = wd_heap (ar_world r)" "wd_store (put_session r) = wd_store (ar_world r)"
  by (simp_all add: put_session_def)

lemma runActionLocked_owned:
  assumes "runActionLocked n A sid act args w = Some (rp, w')" "owned w"
  shows "owned w'"
proof (cases "rp_status rp = 200")
  case False
  then show ?thesis using failed_run [OF assms(1)] owned_same assms(2) by blast
next
  case True
  from assms(1) show ?thesis
  proof (cases rule: runActionLocked_cases)
    case (body sc)
    let ?r = "start_run A sid act args (ensureSession A sid w) sc"
    obtain m r1 x where f: "execActionBlock A (ac_body act) ?r = ((200, m), r1)"
      "commit_ops n A (ar_ops r1) (ar_world r1) = Some (None, x)"
      "(rp, w') = succeed A (ar_actor ?r) (ac_name act) r1 (put_session (r1\<lparr>ar_world := x\<rparr>))"
      using finish_run_success [OF body(3) True] .
    have "owned (ar_world ?r)" using assms(2) by (simp add: start_run_def owned_def Let_def)
    then have "owned (ar_world r1)" using owner.execActionBlock_inv [of ?r A "ac_body act"] f(1) by simp
    moreover obtain st where "x = (ar_world r1)\<lparr>wd_store := st\<rparr>" using commit_ops_world [OF f(2)] by blast
    ultimately show ?thesis using f(3) by (simp add: succeed_def Let_def owned_def effects_rows)
  qed (use True in \<open>simp_all add: refusal_def\<close>)
qed

lemma fire_each_keeps:
  "(\<And>a w rp w'. P w \<Longrightarrow> go a w = Some (rp, w') \<Longrightarrow> P w') \<Longrightarrow> P w \<Longrightarrow> fire_each go acts w = Some w' \<Longrightarrow> P w'"
proof (induction go acts w rule: fire_each.induct)
  case (2 go act acts w)
  then show ?case by (auto split: option.splits)
qed simp

lemma run_depth_keeps:
  assumes "\<And>sid act args w rp w'. P w \<Longrightarrow> runActionLocked n A sid act args w = Some (rp, w') \<Longrightarrow> P w'"
  shows "P w \<Longrightarrow> run_depth d n A sid act args w = Some (rp, w') \<Longrightarrow> P w'"
proof (induction d arbitrary: sid act args w rp w')
  case 0
  then show ?case using assms by (auto simp: run_depth.simps split: option.splits if_splits)
next
  case (Suc d)
  then obtain rp1 w1 where l: "runActionLocked n A sid act args w = Some (rp1, w1)"
    by (auto simp: run_depth.simps [of "Suc d"] split: option.splits)
  have w1: "P w1" using assms [OF Suc.prems(1) l] .
  show ?case
  proof (cases "rp_status rp1 = 200")
    case False
    then show ?thesis using Suc.prems(2) l w1 by (simp add: run_depth.simps [of "Suc d"])
  next
    case True
    then have "fire_each (\<lambda>a w. run_depth d n A ''__system'' a [] w) (reactions A (ac_name act)) w1 = Some w'"
      using Suc.prems(2) l by (auto simp: run_depth.simps [of "Suc d"])
    then show ?thesis
      using fire_each_keeps [of P "\<lambda>a w. run_depth d n A ''__system'' a [] w" w1] Suc.IH w1 by blast
  qed
qed

lemma runAction_owned: "runAction n A sid act args w = Some (rp, w') \<Longrightarrow> owned w \<Longrightarrow> owned w'"
  using run_depth_keeps [of owned] runActionLocked_owned unfolding runAction_def by blast

subsection \<open>A club\<close>

definition members_only :: require where
  "members_only = \<lparr>rq_name = ''members'', rq_args = []\<rparr>"

definition ex_add_member :: action where
  "ex_add_member = \<lparr>ac_name = ''join'', ac_params = [], ac_requires = [members_only],
     ac_body = [SAdd ''E'' [(''code'', ILit (GInt 7) ''int'')] []]\<rparr>"

definition ex_react :: action where
  "ex_react = \<lparr>ac_name = ''react'', ac_params = [], ac_requires = [],
     ac_body = [SAdd ''E'' [(''code'', ILit (GInt 8) ''int'')] []]\<rparr>"

definition ex_club :: app where
  "ex_club = ex_app\<lparr>ap_actions := [(''react'', ex_react)], ap_triggers := [(''join'', ''react'')],
     ap_policies := [(''members'', \<lparr>po_params = [],
        po_expr = IBin ''=='' (IRef ''role'') (ILit (GStr ''member'') ''text'')\<rparr>)]\<rparr>"

lemmas ex_club_defs = ex_club_def ex_add_member_def ex_react_def members_only_def
lemmas ex_gate = policyPasses_def frame_ctx_def scope_now_def scope_of_def activeTenant_def tenantRoleFor_def
lemmas ex_commit = commit_ops_def ephemeral_def op_entity_def tx_of_def run_op_def Save_def set_rows_def rows_of_def
  newMemStore_def succeed_def session_effects_def put_session_def sessionToken_def


lemma ex_member_joins:
  "\<exists>rp w'. runActionLocked 3 ex_club ''a1'' ex_add_member [] ex_world = Some (rp, w') \<and> rp_status rp = 200"
  by (simp add: runActionLocked_def ensureSession_def ex_defs ex_club_defs system_sids_def Let_def)
    ((simp add: ex_gate ex_exec ex_schema_simps Let_def),
     (simp add: ex_commit system_sids_def ex_schema_simps Let_def applyBin_def equal_scalar_def))

theorem success_means_allowed_witness:
  "\<exists>rp w' log a. runActionLocked 3 ex_club ''a1'' ex_add_member [] ex_world = Some (rp, w')
     \<and> wd_audit w' = log @ [audit_line ex_club a ''join'' True []]"
proof -
  obtain rp w' where r: "runActionLocked 3 ex_club ''a1'' ex_add_member [] ex_world = Some (rp, w')" "rp_status rp = 200"
    using ex_member_joins by blast
  then show ?thesis using success_means_allowed [OF r] by (auto simp: ex_add_member_def)
qed

lemma ex_guest_denied:
  "\<exists>rp w'. runActionLocked 3 ex_club [] ex_add_member [] ex_world = Some (rp, w')"
  "\<exists>sc. bind_params (ap_wires ex_club) (ac_params ex_add_member) [] (run_scope ex_club [] (ensureSession ex_club [] ex_world)) = Inr sc
     \<and> \<not> policyPasses ex_club (start_run ex_club [] ex_add_member [] (ensureSession ex_club [] ex_world) sc) members_only"
proof -
  show p: "\<exists>sc. bind_params (ap_wires ex_club) (ac_params ex_add_member) [] (run_scope ex_club [] (ensureSession ex_club [] ex_world)) = Inr sc
     \<and> \<not> policyPasses ex_club (start_run ex_club [] ex_add_member [] (ensureSession ex_club [] ex_world) sc) members_only"
    by (simp add: ensureSession_def run_scope_def ex_defs ex_club_defs system_sids_def Let_def)
      (simp add: ex_gate start_run_def Let_def applyBin_def equal_scalar_def litValue_def ex_schema_simps)
  then show "\<exists>rp w'. runActionLocked 3 ex_club [] ex_add_member [] ex_world = Some (rp, w')"
    by (auto simp: runActionLocked_def run_scope_def ex_add_member_def Let_def)
qed

theorem denied_only_recorded_witness:
  "\<exists>rp w'. runActionLocked 3 ex_club [] ex_add_member [] ex_world = Some (rp, w') \<and> rp_status rp = 403 \<and> wd_rows w' = wd_rows ex_world"
proof -
  obtain rp w' sc where r: "runActionLocked 3 ex_club [] ex_add_member [] ex_world = Some (rp, w')"
    "bind_params (ap_wires ex_club) (ac_params ex_add_member) [] (run_scope ex_club [] (ensureSession ex_club [] ex_world)) = Inr sc"
    "\<not> policyPasses ex_club (start_run ex_club [] ex_add_member [] (ensureSession ex_club [] ex_world) sc) members_only"
    using ex_guest_denied by blast
  then show ?thesis using denied_only_recorded [OF r(1,2) _ r(3)] by (auto simp: ex_add_member_def)
qed

end
