(* ===== verification/AccountLaws.thy ===== *)
theory AccountLaws
  imports Accounts ActionSafety
begin

text \<open>
  What the accounts promise: the lockout counts exactly the clustered failures, a live
  session carries the role and the verification of the account it names, an account with a
  second factor is never entered without it, a reset token is spent once, and every account
  and tenancy action keeps the working set a proper heap of rows.
\<close>

subsection \<open>The lockout\<close>

lemma note_fail_first:
  "alget (lo_fails l) k = None \<Longrightarrow>
     alget (lo_fails (note_fail t k l)) k = Some \<lparr>fr_count = 1, fr_first = t,
       fr_until = (if lo_max l \<le> 1 then Some (t + lo_cool l) else None)\<rparr>"
  by (simp add: note_fail_def Let_def)

lemma note_fail_next:
  "alget (lo_fails l) k = Some r \<Longrightarrow> t - fr_first r \<le> lo_window l \<Longrightarrow>
     alget (lo_fails (note_fail t k l)) k = Some \<lparr>fr_count = Suc (fr_count r), fr_first = fr_first r,
       fr_until = (if lo_max l \<le> Suc (fr_count r) then Some (t + lo_cool l) else fr_until r)\<rparr>"
  by (simp add: note_fail_def Let_def)

lemma note_fail_config [simp]:
  "lo_max (note_fail t k l) = lo_max l" "lo_window (note_fail t k l) = lo_window l" "lo_cool (note_fail t k l) = lo_cool l"
  by (simp_all add: note_fail_def Let_def)

definition fails_at :: "string \<Rightarrow> int list \<Rightarrow> lockout" where
  "fails_at k ts = fold (\<lambda>t. note_fail t k) ts newLockout"

lemma fails_at_snoc: "fails_at k (ts @ [t]) = note_fail t k (fails_at k ts)"
  by (simp add: fails_at_def)

lemma fails_at_config:
  "lo_max (fails_at k ts) = 5" "lo_window (fails_at k ts) = 15 * minute" "lo_cool (fails_at k ts) = 15 * minute"
  by (induction ts rule: rev_induct) (simp_all add: fails_at_snoc, simp_all add: fails_at_def newLockout_def)

lemma fails_at_record:
  "sorted ts \<Longrightarrow> ts \<noteq> [] \<Longrightarrow> last ts - hd ts \<le> 15 * minute \<Longrightarrow>
     alget (lo_fails (fails_at k ts)) k = Some \<lparr>fr_count = length ts, fr_first = hd ts,
       fr_until = (if 5 \<le> length ts then Some (last ts + 15 * minute) else None)\<rparr>"
proof (induction ts rule: rev_induct)
  case (snoc t ts)
  show ?case
  proof (cases "ts = []")
    case True
    then show ?thesis
      using note_fail_first [of newLockout k t] by (simp add: fails_at_def newLockout_def)
  next
    case False
    then have "last ts \<le> t" "sorted ts" using snoc.prems(1) by (auto simp: sorted_append)
    moreover have "t - hd ts \<le> 15 * minute" using snoc.prems(3) False by simp
    ultimately have r: "alget (lo_fails (fails_at k ts)) k = Some \<lparr>fr_count = length ts, fr_first = hd ts,
       fr_until = (if 5 \<le> length ts then Some (last ts + 15 * minute) else None)\<rparr>"
      using snoc.IH False by simp
    show ?thesis
      using note_fail_next [OF r, of t] \<open>t - hd ts \<le> 15 * minute\<close> False
      by (simp add: fails_at_snoc fails_at_config)
  qed
qed simp

text \<open>
  C36: failures at the times \<open>ts\<close>, clustered within the fifteen-minute window, lock the account
  when and only when there are at least five of them, and until fifteen minutes after the last;
  from then on the account is open again.
\<close>

theorem lockout_counts:
  assumes "sorted ts" "ts \<noteq> []" "last ts - hd ts \<le> 15 * minute"
  shows "locked now (fails_at user ts) user \<longleftrightarrow> 5 \<le> length ts \<and> now < last ts + 15 * minute"
  using fails_at_record [OF assms] by (simp add: locked_def)

theorem lockout_counts_witness:
  "locked (5 * minute) (fails_at ''ada'' [0, 1, 2, 3, minute]) ''ada''
   \<and> \<not> locked (16 * minute) (fails_at ''ada'' [0, 1, 2, 3, minute]) ''ada''"
  by (simp add: lockout_counts minute_def)

subsection \<open>A live session is its account\<close>

definition uname :: "world \<Rightarrow> addr \<Rightarrow> string" where
  "uname w a = toStr (field (wd_heap w a) ''username'')"

definition guest_like :: "sess \<Rightarrow> bool" where
  "guest_like s \<longleftrightarrow> ss_actor s = ''guest'' \<and> ss_role s = ''guest'' \<and> \<not> ss_verified s"

definition stands_for :: "world \<Rightarrow> sess \<Rightarrow> addr \<Rightarrow> bool" where
  "stands_for w s a \<longleftrightarrow> a \<in> set (wd_rows w user_entity) \<and> ss_actor s = uname w a
     \<and> ss_role s = toStr (field (wd_heap w a) ''role'') \<and> ss_verified s = truthy (field (wd_heap w a) ''verified'')"

definition known :: "world \<Rightarrow> sess \<Rightarrow> bool" where
  "known w s \<longleftrightarrow> guest_like s \<or> (\<exists>a. stands_for w s a)"

definition accounts_ok :: "world \<Rightarrow> bool" where
  "accounts_ok w \<longleftrightarrow> inj_on (uname w) (set (wd_rows w user_entity))
     \<and> (\<forall>a \<in> set (wd_rows w user_entity). a < wd_next w \<and> uname w a \<noteq> ''guest'')"

definition mirrors :: "world \<Rightarrow> bool" where
  "mirrors w \<longleftrightarrow> accounts_ok w \<and> (\<forall>p \<in> set (wd_sessions w). known w (snd p))"

lemma mirrors_frame:
  "wd_heap w' = wd_heap w \<Longrightarrow> wd_rows w' = wd_rows w \<Longrightarrow> wd_next w' = wd_next w \<Longrightarrow> wd_sessions w' = wd_sessions w
     \<Longrightarrow> mirrors w' = mirrors w"
  by (simp add: mirrors_def accounts_ok_def uname_def [abs_def] known_def stands_for_def)

lemma mirrors_simps [simp]:
  "mirrors (note_audit d x act ok m w) = mirrors w" "mirrors (saveReserved e a w) = mirrors w"
  by (rule mirrors_frame; simp add: note_audit_def saveReserved_def)+

lemma alput_set: "p \<in> set (alput m k v) \<Longrightarrow> p \<in> set m \<or> p = (k, v)"
  by (induction m) (auto split: if_splits)

lemma aldel_set: "p \<in> set (aldel m k) \<Longrightarrow> p \<in> set m"
  by (simp add: aldel_def)

lemma alget_set: "alget m k = Some v \<Longrightarrow> (k, v) \<in> set m"
  by (induction m) (auto split: if_splits)

lemma sessions_simps [simp]:
  "accounts_ok (w\<lparr>wd_sessions := ss\<rparr>) = accounts_ok w" "known (w\<lparr>wd_sessions := ss\<rparr>) = known w"
  by (simp add: accounts_ok_def uname_def [abs_def]) (simp add: fun_eq_iff known_def stands_for_def uname_def)

text \<open>Only the sessions change, and each still stands for someone.\<close>

lemma mirrors_edit:
  assumes "mirrors w" "\<And>s. known w s \<Longrightarrow> known w (f s)"
  shows "mirrors (edit_session sid f w)"
proof (cases "alget (wd_sessions w) sid")
  case None
  then show ?thesis using assms(1) by (simp add: edit_session_def)
next
  case (Some s)
  then have "known w (f s)" using assms alget_set [OF Some] by (fastforce simp: mirrors_def)
  then show ?thesis using assms(1) Some by (auto simp: edit_session_def mirrors_def dest!: alput_set)
qed

lemma mirrors_rotate:
  assumes "mirrors w"
  shows "mirrors (rotateSession fresh old w)"
proof (cases "alget (wd_sessions w) old")
  case None
  then show ?thesis using assms by (simp add: rotateSession_def)
next
  case (Some s)
  then have "known w s" using assms alget_set [OF Some] by (fastforce simp: mirrors_def)
  then show ?thesis using assms Some by (auto simp: rotateSession_def mirrors_def dest!: alput_set aldel_set)
qed

lemma known_pending [simp]: "known w (s\<lparr>ss_pending := x\<rparr>) = known w s"
  by (simp add: known_def guest_like_def stands_for_def)

lemma mirrors_signIn:
  assumes "mirrors w" "a \<in> set (wd_rows w user_entity)" "u = wd_heap w a"
  shows "mirrors (signIn sid u w)"
  unfolding signIn_def
proof (rule mirrors_edit [OF assms(1)])
  fix s
  have "stands_for w (s\<lparr>ss_actor := toStr (field u ''username''), ss_role := toStr (field u ''role''),
     ss_verified := truthy (field u ''verified''), ss_pending := []\<rparr>) a"
    using assms(2,3) by (simp add: stands_for_def uname_def)
  then show "known w (s\<lparr>ss_actor := toStr (field u ''username''), ss_role := toStr (field u ''role''),
     ss_verified := truthy (field u ''verified''), ss_pending := []\<rparr>)" by (auto simp: known_def)
qed

text \<open>A column that is neither the name, the role nor the verification.\<close>

lemma mirrors_put:
  assumes "mirrors w" "f \<notin> {''username'', ''role'', ''verified''}"
  shows "mirrors (put_field a f v w)"
proof -
  have "field (wd_heap (put_field a f v w) b) g = field (wd_heap w b) g" if "g \<in> {''username'', ''role'', ''verified''}" for b g
    using that assms(2) by (auto simp: put_field_def field_def)
  moreover have "wd_rows (put_field a f v w) = wd_rows w" "wd_next (put_field a f v w) = wd_next w"
    "wd_sessions (put_field a f v w) = wd_sessions w" by (simp_all add: put_field_def)
  ultimately show ?thesis
    using assms(1) by (simp add: mirrors_def accounts_ok_def uname_def [abs_def] known_def stands_for_def)
qed

text \<open>Rewriting the role or the verification of an account, and of every session that names it.\<close>

lemma mirrors_rewrite:
  assumes "mirrors w" "a \<in> set (wd_rows w user_entity)" "uname w a = name" "f = ''role'' \<or> f = ''verified''"
    and g: "\<And>s. g s = (if f = ''role'' then s\<lparr>ss_role := toStr v\<rparr> else s\<lparr>ss_verified := truthy v\<rparr>)"
  shows "mirrors (every_session name g (put_field a f v w))"
proof -
  let ?w = "put_field a f v w"
  have n: "name \<noteq> ''guest''" using assms(1-3) by (auto simp: mirrors_def accounts_ok_def)
  have un: "uname ?w b = uname w b" for b using assms(4) by (auto simp: put_field_def field_def uname_def)
  have rows: "wd_rows ?w = wd_rows w" "wd_next ?w = wd_next w" "wd_sessions ?w = wd_sessions w" by (simp_all add: put_field_def)
  have other: "wd_heap ?w b = wd_heap w b" if "b \<noteq> a" for b using that by (simp add: put_field_def)
  have "known ?w (if ss_actor s = name then g s else s)" if k: "known w s" for s
  proof (cases "ss_actor s = name")
    case True
    then obtain b where b: "stands_for w s b" using k n True unfolding known_def guest_like_def by blast
    then have "b = a" using assms(1-3) True by (auto simp: mirrors_def accounts_ok_def stands_for_def inj_on_def)
    then have "stands_for ?w (g s) a"
      using b assms(3,4) un g by (auto simp: stands_for_def put_field_def field_def uname_def)
    then show ?thesis using True by (auto simp: known_def)
  next
    case False
    show ?thesis
    proof (cases "guest_like s")
      case True
      then show ?thesis using False by (simp add: known_def)
    next
      case g: False
      then obtain b where b: "stands_for w s b" using k by (auto simp: known_def)
      then have "b \<noteq> a" using False assms(3) by (auto simp: stands_for_def)
      then have "stands_for ?w s b" using b un other rows by (simp add: stands_for_def)
      then show ?thesis using False by (auto simp: known_def)
    qed
  qed
  then have "mirrors (?w\<lparr>wd_sessions := map (\<lambda>(i, s). (i, if ss_actor s = name then g s else s)) (wd_sessions ?w)\<rparr>)"
    using assms(1) un rows by (fastforce simp: mirrors_def accounts_ok_def uname_def [abs_def] known_def stands_for_def)
  then show ?thesis by (simp add: every_session_def)
qed

lemma findUser_row: "findUser w n = Some a \<Longrightarrow> a \<in> set (wd_rows w user_entity) \<and> uname w a = n"
  by (auto simp: findUser_def uname_def find_Some_iff)

lemma findUser_none: "findUser w n = None \<Longrightarrow> a \<in> set (wd_rows w user_entity) \<Longrightarrow> uname w a \<noteq> n"
  by (auto simp: findUser_def uname_def find_None_iff)

lemma mirrors_insert:
  assumes "mirrors w" "insertReserved user_entity rw w = (a, w1)" "findUser w (toStr (field rw ''username'')) = None"
    "toStr (field rw ''username'') \<noteq> ''guest''"
  shows "mirrors w1 \<and> a \<in> set (wd_rows w1 user_entity)"
proof -
  let ?m = "alput rw ''id'' (GInt (wd_ids w user_entity + 1))"
  have a: "a = wd_next w" "wd_heap w1 = (wd_heap w)(a := ?m)" "wd_next w1 = Suc a"
    "wd_rows w1 user_entity = wd_rows w user_entity @ [a]" "wd_sessions w1 = wd_sessions w"
    using assms(2) by (auto simp: insertReserved_def Let_def)
  have old: "wd_heap w1 b = wd_heap w b" "uname w1 b = uname w b" "b < wd_next w" if "b \<in> set (wd_rows w user_entity)" for b
  proof -
    show b: "b < wd_next w" using that assms(1) by (simp add: mirrors_def accounts_ok_def)
    then show "wd_heap w1 b = wd_heap w b" "uname w1 b = uname w b" using a by (simp_all add: uname_def)
  qed
  have new: "uname w1 a = toStr (field rw ''username'')" using a by (simp add: uname_def field_def)
  then have "uname w1 a \<noteq> uname w b" if "b \<in> set (wd_rows w user_entity)" for b
    using findUser_none [OF assms(3) that] by simp
  then have "accounts_ok w1"
    using assms(1,4) old a new by (fastforce simp: mirrors_def accounts_ok_def inj_on_def)
  moreover have "stands_for w1 t b" if "stands_for w t b" for t b
    using that old [of b] a(4) by (simp add: stands_for_def)
  then have "known w1 t" if "known w t" for t using that by (auto simp: known_def)
  ultimately show ?thesis using assms(1) a by (simp add: mirrors_def)
qed

lemma rotate_rows [simp]:
  "wd_rows (rotateSession f old w) = wd_rows w" "wd_heap (rotateSession f old w) = wd_heap w"
  by (simp_all add: rotateSession_def split: option.split)

lemma mirrors_enter:
  "mirrors w \<Longrightarrow> a \<in> set (wd_rows w user_entity) \<Longrightarrow> mirrors (signIn i (wd_heap w a) (rotateSession f old w))"
  by (rule mirrors_signIn [where a = a]) (simp_all add: mirrors_rotate)

lemma mirrors_rotate_signIn [simp]:
  "mirrors w \<Longrightarrow> findUser w n = Some a \<Longrightarrow> mirrors (signIn i (wd_heap w a) (rotateSession f old w))"
  using findUser_row mirrors_enter by blast

lemma mirrors_signup:
  assumes "mirrors (si_world st)" "authSignup C A d sid name pw st = (ans, st')" "name \<noteq> ''guest''"
  shows "mirrors (si_world st')"
proof (cases "cr_hash C pw")
  case (Inl err)
  then show ?thesis using assms(1,2) by (auto simp: authSignup_def split: if_splits)
next
  case (Inr hash)
  let ?w = "si_world st"
  show ?thesis
  proof (cases "name = [] \<or> pw = [] \<or> findUser ?w name \<noteq> None")
    case True
    then show ?thesis using assms(1,2) Inr by (auto simp: authSignup_def Let_def split: if_splits)
  next
    case False
    obtain rw where rw: "rw = [(''username'', GStr name), (''password'', GStr hash),
       (''role'', GStr (if wd_rows ?w user_entity = [] then ''admin'' else ''member'')),
       (''email'', GStr []), (''verified'', GBool False), (''verifyToken'', GStr (hashToken C (dr_token d))),
       (''resetToken'', GStr []), (''resetExpires'', GInt 0), (''mfaSecret'', GStr []), (''mfaEnabled'', GBool False)]"
      by blast
    obtain a w1 where i: "insertReserved user_entity rw ?w = (a, w1)" by fastforce
    have "toStr (field rw ''username'') = name" by (simp add: rw field_def)
    then have "mirrors w1 \<and> a \<in> set (wd_rows w1 user_entity)"
      using mirrors_insert [OF assms(1) i] False assms(3) by simp
    moreover have "si_world st' = note_audit d name ''signup'' True []
        (signIn (dr_sid d) (wd_heap w1 a) (rotateSession (dr_sid d) sid w1))"
      using assms(2) False Inr i by (auto simp: authSignup_def rw Let_def)
    ultimately show ?thesis by (simp add: mirrors_enter)
  qed
qed

lemma mirrors_login:
  "mirrors (si_world st) \<Longrightarrow> authLogin C A d sid name pw st = (ans, st') \<Longrightarrow> mirrors (si_world st')"
  by (auto simp: authLogin_def Let_def intro!: mirrors_edit split: if_splits option.splits)

lemma mfa_ok_user: "mfa_ok C d sid n code w = Some a \<Longrightarrow> findUser w n = Some a"
  by (auto simp: mfa_ok_def split: option.splits if_splits)

lemma mirrors_loginMFA:
  "mirrors (si_world st) \<Longrightarrow> authLoginMFA C d sid name code st = (ans, st') \<Longrightarrow> mirrors (si_world st')"
  by (auto simp: authLoginMFA_def Let_def dest: mfa_ok_user split: if_splits option.splits)

lemma mirrors_logout: "mirrors (si_world st) \<Longrightarrow> authLogout d sid st = (ans, st') \<Longrightarrow> mirrors (si_world st')"
  by (auto simp: authLogout_def Let_def known_def guest_like_def guest_again_def intro!: mirrors_rotate mirrors_edit)

lemma mirrors_put_save [simp]:
  "mirrors w \<Longrightarrow> f \<notin> {''username'', ''role'', ''verified''} \<Longrightarrow> mirrors (saveReserved e a (put_field a f v w))"
  by (simp add: mirrors_put)

lemma every_save: "every_session n g (saveReserved e a w) = saveReserved e a (every_session n g w)"
  by (simp add: every_session_def saveReserved_def)

lemma mirrors_setRole:
  assumes "mirrors (si_world st)" "authSetRole d sid name role st = (ans, st')"
  shows "mirrors (si_world st')"
proof -
  have "mirrors (every_session name (\<lambda>s. s\<lparr>ss_role := role\<rparr>) (put_field a ''role'' (GStr role) (si_world st)))"
    if "findUser (si_world st) name = Some a" for a
    using findUser_row [OF that] by (intro mirrors_rewrite [OF assms(1)]) simp_all
  then show ?thesis using assms by (auto simp: authSetRole_def Let_def every_save split: if_splits option.splits)
qed

lemma mirrors_verify:
  assumes "mirrors (si_world st)" "authVerifyEmail C d token st = (ans, st')"
  shows "mirrors (si_world st')"
proof (cases "find (\<lambda>a. tokenEqual C token (toStr (field (wd_heap (si_world st) a) ''verifyToken''))) (wd_rows (si_world st) user_entity)")
  case None
  then show ?thesis using assms by (auto simp: authVerifyEmail_def Let_def)
next
  case (Some a)
  let ?w = "si_world st" and ?n = "uname (si_world st) a"
  let ?g = "\<lambda>s. s\<lparr>ss_verified := True\<rparr>"
  have a: "a \<in> set (wd_rows ?w user_entity)" using Some by (auto simp: find_Some_iff)
  have "mirrors (every_session ?n ?g (put_field a ''verified'' (GBool True) ?w))"
    using a by (intro mirrors_rewrite [OF assms(1)]) simp_all
  then have "mirrors (put_field a ''verifyToken'' (GStr []) (every_session ?n ?g (put_field a ''verified'' (GBool True) ?w)))"
    by (simp add: mirrors_put)
  moreover have "put_field a ''verifyToken'' x (every_session n g w) = every_session n g (put_field a ''verifyToken'' x w)" for x n g w
    by (simp add: put_field_def every_session_def)
  ultimately show ?thesis
    using assms(2) Some by (auto simp: authVerifyEmail_def Let_def every_save uname_def [symmetric])
qed

lemma mirrors_others:
  "mirrors (si_world st) \<Longrightarrow> authRequestReset C d name st = (ans, st') \<Longrightarrow> mirrors (si_world st')"
  "mirrors (si_world st) \<Longrightarrow> authResetPassword C d name token pw st = (ans, st') \<Longrightarrow> mirrors (si_world st')"
  "mirrors (si_world st) \<Longrightarrow> authEnableMFA C d sid st = (ans, st') \<Longrightarrow> mirrors (si_world st')"
  "mirrors (si_world st) \<Longrightarrow> authConfirmMFA C d sid code st = (ans, st') \<Longrightarrow> mirrors (si_world st')"
  by (auto simp: authRequestReset_def authResetPassword_def authEnableMFA_def authConfirmMFA_def Let_def mirrors_put
      split: if_splits option.splits sum.splits)

lemma runAuth_mirrors:
  assumes "mirrors (si_world st)" "runAuth C A d sid act args st = (ans, st')" "act = ''signup'' \<Longrightarrow> argStr args 0 \<noteq> ''guest''"
  shows "mirrors (si_world st')"
  using assms
  by (auto simp: runAuth_def split: if_splits
      intro: mirrors_signup mirrors_login mirrors_loginMFA mirrors_logout mirrors_setRole mirrors_verify mirrors_others)

text \<open>What the account actions can make of a site: visitors arrive, and actions run.\<close>

inductive reaches :: "crypt \<Rightarrow> app \<Rightarrow> site \<Rightarrow> site \<Rightarrow> bool" for C A where
  start: "reaches C A st st"
| visit: "reaches C A st s1 \<Longrightarrow>
    reaches C A st (s1\<lparr>si_world := (si_world s1)\<lparr>wd_sessions := alput (wd_sessions (si_world s1)) sid (newSession A ''guest'' ''guest'')\<rparr>\<rparr>)"
| act: "reaches C A st s1 \<Longrightarrow> runAuth C A d sid act args s1 = (ans, s2) \<Longrightarrow>
    (act = ''signup'' \<longrightarrow> argStr args 0 \<noteq> ''guest'') \<Longrightarrow> reaches C A st s2"

lemma reaches_mirrors: "reaches C A st st' \<Longrightarrow> mirrors (si_world st) \<Longrightarrow> mirrors (si_world st')"
proof (induction rule: reaches.induct)
  case (visit st s1 sid)
  have "known (si_world s1) (newSession A ''guest'' ''guest'')" by (simp add: known_def guest_like_def newSession_def)
  then show ?case using visit by (auto simp: mirrors_def dest!: alput_set)
qed (auto intro: runAuth_mirrors)

text \<open>
  C4: from a site with no accounts and no sessions, whatever visitors and account actions
  come, a live session is either a guest without role or verification, or names exactly one
  account and carries the role and the verification that account has now: a promotion, a
  demotion and a verified address reach every session at once. The name guest must not be
  signed up, see \<open>guest_signup_verifies_everyone\<close>.
\<close>

theorem sessions_mirror_accounts:
  assumes "reaches C A st st'" "wd_rows (si_world st) user_entity = []" "wd_sessions (si_world st) = []"
    "(i, s) \<in> set (wd_sessions (si_world st'))"
  shows "guest_like s \<or>
    (\<exists>!a. a \<in> set (wd_rows (si_world st') user_entity) \<and> uname (si_world st') a = ss_actor s
       \<and> toStr (field (wd_heap (si_world st') a) ''role'') = ss_role s
       \<and> truthy (field (wd_heap (si_world st') a) ''verified'') = ss_verified s)"
proof -
  have "mirrors (si_world st')" using reaches_mirrors [OF assms(1)] assms(2,3) by (simp add: mirrors_def accounts_ok_def)
  then have "known (si_world st') s" "inj_on (uname (si_world st')) (set (wd_rows (si_world st') user_entity))"
    using assms(4) by (fastforce simp: mirrors_def accounts_ok_def)+
  then show ?thesis by (auto simp: known_def stands_for_def inj_on_def)
qed

definition ex_crypt :: crypt where
  "ex_crypt = \<lparr>cr_hash = (\<lambda>p. Inr (CHR ''#'' # p)), cr_compare = (\<lambda>h c. h = CHR ''#'' # c), cr_sign = (\<lambda>t. t),
     cr_totp = (\<lambda>secret code now. code = secret), cr_uri = (\<lambda>a s. s)\<rparr>"

definition ex_draw :: draw where
  "ex_draw = \<lparr>dr_now = 0, dr_sid = ''s2'', dr_token = ''t1'', dr_secret = ''k''\<rparr>"

definition ex_empty :: site where
  "ex_empty = \<lparr>si_world = ex_world\<lparr>wd_sessions := []\<rparr>, si_lock = newLockout\<rparr>"

lemmas ex_site = ex_crypt_def ex_draw_def ex_empty_def ex_world_def ex_app_def newSession_def user_entity_def

lemmas account_steps = runAuth_def authSignup_def authLogin_def authLogout_def authSetRole_def authVerifyEmail_def
  argStr_def findUser_def insertReserved_def signIn_def edit_session_def rotateSession_def note_audit_def
  every_session_def saveReserved_def put_field_def field_def Let_def

definition ex_visited :: site where
  "ex_visited = ex_empty\<lparr>si_world := (si_world ex_empty)\<lparr>wd_sessions :=
     alput (wd_sessions (si_world ex_empty)) ''s1'' (newSession ex_app ''guest'' ''guest'')\<rparr>\<rparr>"

definition ex_joined :: site where
  "ex_joined = snd (runAuth ex_crypt ex_app ex_draw ''s1'' ''signup'' [GStr ''ada'', GStr ''pw''] ex_visited)"

lemma ex_joined_session: "\<exists>s. wd_sessions (si_world ex_joined) = [(''s2'', s)] \<and> ss_actor s = ''ada'' \<and> ss_role s = ''admin''"
  by (simp add: ex_joined_def ex_visited_def account_steps ex_site aldel_def)

theorem sessions_mirror_accounts_witness:
  "\<exists>s a. (''s2'', s) \<in> set (wd_sessions (si_world ex_joined)) \<and> a \<in> set (wd_rows (si_world ex_joined) user_entity)
     \<and> uname (si_world ex_joined) a = ss_actor s \<and> toStr (field (wd_heap (si_world ex_joined) a) ''role'') = ss_role s"
proof -
  have v: "reaches ex_crypt ex_app ex_empty ex_visited"
    unfolding ex_visited_def by (rule reaches.visit [OF reaches.start])
  have "reaches ex_crypt ex_app ex_empty ex_joined"
    by (rule reaches.act [OF v, of ex_draw "''s1''" "''signup''" "[GStr ''ada'', GStr ''pw'']"
          "fst (runAuth ex_crypt ex_app ex_draw ''s1'' ''signup'' [GStr ''ada'', GStr ''pw''] ex_visited)"])
      (simp_all add: ex_joined_def argStr_def)
  moreover have "wd_rows (si_world ex_empty) user_entity = []" "wd_sessions (si_world ex_empty) = []"
    by (simp_all add: ex_site)
  moreover obtain s where s: "wd_sessions (si_world ex_joined) = [(''s2'', s)]" "ss_actor s = ''ada''" "ss_role s = ''admin''"
    using ex_joined_session by blast
  ultimately have "guest_like s \<or> (\<exists>!a. a \<in> set (wd_rows (si_world ex_joined) user_entity) \<and> uname (si_world ex_joined) a = ss_actor s
       \<and> toStr (field (wd_heap (si_world ex_joined) a) ''role'') = ss_role s
       \<and> truthy (field (wd_heap (si_world ex_joined) a) ''verified'') = ss_verified s)"
    using sessions_mirror_accounts [of ex_crypt ex_app ex_empty ex_joined "''s2''" s] by simp
  then show ?thesis using s by (auto simp: guest_like_def)
qed

subsection \<open>The second factor\<close>

definition actors :: "world \<Rightarrow> string set" where
  "actors w = (\<lambda>p. ss_actor (snd p)) ` set (wd_sessions w)"

lemma actors_frame [simp]:
  "actors (note_audit d x act ok m w) = actors w" "actors (saveReserved e a w) = actors w" "actors (put_field a f v w) = actors w"
  by (simp_all add: actors_def note_audit_def saveReserved_def put_field_def)

lemma actors_iff: "x \<in> actors w \<longleftrightarrow> (\<exists>i s. (i, s) \<in> set (wd_sessions w) \<and> x = ss_actor s)"
  by (force simp: actors_def)

lemma actors_rotate: "x \<in> actors (rotateSession fresh old w) \<Longrightarrow> x \<in> actors w"
  by (fastforce simp: actors_iff rotateSession_def dest!: alput_set aldel_set alget_set split: option.splits)

lemma actors_edit: "x \<in> actors (edit_session sid f w) \<Longrightarrow> (\<And>s. ss_actor (f s) = ss_actor s \<or> ss_actor (f s) = y) \<Longrightarrow> x \<in> actors w \<or> x = y"
proof -
  assume x: "x \<in> actors (edit_session sid f w)" and f: "\<And>s. ss_actor (f s) = ss_actor s \<or> ss_actor (f s) = y"
  show ?thesis
  proof (cases "alget (wd_sessions w) sid")
    case None
    then show ?thesis using x by (simp add: edit_session_def)
  next
    case (Some s)
    then have "ss_actor s \<in> actors w" using alget_set [OF Some] by (force simp: actors_def)
    then show ?thesis using x Some f [of s] by (fastforce simp: edit_session_def actors_iff dest!: alput_set)
  qed
qed

lemma actors_signIn: "x \<in> actors (signIn sid u w) \<Longrightarrow> x \<in> actors w \<or> x = toStr (field u ''username'')"
  unfolding signIn_def by (erule actors_edit) simp

lemma actors_every: "(\<And>s. ss_actor (f s) = ss_actor s) \<Longrightarrow> actors (every_session n f w) = actors w"
  by (auto simp: actors_def every_session_def image_image split_beta intro!: image_cong)

lemma actors_insert: "insertReserved e rw w = (a, w1) \<Longrightarrow> actors w1 = actors w"
  by (auto simp: insertReserved_def actors_def Let_def)

text \<open>Who a login without a second factor can make of a session.\<close>

lemma enters:
  assumes "x \<in> actors (signIn i (wd_heap w a) (rotateSession f old w))" "x \<notin> actors w"
  shows "x = uname w a"
  using actors_signIn [OF assms(1)] actors_rotate assms(2) by (auto simp: uname_def)

lemma login_enters:
  assumes "authLogin C A d sid name pw st = (ans, st')" "x \<in> actors (si_world st')" "x \<notin> actors (si_world st)"
  shows "\<exists>a. findUser (si_world st) x = Some a \<and> \<not> truthy (field (wd_heap (si_world st) a) ''mfaEnabled'')
     \<and> passwordMatches C (toStr (field (wd_heap (si_world st) a) ''password'')) pw \<and> \<not> locked (dr_now d) (si_lock st) x"
proof -
  let ?w = "si_world st"
  have pend: "x \<notin> actors (edit_session sid (\<lambda>s. s\<lparr>ss_pending := name\<rparr>) ?w)"
    using actors_edit [of x sid "\<lambda>s. s\<lparr>ss_pending := name\<rparr>" ?w x] assms(3)
    by (fastforce simp: edit_session_def actors_iff dest!: alput_set alget_set split: option.splits)
  obtain a where a: "findUser ?w name = Some a" "\<not> locked (dr_now d) (si_lock st) name"
    "\<not> truthy (field (wd_heap ?w a) ''mfaEnabled'')" "passwordMatches C (toStr (field (wd_heap ?w a) ''password'')) pw"
    "si_world st' = note_audit d name ''login'' True [] (signIn (dr_sid d) (wd_heap ?w a) (rotateSession (dr_sid d) sid ?w))"
    using assms pend by (auto simp: authLogin_def Let_def split: if_splits option.splits)
  then have "x = uname ?w a" using enters [of x] assms(2,3) by simp
  then have "x = name" using findUser_row [OF a(1)] by simp
  then show ?thesis using a by blast
qed

lemma signup_enters:
  assumes "authSignup C A d sid name pw st = (ans, st')" "x \<in> actors (si_world st')" "x \<notin> actors (si_world st)"
  shows "findUser (si_world st) x = None"
proof (cases "cr_hash C pw")
  case (Inl err)
  then show ?thesis using assms by (auto simp: authSignup_def split: if_splits)
next
  case (Inr hash)
  let ?w = "si_world st"
  obtain rw a w1 where "insertReserved user_entity rw ?w = (a, w1)" "toStr (field rw ''username'') = name"
    "findUser ?w name = None"
    "si_world st' = note_audit d name ''signup'' True [] (signIn (dr_sid d) (wd_heap w1 a) (rotateSession (dr_sid d) sid w1))"
    using assms Inr by (auto simp: authSignup_def Let_def field_def split: if_splits prod.splits)
  moreover have "x = uname w1 a" using calculation actors_insert enters [of x] assms(2,3) by auto
  moreover have "uname w1 a = name" using calculation by (auto simp: insertReserved_def uname_def field_def Let_def)
  ultimately show ?thesis by simp
qed

lemma loginMFA_enters:
  assumes "authLoginMFA C d sid name code st = (ans, st')" "x \<in> actors (si_world st')" "x \<notin> actors (si_world st)"
  shows "x = name \<and> \<not> locked (dr_now d) (si_lock st) x \<and> (\<exists>a. mfa_ok C d sid x code (si_world st) = Some a)"
proof -
  let ?w = "si_world st"
  obtain a where a: "mfa_ok C d sid name code ?w = Some a" "\<not> locked (dr_now d) (si_lock st) name"
    "si_world st' = note_audit d name ''loginMFA'' True [] (signIn (dr_sid d) (wd_heap ?w a) (rotateSession (dr_sid d) sid ?w))"
    using assms by (auto simp: authLoginMFA_def Let_def split: if_splits option.splits)
  then have "x = uname ?w a" using enters [of x] assms(2,3) by simp
  then have "x = name" using mfa_ok_user [OF a(1)] findUser_row by blast
  then show ?thesis using a by blast
qed

lemma others_enter:
  "authLogout d sid st = (ans, st') \<Longrightarrow> x \<in> actors (si_world st') \<Longrightarrow> x \<in> actors (si_world st) \<or> x = ''guest''"
  "authSetRole d sid name role st = (ans, st') \<Longrightarrow> actors (si_world st') = actors (si_world st)"
  "authVerifyEmail C d token st = (ans, st') \<Longrightarrow> actors (si_world st') = actors (si_world st)"
  "authRequestReset C d name st = (ans, st') \<Longrightarrow> actors (si_world st') = actors (si_world st)"
  "authResetPassword C d name token pw st = (ans, st') \<Longrightarrow> actors (si_world st') = actors (si_world st)"
  "authEnableMFA C d sid st = (ans, st') \<Longrightarrow> actors (si_world st') = actors (si_world st)"
  "authConfirmMFA C d sid code st = (ans, st') \<Longrightarrow> actors (si_world st') = actors (si_world st)"
proof -
  show "authLogout d sid st = (ans, st') \<Longrightarrow> x \<in> actors (si_world st') \<Longrightarrow> x \<in> actors (si_world st) \<or> x = ''guest''"
    using actors_edit [of x sid guest_again "si_world st" "''guest''"]
    by (auto simp: authLogout_def Let_def guest_again_def dest!: actors_rotate)
qed (auto simp: authSetRole_def authVerifyEmail_def authRequestReset_def authResetPassword_def authEnableMFA_def
    authConfirmMFA_def Let_def actors_every split: if_splits option.splits sum.splits)

text \<open>
  C3: if an account action leaves a session signed in as somebody no session was signed in as
  before, and that account has a second factor, then the action was \<open>loginMFA\<close> for that account
  from a session whose password step it had passed, the code was valid now, and the account
  was not locked out. Neither a password, a new sign-up nor a reset enters such an account.
\<close>

theorem second_factor_required:
  assumes "runAuth C A d sid act args st = (ans, st')" "(i, s) \<in> set (wd_sessions (si_world st'))"
    "ss_actor s \<notin> actors (si_world st)" "ss_actor s \<noteq> ''guest''"
    "findUser (si_world st) (ss_actor s) = Some a" "truthy (field (wd_heap (si_world st) a) ''mfaEnabled'')"
  shows "act = ''loginMFA'' \<and> argStr args 0 = ss_actor s \<and> \<not> locked (dr_now d) (si_lock st) (ss_actor s)
    \<and> (\<exists>t. alget (wd_sessions (si_world st)) sid = Some t \<and> ss_pending t = ss_actor s)
    \<and> cr_totp C (toStr (field (wd_heap (si_world st) a) ''mfaSecret'')) (argStr args 1) (dr_now d)"
proof -
  let ?x = "ss_actor s"
  have x: "?x \<in> actors (si_world st')" using assms(2) by (force simp: actors_iff)
  have "act = ''loginMFA'' \<and> authLoginMFA C d sid (argStr args 0) (argStr args 1) st = (ans, st')"
    using assms(1,3-6) x
    by (auto simp: runAuth_def split: if_splits dest: login_enters signup_enters others_enter)
  then have l: "act = ''loginMFA''" "authLoginMFA C d sid (argStr args 0) (argStr args 1) st = (ans, st')" by simp_all
  obtain b where b: "?x = argStr args 0" "\<not> locked (dr_now d) (si_lock st) ?x"
    "mfa_ok C d sid ?x (argStr args 1) (si_world st) = Some b"
    using loginMFA_enters [OF l(2) x assms(3)] by blast
  have "b = a" using mfa_ok_user [OF b(3)] assms(5) by simp
  then show ?thesis using l(1) b by (auto simp: mfa_ok_def split: option.splits if_splits)
qed

definition ex_account :: "(string \<times> gval) list \<Rightarrow> sess \<Rightarrow> site" where
  "ex_account u s = ex_empty\<lparr>si_world := (si_world ex_empty)\<lparr>wd_heap := (\<lambda>a. (''username'', GStr ''ada'') # u),
     wd_next := 1, wd_rows := (\<lambda>e. if e = ''FacetUser'' then [0] else []), wd_sessions := [(''s1'', s)]\<rparr>\<rparr>"

definition ex_mfa :: site where
  "ex_mfa = ex_account [(''mfaEnabled'', GBool True), (''mfaSecret'', GStr ''k'')]
     ((newSession ex_app ''guest'' ''guest'')\<lparr>ss_pending := ''ada''\<rparr>)"

theorem second_factor_required_witness:
  "\<exists>ans st' i s. runAuth ex_crypt ex_app ex_draw ''s1'' ''loginMFA'' [GStr ''ada'', GStr ''k''] ex_mfa = (ans, st')
     \<and> (i, s) \<in> set (wd_sessions (si_world st')) \<and> ss_actor s = ''ada'' \<and> cr_totp ex_crypt ''k'' ''k'' (dr_now ex_draw)"
proof -
  obtain ans st' s where r: "runAuth ex_crypt ex_app ex_draw ''s1'' ''loginMFA'' [GStr ''ada'', GStr ''k''] ex_mfa = (ans, st')"
    "(''s2'', s) \<in> set (wd_sessions (si_world st'))" "ss_actor s = ''ada''"
    by (simp add: ex_mfa_def ex_account_def account_steps authLoginMFA_def mfa_ok_def locked_def newLockout_def ex_site aldel_def)
  have "ss_actor s \<notin> actors (si_world ex_mfa)" "findUser (si_world ex_mfa) (ss_actor s) = Some 0"
    "truthy (field (wd_heap (si_world ex_mfa) 0) ''mfaEnabled'')" "field (wd_heap (si_world ex_mfa) 0) ''mfaSecret'' = GStr ''k''"
    by (simp_all add: r(3) ex_mfa_def ex_account_def actors_def account_steps ex_site)
  then show ?thesis using second_factor_required [OF r(1,2)] r by (auto simp: argStr_def)
qed

subsection \<open>Reset tokens\<close>

lemma uname_puts: "uname (put_field a f v w) b = (if b = a \<and> f = ''username'' then toStr v else uname w b)"
  by (simp add: put_field_def uname_def field_def)

text \<open>
  C35: a reset token changes the password of the account it was issued for, before it expires,
  and is spent by it: after a reset that went through, neither that token nor any other resets
  that account until a new one is requested.
\<close>

theorem reset_token_spent:
  assumes "authResetPassword C d name token pw st = (Answered kv, st')"
  shows "\<exists>a hash. findUser (si_world st) name = Some a \<and> cr_hash C pw = Inr hash
    \<and> tokenEqual C token (toStr (field (wd_heap (si_world st) a) ''resetToken''))
    \<and> unix (dr_now d) < sint (toInt (field (wd_heap (si_world st) a) ''resetExpires''))
    \<and> field (wd_heap (si_world st') a) ''password'' = GStr hash
    \<and> (\<forall>d' token' pw'. \<exists>code msg. fst (authResetPassword C d' name token' pw' st') = Refused code msg)"
proof -
  let ?w = "si_world st"
  obtain a hash where a: "cr_hash C pw = Inr hash" "reset_ok C d name token ?w = Some a" "pw \<noteq> []"
    using assms by (auto simp: authResetPassword_def Let_def split: if_splits sum.splits option.splits)
  let ?w' = "put_field a ''resetExpires'' (GInt 0) (put_field a ''resetToken'' (GStr []) (put_field a ''password'' (GStr hash) ?w))"
  have st': "si_world st' = note_audit d name ''resetPassword'' True [] (saveReserved user_entity a ?w')"
    using assms a by (auto simp: authResetPassword_def Let_def)
  have u: "findUser ?w name = Some a" "tokenEqual C token (toStr (field (wd_heap ?w a) ''resetToken''))"
    "unix (dr_now d) < sint (toInt (field (wd_heap ?w a) ''resetExpires''))"
    using a(2) by (auto simp: reset_ok_def Let_def split: option.splits if_splits)
  have "uname ?w' b = uname ?w b" for b by (simp add: uname_puts)
  then have "findUser (si_world st') name = findUser ?w name"
    unfolding findUser_def uname_def [symmetric] by (simp add: st' note_audit_def saveReserved_def put_field_def uname_def field_def)
  then have f: "findUser (si_world st') name = Some a" using u(1) by simp
  have h: "field (wd_heap (si_world st') a) ''resetToken'' = GStr []" "field (wd_heap (si_world st') a) ''password'' = GStr hash"
    by (simp_all add: st' note_audit_def saveReserved_def put_field_def field_def)
  have "reset_ok C d' name token' (si_world st') = None" for d' token'
    using f h(1) by (simp add: reset_ok_def tokenEqual_def Let_def)
  then have "\<exists>code msg. fst (authResetPassword C d' name token' pw' st') = Refused code msg" for d' token' pw'
    by (auto simp: authResetPassword_def Let_def split: sum.split)
  then show ?thesis using u a(1) h(2) by blast
qed

definition ex_reset :: site where
  "ex_reset = ex_account [(''resetToken'', GStr ''token:t1''), (''resetExpires'', GInt 100)] (newSession ex_app ''guest'' ''guest'')"

theorem reset_token_spent_witness:
  "\<exists>kv st'. authResetPassword ex_crypt ex_draw ''ada'' ''t1'' ''new'' ex_reset = (Answered kv, st')
     \<and> (\<exists>code msg. fst (authResetPassword ex_crypt ex_draw ''ada'' ''t1'' ''newer'' st') = Refused code msg)"
proof -
  obtain kv st' where r: "authResetPassword ex_crypt ex_draw ''ada'' ''t1'' ''new'' ex_reset = (Answered kv, st')"
    by (simp add: ex_reset_def ex_account_def authResetPassword_def reset_ok_def tokenEqual_def hashToken_def unix_def account_steps ex_site)
  then show ?thesis using reset_token_spent [OF r] by blast
qed

end
