(* ===== verification/TenantLaws.thy ===== *)
theory TenantLaws
  imports AccountLaws
begin

text \<open>
  The tables the runtime manages itself: a locale says what keeps a property of the working
  set under the runtime's own inserts, edits and removals, and proves every account and
  tenancy action keeps it; a site that lives by visits, actions, accounts and tenancy keeps
  its rows owned; and a membership is only gained by creating the tenant, by accepting an
  invitation to it, or by the hand of one of its managers.
\<close>

subsection \<open>The interface of managed rows\<close>

locale managed_rows =
  fixes I :: "world \<Rightarrow> bool"
  assumes frame: "wd_rows w' = wd_rows w \<Longrightarrow> wd_next w' = wd_next w \<Longrightarrow> I w \<Longrightarrow> I w'"
    and insert: "I w \<Longrightarrow> insertReserved e rw w = (a, w') \<Longrightarrow> I w'"
    and remove: "I w \<Longrightarrow> I (removeReserved n e i w)"
begin

lemma managed_simps [simp]:
  "I (note_audit d x act ok m w) \<longleftrightarrow> I w" "I (saveReserved e a w) \<longleftrightarrow> I w" "I (put_field a f v w) \<longleftrightarrow> I w"
  "I (edit_session sid g w) \<longleftrightarrow> I w" "I (signIn sid u w) \<longleftrightarrow> I w" "I (rotateSession i old w) \<longleftrightarrow> I w"
  "I (every_session n g w) \<longleftrightarrow> I w" "I (enter_tenant sid t w) \<longleftrightarrow> I w"
  by (auto elim!: frame [rotated 2] simp: note_audit_def saveReserved_def put_field_def edit_session_def signIn_def
      rotateSession_def every_session_def enter_tenant_def split: option.splits)

lemma insert_snd [simp]: "I w \<Longrightarrow> I (snd (insertReserved e rw w))"
  by (cases "insertReserved e rw w") (simp add: insert)

lemma runAuth_inv:
  assumes "I (si_world st)" "runAuth C A d sid act args st = (ans, st')"
  shows "I (si_world st')"
  using assms
  by (auto simp: runAuth_def authSignup_def authLogin_def authLoginMFA_def authLogout_def authSetRole_def
      authRequestReset_def authResetPassword_def authVerifyEmail_def authEnableMFA_def authConfirmMFA_def Let_def
      dest: insert split: if_splits sum.splits option.splits prod.splits)

lemma tenant_inv:
  "I (si_world st) \<Longrightarrow> tenantCreate A d sid name st = (ans, st') \<Longrightarrow> I (si_world st')"
  "I (si_world st) \<Longrightarrow> tenantSwitch d sid tid st = (ans, st') \<Longrightarrow> I (si_world st')"
  "I (si_world st) \<Longrightarrow> tenantInvite C d sid email role st = (ans, st') \<Longrightarrow> I (si_world st')"
  "I (si_world st) \<Longrightarrow> tenantAccept C d sid token st = (ans, st') \<Longrightarrow> I (si_world st')"
  "I (si_world st) \<Longrightarrow> tenantSetRole d sid name role st = (ans, st') \<Longrightarrow> I (si_world st')"
  "I (si_world st) \<Longrightarrow> tenantRemoveMember n d sid name st = (ans, st') \<Longrightarrow> I (si_world st')"
  "I (si_world st) \<Longrightarrow> tenantLeave n d sid st = (ans, st') \<Longrightarrow> I (si_world st')"
  by (auto simp: tenantCreate_def tenantSwitch_def tenantInvite_def tenantAccept_def tenantSetRole_def
      tenantRemoveMember_def tenantLeave_def Let_def remove dest: insert split: if_splits option.splits prod.splits)

lemma runTenantAction_inv:
  assumes "I (si_world st)" "runTenantAction n C A d on sid act args st = (ans, st')"
  shows "I (si_world st')"
  using assms by (auto simp: runTenantAction_def split: if_splits intro: tenant_inv)

end

interpretation managed: managed_rows owned
proof unfold_locales
  fix w w' e rw a
  assume o: "owned w" and "insertReserved e rw w = (a, w')"
  then have w': "wd_rows w' = (wd_rows w)(e := wd_rows w e @ [wd_next w])" "wd_next w' = Suc (wd_next w)"
    by (auto simp: insertReserved_def Let_def)
  have new: "wd_next w \<notin> set (wd_rows w x)" for x using o by (auto simp: owned_def)
  have "b < Suc (wd_next w)" if "b \<in> set (wd_rows w x)" for x b using o that by (auto simp: owned_def less_Suc_eq)
  then show "owned w'" using o new by (simp add: owned_def w')
next
  fix w n e i
  assume o: "owned w"
  let ?P = "\<lambda>a. row_id (wd_heap w a) \<noteq> i"
  let ?as = "takeWhile ?P (wd_rows w e) @ tl (dropWhile ?P (wd_rows w e))"
  have "mset ?as \<subseteq># mset (wd_rows w e)" by (simp add: first_out)
  then have "owned (w\<lparr>wd_rows := (wd_rows w)(e := ?as)\<rparr>)" by (rule owned_shrink [OF o]) simp_all
  then show "owned (removeReserved n e i w)" using o by (simp add: removeReserved_def owned_def Let_def)
qed (simp add: owned_def)

subsection \<open>The life of a site\<close>

text \<open>Visits, authoritative runs with their reactions, account actions and tenancy actions, in any order.\<close>

inductive lives :: "crypt \<Rightarrow> app \<Rightarrow> site \<Rightarrow> site \<Rightarrow> bool" for C A where
  start: "lives C A st st"
| visit: "lives C A st s1 \<Longrightarrow>
    lives C A st (s1\<lparr>si_world := (si_world s1)\<lparr>wd_sessions := alput (wd_sessions (si_world s1)) sid (newSession A ''guest'' ''guest'')\<rparr>\<rparr>)"
| action: "lives C A st s1 \<Longrightarrow> runAction n A sid act args (si_world s1) = Some (rp, w) \<Longrightarrow> lives C A st (s1\<lparr>si_world := w\<rparr>)"
| account: "lives C A st s1 \<Longrightarrow> runAuth C A d sid name args s1 = (ans, s2) \<Longrightarrow> lives C A st s2"
| tenant: "lives C A st s1 \<Longrightarrow> runTenantAction n C A d on sid name args s1 = (ans, s2) \<Longrightarrow> lives C A st s2"

text \<open>
  C5: however a site lives, with actions and their reactions, account actions and tenancy
  actions in any order, each of its collections lists a row once, no two share one, and none
  lists a row that was never made.
\<close>

theorem site_rows_owned: "lives C A st st' \<Longrightarrow> owned (si_world st) \<Longrightarrow> owned (si_world st')"
proof (induction rule: lives.induct)
  case (visit st s1 sid)
  then show ?case by (simp add: owned_def)
next
  case (action st s1 n sid act args rp w)
  then show ?case using runAction_owned by simp
next
  case (account st s1 d sid name args ans s2)
  then show ?case using managed.runAuth_inv by blast
next
  case (tenant st s1 n d on sid name args ans s2)
  then show ?case using managed.runTenantAction_inv by blast
qed

theorem site_rows_owned_witness: "owned (si_world ex_joined)"
proof -
  have "lives ex_crypt ex_app ex_empty ex_visited"
    unfolding ex_visited_def by (rule lives.visit [OF lives.start])
  then have "lives ex_crypt ex_app ex_empty ex_joined"
    unfolding ex_joined_def by (rule lives.account) (rule surjective_pairing)
  moreover have "owned (si_world ex_empty)" by (simp add: owned_def ex_empty_def ex_world_def)
  ultimately show ?thesis by (rule site_rows_owned)
qed

subsection \<open>Memberships\<close>

definition membership :: "world \<Rightarrow> addr \<Rightarrow> i64 \<times> string \<times> string" where
  "membership w a = (toInt (field (wd_heap w a) ''tenant''), toStr (field (wd_heap w a) ''username''),
     toStr (field (wd_heap w a) ''role''))"

definition memberships :: "world \<Rightarrow> (i64 \<times> string \<times> string) set" where
  "memberships w = membership w ` set (wd_rows w membership_entity)"

lemma memberships_frame [simp]:
  "memberships (note_audit d x act ok m w) = memberships w" "memberships (saveReserved e a w) = memberships w"
  "memberships (edit_session sid g w) = memberships w" "memberships (enter_tenant sid t w) = memberships w"
  by (simp_all add: memberships_def membership_def [abs_def] note_audit_def saveReserved_def edit_session_def
      enter_tenant_def split: option.split)

lemma memberships_insert:
  assumes "owned w" "insertReserved e rw w = (a, w')"
  shows "memberships w' = (if e = membership_entity then insert (toInt (field rw ''tenant''), toStr (field rw ''username''),
     toStr (field rw ''role'')) (memberships w) else memberships w)"
proof -
  have n: "wd_next w \<notin> set (wd_rows w x)" for x using assms(1) by (auto simp: owned_def)
  have w': "wd_heap w' = (wd_heap w)(wd_next w := alput rw ''id'' (GInt (wd_ids w e + 1)))"
    "wd_rows w' = (wd_rows w)(e := wd_rows w e @ [wd_next w])"
    using assms(2) by (auto simp: insertReserved_def Let_def)
  have old: "membership w' ` set (wd_rows w membership_entity) = memberships w"
    unfolding memberships_def by (rule image_cong) (use n in \<open>auto simp: membership_def w'\<close>)
  have "membership w' (wd_next w) = (toInt (field rw ''tenant''), toStr (field rw ''username''), toStr (field rw ''role''))"
    by (simp add: membership_def w' field_def)
  then show ?thesis using old by (simp add: memberships_def [of w'] w'(2))
qed

lemma memberships_put:
  assumes "owned w" "a \<in> set (wd_rows w e)" "e \<noteq> membership_entity"
  shows "memberships (put_field a f v w) = memberships w"
proof -
  have "a \<notin> set (wd_rows w membership_entity)" using assms unfolding owned_def by blast
  then show ?thesis
    unfolding memberships_def by (intro image_cong) (auto simp: put_field_def membership_def)
qed

lemma memberships_role:
  assumes "x \<in> memberships (put_field a ''role'' (GStr role) w)" "x \<notin> memberships w"
  shows "a \<in> set (wd_rows w membership_entity) \<and> x = (toInt (field (wd_heap w a) ''tenant''), toStr (field (wd_heap w a) ''username''), role)"
  using assms by (auto simp: memberships_def put_field_def membership_def field_def image_iff split: if_splits)

lemma memberships_remove: "memberships (removeReserved n e i w) \<subseteq> memberships w"
proof -
  have "set (takeWhile P xs @ tl (dropWhile P xs)) \<subseteq> set xs" for P and xs :: "addr list"
    using first_out [of P xs] by (metis mset_append set_mset_mono set_mset_mset)
  then have "set (wd_rows (removeReserved n e i w) membership_entity) \<subseteq> set (wd_rows w membership_entity)"
    by (simp add: removeReserved_def Let_def)
  moreover have "membership (removeReserved n e i w) = membership w"
    by (simp add: fun_eq_iff membership_def removeReserved_def Let_def)
  ultimately show ?thesis by (simp add: memberships_def image_mono)
qed

lemma acting_manager_row:
  assumes "acting_manager w sid = Some tid"
  shows "tid = activeTenant (alget (wd_sessions w) sid) \<and> (\<exists>r. tenantManager r \<and> (tid, actorOf w sid, r) \<in> memberships w)"
proof -
  let ?P = "\<lambda>m. toInt (field m ''tenant'') = tid \<and> toStr (field m ''username'') = actorOf w sid"
  have t: "tid = activeTenant (alget (wd_sessions w) sid)" "tenantManager (tenantRoleFor w (actorOf w sid) tid)"
    using assms by (auto simp: acting_manager_def Let_def split: if_splits)
  then obtain m where "find ?P (rows_now w ''FacetMembership'') = Some m" "tenantManager (toStr (field m ''role''))"
    by (auto simp: tenantRoleFor_def tenantManager_def split: if_splits option.splits)
  moreover have "m \<in> set (rows_now w ''FacetMembership'') \<and> ?P m" using calculation(1) by (auto simp: find_Some_iff)
  ultimately obtain a where a: "a \<in> set (wd_rows w membership_entity)" "m = wd_heap w a" "tenantManager (toStr (field m ''role''))" "?P m"
    by (auto simp: rows_now_def membership_entity_def)
  have "membership w a = (tid, actorOf w sid, toStr (field m ''role''))" using a by (simp add: membership_def)
  moreover have "membership w a \<in> memberships w" unfolding memberships_def using a(1) by (rule imageI)
  ultimately show ?thesis using t(1) a(3) by metis
qed

lemma create_gains:
  assumes "tenantCreate A d sid name st = (ans, st')" "owned (si_world st)"
    "(t, u, r) \<in> memberships (si_world st')" "(t, u, r) \<notin> memberships (si_world st)"
  shows "u = actorOf (si_world st) sid \<and> r = ''owner'' \<and> u \<noteq> ''guest''"
proof -
  let ?w = "si_world st" and ?u = "actorOf (si_world st) sid"
  define rw where "rw = [(''name'', GStr (trim_space name)), (''slug'', GStr (slugify A (trim_space name))), (''owner'', GStr ?u),
    (''created'', GInt (word_of_int (unix (dr_now d))))]"
  obtain a w1 where i0: "insertReserved ''FacetTenant'' rw ?w = (a, w1)" by fastforce
  have g: "?u \<noteq> ''guest''" "?u \<noteq> []" "trim_space name \<noteq> []" using assms by (auto simp: tenantCreate_def Let_def split: if_splits)
  have i: "insertReserved ''FacetTenant'' rw ?w = (a, w1)" "?u \<noteq> ''guest''"
    "si_world st' = note_audit d ?u ''createTenant'' True (trim_space name) (enter_tenant sid (row_id (wd_heap w1 a))
      (snd (insertReserved membership_entity
                [(''tenant'', GInt (row_id (wd_heap w1 a))), (''username'', GStr ?u), (''role'', GStr ''owner''),
                 (''created'', GInt (word_of_int (unix (dr_now d))))] w1)))"
    using assms(1) g i0 by (simp_all add: tenantCreate_def Let_def rw_def [symmetric]) auto
  obtain a2 w2 where j: "insertReserved membership_entity
                [(''tenant'', GInt (row_id (wd_heap w1 a))), (''username'', GStr ?u), (''role'', GStr ''owner''),
                 (''created'', GInt (word_of_int (unix (dr_now d))))] w1 = (a2, w2)" by fastforce
  have "owned w1" by (rule managed.insert [OF assms(2) i(1)])
  then have "memberships w2 = insert (row_id (wd_heap w1 a), ?u, ''owner'') (memberships w1)" "memberships w1 = memberships ?w"
    using memberships_insert [OF assms(2) i(1)] memberships_insert [OF _ j] by (simp_all add: field_def membership_entity_def)
  moreover have "memberships (si_world st') = memberships w2" by (simp add: i(3) j)
  ultimately show ?thesis using assms(3,4) i(2) by auto
qed

lemma accept_gains:
  assumes "tenantAccept C d sid token st = (ans, st')" "owned (si_world st)"
    "(t, u, r) \<in> memberships (si_world st')" "(t, u, r) \<notin> memberships (si_world st)"
  shows "u = actorOf (si_world st) sid \<and> u \<noteq> ''guest''
    \<and> (\<exists>a. open_invite C d token (si_world st) = Some a
        \<and> toInt (field (wd_heap (si_world st) a) ''tenant'') = t \<and> toStr (field (wd_heap (si_world st) a) ''role'') = r)"
proof -
  let ?w = "si_world st" and ?u = "actorOf (si_world st) sid"
  obtain a where a: "open_invite C d token ?w = Some a" "?u \<noteq> ''guest''"
    using assms by (auto simp: tenantAccept_def Let_def split: if_splits option.splits)
  define inv where "inv = wd_heap ?w a"
  define rw where "rw = [(''tenant'', GInt (toInt (field inv ''tenant''))), (''username'', GStr ?u),
                  (''role'', GStr (toStr (field inv ''role''))), (''created'', GInt (word_of_int (unix (dr_now d))))]"
  define w1 where "w1 = (if membershipOf ?w ?u (toInt (field inv ''tenant'')) = None
       then snd (insertReserved membership_entity rw ?w) else ?w)"
  have st': "memberships (si_world st') = memberships (put_field a ''accepted'' (GBool True) w1)"
    using assms(1,3,4) a by (auto simp: tenantAccept_def Let_def inv_def [symmetric] rw_def [symmetric] w1_def split: if_splits)
  obtain a2 w2 where j: "insertReserved membership_entity rw ?w = (a2, w2)" by fastforce
  have "a \<in> set (wd_rows ?w ''FacetInvite'')" using a(1) by (auto simp: open_invite_def find_Some_iff)
  then have "a \<in> set (wd_rows w1 ''FacetInvite'')" "owned w1"
    using j managed.insert [OF assms(2) j] assms(2) by (auto simp: w1_def insertReserved_def Let_def membership_entity_def)
  then have "memberships (si_world st') = memberships w1"
    unfolding st' using memberships_put [of w1 a "''FacetInvite''"] by (simp add: membership_entity_def)
  moreover have "toInt (field rw ''tenant'') = toInt (field inv ''tenant'')" "toStr (field rw ''username'') = ?u"
    "toStr (field rw ''role'') = toStr (field inv ''role'')" by (simp_all add: rw_def field_def)
  ultimately have "(t, u, r) = (toInt (field inv ''tenant''), ?u, toStr (field inv ''role''))"
    using assms(3,4) j memberships_insert [OF assms(2) j] by (auto simp: w1_def split: if_splits)
  then show ?thesis using a by (simp add: inv_def)
qed

lemma setRole_gains:
  assumes "tenantSetRole d sid name role st = (ans, st')"
    "(t, u, r) \<in> memberships (si_world st')" "(t, u, r) \<notin> memberships (si_world st)"
  shows "acting_manager (si_world st) sid = Some t"
proof -
  obtain tid a where a: "acting_manager (si_world st) sid = Some tid" "membershipOf (si_world st) name tid = Some a"
    "(t, u, r) \<in> memberships (put_field a ''role'' (GStr role) (si_world st))"
    using assms by (auto simp: tenantSetRole_def Let_def split: if_splits option.splits)
  then show ?thesis
    using memberships_role [OF a(3) assms(3)] by (auto simp: membershipOf_def find_Some_iff)
qed

lemma others_gain:
  "tenantSwitch d sid tid st = (ans, st') \<Longrightarrow> memberships (si_world st') = memberships (si_world st)"
  "tenantInvite C d sid email role st = (ans, st') \<Longrightarrow> owned (si_world st) \<Longrightarrow> memberships (si_world st') = memberships (si_world st)"
  "tenantRemoveMember n d sid name st = (ans, st') \<Longrightarrow> memberships (si_world st') \<subseteq> memberships (si_world st)"
  "tenantLeave n d sid st = (ans, st') \<Longrightarrow> memberships (si_world st') \<subseteq> memberships (si_world st)"
proof -
  have "memberships (snd (insertReserved ''FacetInvite'' rw w)) = memberships w" if "owned w" for rw w
    using memberships_insert [OF that] by (cases "insertReserved ''FacetInvite'' rw w") (simp add: membership_entity_def)
  then show "tenantInvite C d sid email role st = (ans, st') \<Longrightarrow> owned (si_world st) \<Longrightarrow> memberships (si_world st') = memberships (si_world st)"
    by (auto simp: tenantInvite_def Let_def split: if_splits option.splits)
qed (auto simp: tenantSwitch_def tenantRemoveMember_def tenantLeave_def Let_def
    dest: subsetD [OF memberships_remove] split: if_splits option.splits)


lemmas tenant_steps = runTenantAction_def tenantCreate_def tenantSetRole_def tenantRemoveMember_def acting_manager_def
  tenantRoleFor_def tenantManager_def membershipOf_def actorOf_def activeTenant_def enter_tenant_def rows_now_def
  removeReserved_def membership_entity_def row_id_def

definition ex_found :: "answer \<times> site" where
  "ex_found = runTenantAction 3 ex_crypt ex_app ex_draw True ''s2'' ''createTenant'' [GStr ''acme''] ex_joined"

lemma ex_joined_rows: "owned (si_world ex_joined)" "memberships (si_world ex_joined) = {}" "actorOf (si_world ex_joined) ''s2'' = ''ada''"
  "wd_ids (si_world ex_joined) ''FacetTenant'' = 0"
proof -
  have "owned (si_world ex_visited)" by (simp add: ex_visited_def ex_empty_def ex_world_def owned_def)
  then show "owned (si_world ex_joined)"
    by (rule managed.runAuth_inv) (simp add: ex_joined_def prod_eq_iff)
  show "memberships (si_world ex_joined) = {}" "actorOf (si_world ex_joined) ''s2'' = ''ada''"
    "wd_ids (si_world ex_joined) ''FacetTenant'' = 0"
    by (simp_all add: memberships_def membership_entity_def actorOf_def ex_joined_def ex_visited_def account_steps ex_site aldel_def)
qed

lemma ex_found_member: "(1, ''ada'', ''owner'') \<in> memberships (si_world (snd ex_found))"
proof -
  have t: "trim_space ''acme'' = ''acme''" by (rule trim_space_ascii_id) (simp_all add: is_space_def is_ascii_def)
  show ?thesis
  using ex_joined_rows(3,4)
  by (simp add: ex_found_def runTenantAction_def tenantCreate_def t argStr_def Let_def split: prod.split)
    (simp add: memberships_def membership_def membership_entity_def insertReserved_def row_id_def field_def Let_def)
qed


subsection \<open>Where identity leaks\<close>

definition ex_team :: site where
  "ex_team = \<lparr>si_world = ex_world\<lparr>wd_heap := (\<lambda>a. if a = 0 then [(''id'', GInt 1), (''tenant'', GInt 1), (''username'', GStr ''ada''), (''role'', GStr ''owner'')]
        else [(''id'', GInt 2), (''tenant'', GInt 1), (''username'', GStr ''bob''), (''role'', GStr ''admin'')]),
      wd_next := 2, wd_rows := (\<lambda>e. if e = ''FacetMembership'' then [0, 1] else []),
      wd_sessions := [(''a'', (newSession ex_app ''ada'' ''member'')\<lparr>ss_state := [(''__tenant'', GInt 1)]\<rparr>),
                      (''b'', (newSession ex_app ''bob'' ''member'')\<lparr>ss_state := [(''__tenant'', GInt 1)]\<rparr>)]\<rparr>, si_lock = newLockout\<rparr>"

text \<open>
  An admin of a tenant may make himself its owner and the owner a member, and then remove him:
  the refusals that protect the owner only read the role. And the removed member's session goes
  on naming the tenant it was in, so a policy that reads \<open>tenant\<close> alone still lets it in.
\<close>

theorem admin_unseats_owner:
  "let st1 = snd (runTenantAction 3 ex_crypt ex_app ex_draw True ''b'' ''setMemberRole'' [GStr ''bob'', GStr ''owner''] ex_team);
       st2 = snd (runTenantAction 3 ex_crypt ex_app ex_draw True ''b'' ''setMemberRole'' [GStr ''ada'', GStr ''member''] st1);
       st3 = snd (runTenantAction 3 ex_crypt ex_app ex_draw True ''b'' ''removeMember'' [GStr ''ada''] st2)
   in memberships (si_world st3) = {(1, ''bob'', ''owner'')}
      \<and> field (scope_of ex_app (si_world st3) (alget (wd_sessions (si_world st3)) ''a'')) ''tenant'' = GInt 1"
  apply (simp add: ex_team_def tenant_steps account_steps ex_site Let_def)
  apply (simp add: memberships_def membership_def scope_of_def tenant_steps ex_schema_simps Let_def)
  done

text \<open>Nothing reserves the name guest: whoever signs up under it and confirms the address verifies every visitor.\<close>

theorem guest_signup_verifies_everyone:
  "let st0 = ex_visited\<lparr>si_world := (si_world ex_visited)\<lparr>wd_sessions := alput (wd_sessions (si_world ex_visited)) ''s9'' (newSession ex_app ''guest'' ''guest'')\<rparr>\<rparr>;
       st1 = snd (runAuth ex_crypt ex_app ex_draw ''s1'' ''signup'' [GStr ''guest'', GStr ''pw''] st0);
       st2 = snd (runAuth ex_crypt ex_app ex_draw ''s2'' ''verifyEmail'' [GStr ''t1''] st1)
   in \<exists>s. alget (wd_sessions (si_world st2)) ''s9'' = Some s \<and> ss_actor s = ''guest'' \<and> ss_verified s"
  by (simp add: ex_visited_def account_steps ex_site aldel_def tokenEqual_def hashToken_def)

text \<open>
  Logging out keeps the session's cells: the active tenant with them, and the role cell a
  \<open>restate\<close> left there, which every later scope reads in place of the session's own role.
\<close>

theorem logout_keeps_state:
  assumes "alget (wd_sessions (si_world st)) sid = Some s" 
  shows "alget (wd_sessions (si_world (snd (authLogout d sid st)))) (dr_sid d) = Some (guest_again s)
    \<and> activeTenant (Some (guest_again s)) = activeTenant (Some s)"
  using assms by (simp add: authLogout_def edit_session_def rotateSession_def note_audit_def activeTenant_def guest_again_def Let_def)

theorem restated_role_outlives_logout:
  "field (scope_of ex_app ex_world (Some (guest_again (restate_session ''admin'' (newSession ex_app ''ada'' ''member''))))) ''role''
     = GStr ''admin''"
  by (simp add: scope_of_def guest_again_def restate_session_def newSession_def ex_app_def ex_world_def ex_schema_simps activeTenant_def tenantRoleFor_def has_prefix_def Let_def)

end
