(* ===== verification/Subst.thy ===== *)
theory Subst
  imports Eval
begin

text \<open>
  Expanding a call of a parameterized derive (internal/ir/build.go: \<open>irNames\<close>, \<open>cloneExpr\<close>,
  \<open>substParams\<close>, \<open>expandDerive\<close>), and what makes it right: an expression's value depends on
  the names it reads alone, and the expanded body, evaluated where the call stands, has the
  value of the body with its parameters bound to the values of the arguments.
\<close>

subsection \<open>Names\<close>

text \<open>Every name an expression refs or binds; a collection's name is not one of them.\<close>

fun irNames :: "expr \<Rightarrow> string list" where
  "irNames (IRef n) = [n]"
| "irNames (IAgg a) =
     (if ag_var a = [] then [] else [ag_var a])
     @ (case ag_where a of Some e \<Rightarrow> irNames e | None \<Rightarrow> [])
     @ (case ag_sel a of Some e \<Rightarrow> irNames e | None \<Rightarrow> [])
     @ (case ag_limit a of Some e \<Rightarrow> irNames e | None \<Rightarrow> [])
     @ (case ag_order_by a of Some e \<Rightarrow> irNames e | None \<Rightarrow> [])"
| "irNames (IGet ob f) = irNames ob"
| "irNames (IEGet n k f) = irNames k"
| "irNames (IIndex ob k) = irNames ob @ irNames k"
| "irNames (IMap ks vs) = concat (map irNames ks) @ concat (map irNames vs)"
| "irNames (IStruct n fs vs om nu) = concat (map irNames vs)"
| "irNames (IList es) = concat (map irNames es)"
| "irNames (ICall n es) = concat (map irNames es)"
| "irNames (IUn op x) = irNames x"
| "irNames (IBin op l r) = irNames l @ irNames r"
| "irNames _ = []"

text \<open>The collections it reads: those an aggregate walks and an entity lookup searches.\<close>

fun colls :: "expr \<Rightarrow> string list" where
  "colls (IAgg a) = ag_name a
     # (case ag_where a of Some e \<Rightarrow> colls e | None \<Rightarrow> [])
     @ (case ag_sel a of Some e \<Rightarrow> colls e | None \<Rightarrow> [])
     @ (case ag_limit a of Some e \<Rightarrow> colls e | None \<Rightarrow> [])
     @ (case ag_order_by a of Some e \<Rightarrow> colls e | None \<Rightarrow> [])"
| "colls (IGet ob f) = colls ob"
| "colls (IEGet n k f) = n # colls k"
| "colls (IIndex ob k) = colls ob @ colls k"
| "colls (IMap ks vs) = concat (map colls ks) @ concat (map colls vs)"
| "colls (IStruct n fs vs om nu) = concat (map colls vs)"
| "colls (IList es) = concat (map colls es)"
| "colls (ICall n es) = concat (map colls es)"
| "colls (IUn op x) = colls x"
| "colls (IBin op l r) = colls l @ colls r"
| "colls _ = []"

definition reads :: "expr \<Rightarrow> string set" where
  "reads e = set (irNames e) \<union> set (colls e)"

subsection \<open>An expression's value depends on the names it reads\<close>

lemma pinned_reads:
  "pinnedEquality w v = Some (f, pe, b) \<Longrightarrow> reads pe \<subseteq> reads w"
proof (induction w v rule: pinnedEquality.induct)
  case (1 op l r v)
  then show ?case
    by (auto simp: pinned_eq_def pinned_in_def reads_def split: if_splits option.splits)
qed simp_all

lemma size_in_list: "x \<in> set xs \<Longrightarrow> size (x :: expr) < Suc (size_list size xs)"
  by (induction xs) auto

lemma agree_put:
  "\<forall>n \<in> N. field sc n = field sc' n \<Longrightarrow> \<forall>n \<in> N. field (alput sc v r) n = field (alput sc' v r) n"
  by (simp add: field_def)

lemma eval_cong_reads:
  "\<forall>n \<in> reads e. field sc n = field sc' n \<Longrightarrow> eval C sc e = eval C sc' e"
proof (induction e arbitrary: sc sc' rule: measure_induct_rule [where f = size])
  case (less e)
  have sub: "eval C sc x = eval C sc' x" if "size x < size e" "reads x \<subseteq> reads e" for x
    using less.IH [OF that(1)] less.prems that(2) by blast
  have subs: "map (eval C sc) xs = map (eval C sc') xs" if "\<forall>x \<in> set xs. size x < size e \<and> reads x \<subseteq> reads e" for xs
    using that sub by simp
  show ?case
  proof (cases e)
    case (IAgg a)
    have n: "field sc (ag_name a) = field sc' (ag_name a)" using less.prems IAgg by (simp add: reads_def)
    have opt: "size x < size e \<and> reads x \<subseteq> reads e"
      if "ag_where a = Some x \<or> ag_sel a = Some x \<or> ag_limit a = Some x \<or> ag_order_by a = Some x" for x
      using that size_agg_opt [of a x] IAgg by (auto simp: reads_def)
    have item: "eval C (alput sc v r) x = eval C (alput sc' v r) x"
      if "ag_where a = Some x \<or> ag_sel a = Some x \<or> ag_limit a = Some x \<or> ag_order_by a = Some x" for x v r
      using less.IH [of x "alput sc v r" "alput sc' v r"] opt [OF that] agree_put less.prems by blast
    have lim: "map_option (\<lambda>x. toInt (eval C sc x)) (ag_limit a) = map_option (\<lambda>x. toInt (eval C sc' x)) (ag_limit a)"
      using sub opt by (cases "ag_limit a") auto
    have w: "map_option (\<lambda>x r. truthy (eval C (alput sc (ag_var a) r) x)) (ag_where a)
        = map_option (\<lambda>x r. truthy (eval C (alput sc' (ag_var a) r) x)) (ag_where a)"
      using item by (cases "ag_where a") auto
    have s: "map_option (\<lambda>x r. eval C (alput sc (ag_var a) r) x) (ag_sel a)
        = map_option (\<lambda>x r. eval C (alput sc' (ag_var a) r) x) (ag_sel a)"
      using item by (cases "ag_sel a") auto
    have k: "map_option (\<lambda>x r. eval C (alput sc (ag_var a) r) x) (ag_order_by a)
        = map_option (\<lambda>x r. eval C (alput sc' (ag_var a) r) x) (ag_order_by a)"
      using item by (cases "ag_order_by a") auto
    have p: "probe_of C sc a = probe_of C sc' a"
    proof (cases "ag_where a")
      case (Some x)
      have "eval C sc pe = eval C sc' pe" if "pinnedEquality x (ag_var a) = Some (f, pe, b)" for f pe b
        using that sub [of pe] opt [of x] Some pinned_size [OF that] pinned_reads [OF that] by fastforce
      then show ?thesis by (auto simp: probe_of_def Some split: option.split)
    qed (simp add: probe_of_def)
    show ?thesis using n lim w s k p by (simp add: IAgg probe_of_def)
  next
    case (IMap ks vs)
    then show ?thesis by simp
  next
    case (IStruct n fs vs om nu)
    have "map (eval C sc) vs = map (eval C sc') vs"
      by (rule subs) (use IStruct in \<open>auto simp: reads_def dest: size_in_list\<close>)
    then show ?thesis by (simp only: IStruct eval.simps)
  next
    case (ICall n es)
    have "map (eval C sc) es = map (eval C sc') es"
      by (rule subs) (use ICall in \<open>auto simp: reads_def dest: size_in_list\<close>)
    then show ?thesis by (simp only: ICall eval.simps)
  next
    case (IList es)
    have "map (eval C sc) es = map (eval C sc') es"
      by (rule subs) (use IList in \<open>auto simp: reads_def dest: size_in_list\<close>)
    then show ?thesis by (simp only: IList eval.simps)
  next
    case (IEGet n k f)
    have "eval C sc k = eval C sc' k" by (rule sub) (use IEGet in \<open>auto simp: reads_def\<close>)
    moreover have "field sc n = field sc' n" using IEGet less.prems by (simp add: reads_def)
    ultimately show ?thesis by (simp only: IEGet eval.simps)
  next
    case (IGet ob f)
    have "eval C sc ob = eval C sc' ob" by (rule sub) (use IGet in \<open>auto simp: reads_def\<close>)
    then show ?thesis by (simp only: IGet eval.simps)
  next
    case (IIndex ob k)
    have "eval C sc ob = eval C sc' ob" by (rule sub) (use IIndex in \<open>auto simp: reads_def\<close>)
    moreover
    have "eval C sc k = eval C sc' k" by (rule sub) (use IIndex in \<open>auto simp: reads_def\<close>)
    ultimately show ?thesis by (simp only: IIndex eval.simps)
  next
    case (IUn op x)
    have "eval C sc x = eval C sc' x" by (rule sub) (use IUn in \<open>auto simp: reads_def\<close>)
    then show ?thesis by (simp only: IUn eval.simps)
  next
    case (IBin op l r)
    have "eval C sc l = eval C sc' l" by (rule sub) (use IBin in \<open>auto simp: reads_def\<close>)
    moreover
    have "eval C sc r = eval C sc' r" by (rule sub) (use IBin in \<open>auto simp: reads_def\<close>)
    ultimately show ?thesis by (simp only: IBin eval.simps)
  qed (use less.prems in \<open>simp_all add: reads_def\<close>)
qed

subsection \<open>Substitution\<close>

text \<open>
  The names in use are threaded through the traversal, in the order the code walks it, for
  every renamed item variable takes one.
\<close>

definition thread_opt :: "('t \<Rightarrow> 'e \<Rightarrow> 'e \<times> 't) \<Rightarrow> 't \<Rightarrow> 'e option \<Rightarrow> 'e option \<times> 't" where
  "thread_opt f t x = (case x of None \<Rightarrow> (None, t) | Some e \<Rightarrow> (case f t e of (e', t') \<Rightarrow> (Some e', t')))"

fun thread_list :: "('t \<Rightarrow> 'e \<Rightarrow> 'e \<times> 't) \<Rightarrow> 't \<Rightarrow> 'e list \<Rightarrow> 'e list \<times> 't" where
  "thread_list f t [] = ([], t)"
| "thread_list f t (e # es) =
     (case f t e of (e', t1) \<Rightarrow> (case thread_list f t1 es of (es', t2) \<Rightarrow> (e' # es', t2)))"

lemma thread_opt_cong [fundef_cong]:
  "x = y \<Longrightarrow> t = u \<Longrightarrow> (\<And>e t. y = Some e \<Longrightarrow> f t e = g t e) \<Longrightarrow> thread_opt f t x = thread_opt g u y"
  by (simp add: thread_opt_def split: option.split)

lemma thread_list_cong [fundef_cong]:
  "xs = ys \<Longrightarrow> t = u \<Longrightarrow> (\<And>e t. e \<in> set ys \<Longrightarrow> f t e = g t e) \<Longrightarrow> thread_list f t xs = thread_list g u ys"
  by (induction ys arbitrary: xs t u) (auto split: prod.split)

text \<open>The first name of \<open>v\<close>, \<open>v2\<close>, \<open>v3\<close>, ... nobody has.\<close>

definition fresh_names :: "nat \<Rightarrow> string \<Rightarrow> string list" where
  "fresh_names n v = v # map (\<lambda>i. v @ show_nat i) [2..<n + 3]"

definition fresh_name :: "string list \<Rightarrow> string \<Rightarrow> string" where
  "fresh_name taken v = hd (filter (\<lambda>n. n \<notin> set taken) (fresh_names (length taken) v))"

definition row_field_of :: "expr \<Rightarrow> string \<Rightarrow> expr" where
  "row_field_of ob f = (case ob of IEGet n k g \<Rightarrow> if g = [] then IEGet n k f else IGet ob f | _ \<Rightarrow> IGet ob f)"

type_synonym binding = "(string \<times> expr) list"

text \<open>
  Under an aggregate its item variable shadows a parameter of its name; one that shares a
  name with the arguments is renamed, and its references with it.
\<close>

definition renames :: "string list \<Rightarrow> string \<Rightarrow> bool" where
  "renames A v \<longleftrightarrow> v \<noteq> [] \<and> v \<in> set A"

definition inner_var :: "string list \<Rightarrow> string list \<Rightarrow> string \<Rightarrow> string" where
  "inner_var A t v = (if renames A v then fresh_name t v else v)"

definition inner_taken :: "string list \<Rightarrow> string list \<Rightarrow> string \<Rightarrow> string list" where
  "inner_taken A t v = (if renames A v then inner_var A t v # t else t)"

definition inner_bind :: "binding \<Rightarrow> string list \<Rightarrow> string list \<Rightarrow> string \<Rightarrow> binding" where
  "inner_bind b A t v =
     (if v = [] then b else if renames A v then alput (aldel b v) v (IRef (inner_var A t v)) else aldel b v)"

fun substParams :: "binding \<Rightarrow> string list \<Rightarrow> string list \<Rightarrow> expr \<Rightarrow> expr \<times> string list" where
  "substParams b A t (IRef n) = (case alget b n of Some a \<Rightarrow> (a, t) | None \<Rightarrow> (IRef n, t))"
| "substParams b A t (IGet ob f) = (case substParams b A t ob of (ob', t') \<Rightarrow> (row_field_of ob' f, t'))"
| "substParams b A t (IAgg a) =
     (case thread_opt (substParams b A) t (ag_limit a) of
        (lim, t1) \<Rightarrow>
          let v = ag_var a; inner = inner_bind b A t1 v in
          case thread_opt (substParams inner A) (inner_taken A t1 v) (ag_where a) of
            (wh, t2) \<Rightarrow> (case thread_opt (substParams inner A) t2 (ag_sel a) of
              (sl, t3) \<Rightarrow> (case thread_opt (substParams inner A) t3 (ag_order_by a) of
                (ob, t4) \<Rightarrow>
                  (IAgg (Agg (ag_op a) (ag_name a) (ag_field a) (ag_vtype a) (inner_var A t1 v) wh sl
                    (ag_order a) (ag_desc a) lim ob), t4))))"
| "substParams b A t (IEGet n k f) = (case substParams b A t k of (k', t') \<Rightarrow> (IEGet n k' f, t'))"
| "substParams b A t (IIndex ob k) =
     (case substParams b A t ob of (ob', t1) \<Rightarrow> (case substParams b A t1 k of (k', t2) \<Rightarrow> (IIndex ob' k', t2)))"
| "substParams b A t (IMap ks vs) =
     (case thread_list (substParams b A) t vs of
        (vs', t1) \<Rightarrow> (case thread_list (substParams b A) t1 ks of (ks', t2) \<Rightarrow> (IMap ks' vs', t2)))"
| "substParams b A t (IStruct n fs vs om nu) =
     (case thread_list (substParams b A) t vs of (vs', t') \<Rightarrow> (IStruct n fs vs' om nu, t'))"
| "substParams b A t (IList es) = (case thread_list (substParams b A) t es of (es', t') \<Rightarrow> (IList es', t'))"
| "substParams b A t (ICall n es) = (case thread_list (substParams b A) t es of (es', t') \<Rightarrow> (ICall n es', t'))"
| "substParams b A t (IUn op x) = (case substParams b A t x of (x', t') \<Rightarrow> (IUn op x', t'))"
| "substParams b A t (IBin op l r) =
     (case substParams b A t l of (l', t1) \<Rightarrow> (case substParams b A t1 r of (r', t2) \<Rightarrow> (IBin op l' r', t2)))"
| "substParams b A t x = (x, t)"

text \<open>One call: the parameters' names, the lowered body, the lowered arguments.\<close>

definition expandDerive :: "string list \<Rightarrow> expr \<Rightarrow> expr list \<Rightarrow> expr" where
  "expandDerive ps body args =
     (let b = fold (\<lambda>(p, a) b. alput b p a) (zip ps args) [];
          A = concat (map irNames (take (length ps) args))
      in fst (substParams b A (A @ irNames body) body))"

subsection \<open>Fresh names and threading\<close>

lemma fresh_names_distinct: "distinct (fresh_names n v)"
  using show_nat_inj by (auto simp: fresh_names_def distinct_map inj_on_def)

lemma fresh_name_spec:
  "fresh_name t v \<notin> set t \<and> (fresh_name t v = v \<or> (\<exists>i. fresh_name t v = v @ show_nat i))"
proof -
  let ?xs = "fresh_names (length t) v"
  let ?ys = "filter (\<lambda>n. n \<notin> set t) ?xs"
  have "card (set ?xs) = length t + 2"
    using fresh_names_distinct [THEN distinct_card, of "length t" v] by (simp add: fresh_names_def)
  then have "\<not> set ?xs \<subseteq> set t" using card_mono [of "set t" "set ?xs"] card_length [of t] by fastforce
  then have "?ys \<noteq> []" by (auto simp: filter_empty_conv)
  then have "hd ?ys \<in> set ?ys" by (rule hd_in_set)
  then have "fresh_name t v \<notin> set t \<and> fresh_name t v \<in> set ?xs" by (simp add: fresh_name_def)
  then show ?thesis by (auto simp: fresh_names_def)
qed

lemma thread_opt_grows:
  "(\<And>e t. x = Some e \<Longrightarrow> set t \<subseteq> set (snd (f t e))) \<Longrightarrow> set t \<subseteq> set (snd (thread_opt f t x))"
  by (auto simp: thread_opt_def split: option.split prod.split) (metis snd_conv subsetD)

lemma thread_list_grows:
  "(\<And>e t. e \<in> set es \<Longrightarrow> set t \<subseteq> set (snd (f t e))) \<Longrightarrow> set t \<subseteq> set (snd (thread_list f t es))"
proof (induction es arbitrary: t)
  case (Cons e es)
  obtain e' t1 es' t2 where f: "f t e = (e', t1)" "thread_list f t1 es = (es', t2)" by (metis prod.exhaust)
  have "set t \<subseteq> set t1" using Cons.prems [of e t] f(1) by simp
  moreover have "set t1 \<subseteq> set t2" using Cons.IH [of t1] Cons.prems f(2) by fastforce
  ultimately show ?case using f by auto
qed simp

lemma substParams_grows: "set t \<subseteq> set (snd (substParams b A t x))"
proof (induction x arbitrary: b t rule: measure_induct_rule [where f = size])
  case (less x)
  have sub: "set t \<subseteq> set t'" if "substParams b A t y = (y', t')" "size y < size x" for b t y y' t'
    using less.IH [OF that(2), of t b] that(1) by simp
  show ?case
  proof (cases x)
    case (IAgg a)
    have opt: "set t \<subseteq> set (snd (thread_opt (substParams b A) t e))"
      if "e = ag_where a \<or> e = ag_sel a \<or> e = ag_limit a \<or> e = ag_order_by a" for b t e
      by (rule thread_opt_grows, rule less.IH) (use that IAgg size_agg_opt [of a] in auto)
    obtain lim t1 where l: "thread_opt (substParams b A) t (ag_limit a) = (lim, t1)" by fastforce
    let ?in = "inner_bind b A t1 (ag_var a)" and ?t = "inner_taken A t1 (ag_var a)"
    obtain wh t2 sl t3 ob t4 where r: "thread_opt (substParams ?in A) ?t (ag_where a) = (wh, t2)"
      "thread_opt (substParams ?in A) t2 (ag_sel a) = (sl, t3)" "thread_opt (substParams ?in A) t3 (ag_order_by a) = (ob, t4)"
      by (metis prod.exhaust)
    have "set t \<subseteq> set t1" "set ?t \<subseteq> set t2" "set t2 \<subseteq> set t3" "set t3 \<subseteq> set t4"
      using opt [of "ag_limit a" t b] opt [of "ag_where a" ?t ?in] opt [of "ag_sel a" t2 ?in] opt [of "ag_order_by a" t3 ?in] l r
      by simp_all
    moreover have "set t1 \<subseteq> set ?t" by (auto simp: inner_taken_def)
    moreover have "snd (substParams b A t x) = t4" by (simp add: IAgg l r Let_def)
    ultimately show ?thesis by blast
  next
    case (IMap ks vs)
    have "set t \<subseteq> set (snd (thread_list (substParams b A) t es))" if "es = ks \<or> es = vs" for t es
      by (rule thread_list_grows, rule less.IH) (use that IMap in \<open>auto dest!: size_in_list\<close>)
    moreover obtain vs' t1 ks' t2 where "thread_list (substParams b A) t vs = (vs', t1)" "thread_list (substParams b A) t1 ks = (ks', t2)"
      by (metis prod.exhaust)
    ultimately have "set t \<subseteq> set t1" "set t1 \<subseteq> set t2" "snd (substParams b A t x) = t2"
      using IMap by (metis snd_conv, metis snd_conv, simp)
    then show ?thesis by simp
  next
    case (IStruct n fs vs om nu)
    have "set t \<subseteq> set (snd (thread_list (substParams b A) t vs))"
      by (rule thread_list_grows, rule less.IH) (use IStruct in \<open>auto dest!: size_in_list\<close>)
    then show ?thesis by (simp add: IStruct split: prod.split) (metis snd_conv)
  next
    case (IList vs)
    have "set t \<subseteq> set (snd (thread_list (substParams b A) t vs))"
      by (rule thread_list_grows, rule less.IH) (use IList in \<open>auto dest!: size_in_list\<close>)
    then show ?thesis by (simp add: IList split: prod.split) (metis snd_conv)
  next
    case (ICall n vs)
    have "set t \<subseteq> set (snd (thread_list (substParams b A) t vs))"
      by (rule thread_list_grows, rule less.IH) (use ICall in \<open>auto dest!: size_in_list\<close>)
    then show ?thesis by (simp add: ICall split: prod.split) (metis snd_conv)
  next
    case (IBin op l r)
    obtain l' t1 r' t2 where p: "substParams b A t l = (l', t1)" "substParams b A t1 r = (r', t2)" by (metis prod.exhaust)
    have "set t \<subseteq> set t1" "set t1 \<subseteq> set t2" using sub [OF p(1)] sub [OF p(2)] IBin by simp_all
    moreover have "snd (substParams b A t x) = t2" by (simp add: IBin p)
    ultimately show ?thesis by simp
  next
    case (IIndex l r)
    obtain l' t1 r' t2 where p: "substParams b A t l = (l', t1)" "substParams b A t1 r = (r', t2)" by (metis prod.exhaust)
    have "set t \<subseteq> set t1" "set t1 \<subseteq> set t2" using sub [OF p(1)] sub [OF p(2)] IIndex by simp_all
    moreover have "snd (substParams b A t x) = t2" by (simp add: IIndex p)
    ultimately show ?thesis by simp
  qed (use sub in \<open>auto split: option.split prod.split\<close>)
qed

subsection \<open>The expansion means the call\<close>

text \<open>The item variables of an expression, and the two things the parser guarantees of a body: no \<open>given\<close>, no nameless field.\<close>

fun binders :: "expr \<Rightarrow> string list" where
  "binders (IAgg a) =
     (if ag_var a = [] then [] else [ag_var a])
     @ (case ag_where a of Some e \<Rightarrow> binders e | None \<Rightarrow> [])
     @ (case ag_sel a of Some e \<Rightarrow> binders e | None \<Rightarrow> [])
     @ (case ag_limit a of Some e \<Rightarrow> binders e | None \<Rightarrow> [])
     @ (case ag_order_by a of Some e \<Rightarrow> binders e | None \<Rightarrow> [])"
| "binders (IGet ob f) = binders ob"
| "binders (IEGet n k f) = binders k"
| "binders (IIndex ob k) = binders ob @ binders k"
| "binders (IMap ks vs) = concat (map binders ks) @ concat (map binders vs)"
| "binders (IStruct n fs vs om nu) = concat (map binders vs)"
| "binders (IList es) = concat (map binders es)"
| "binders (ICall n es) = concat (map binders es)"
| "binders (IUn op x) = binders x"
| "binders (IBin op l r) = binders l @ binders r"
| "binders _ = []"

fun derivable :: "expr \<Rightarrow> bool" where
  "derivable (IAgg a) =
     ((case ag_where a of Some e \<Rightarrow> derivable e | None \<Rightarrow> True) \<and> (case ag_sel a of Some e \<Rightarrow> derivable e | None \<Rightarrow> True)
      \<and> (case ag_limit a of Some e \<Rightarrow> derivable e | None \<Rightarrow> True) \<and> (case ag_order_by a of Some e \<Rightarrow> derivable e | None \<Rightarrow> True))"
| "derivable (IGet ob f) = (f \<noteq> [] \<and> derivable ob)"
| "derivable (IEGet n k f) = derivable k"
| "derivable (IIndex ob k) = (derivable ob \<and> derivable k)"
| "derivable (IMap ks vs) = (list_all derivable ks \<and> list_all derivable vs)"
| "derivable (IStruct n fs vs om nu) = list_all derivable vs"
| "derivable (IList es) = list_all derivable es"
| "derivable (ICall n es) = (n \<noteq> ''given'' \<and> list_all derivable es)"
| "derivable (IUn op x) = derivable x"
| "derivable (IBin op l r) = (derivable l \<and> derivable r)"
| "derivable _ = True"

lemma eval_row_field:
  "f \<noteq> [] \<Longrightarrow> eval C sc (row_field_of ob f) = (case eval C sc ob of GRec m \<Rightarrow> field m f | _ \<Rightarrow> GNil)"
  by (cases ob) (auto simp: row_field_of_def entity_get_def Let_def split: option.split)

text \<open>
  An item variable, and every name it may be renamed to, is no collection's: \<open>irNames\<close> does not
  report collections, so nothing else keeps them apart.
\<close>

definition vars_apart :: "string set \<Rightarrow> string set \<Rightarrow> bool" where
  "vars_apart V K \<longleftrightarrow> [] \<notin> K \<and> (\<forall>v \<in> V. v \<notin> K \<and> (\<forall>i. v @ show_nat i \<notin> K))"

text \<open>The scope of the body as written, the scope the expansion runs in, and the bindings between them.\<close>

definition linked :: "ectx \<Rightarrow> string list \<Rightarrow> string set \<Rightarrow> expr \<Rightarrow> binding \<Rightarrow> string list \<Rightarrow> scope \<Rightarrow> scope \<Rightarrow> expr \<Rightarrow> bool" where
  "linked C A K B b t s r x \<longleftrightarrow>
     set A \<union> set (irNames B) \<subseteq> set t \<and> [] \<notin> set A \<and> [] \<notin> set (irNames B)
     \<and> set (irNames x) \<subseteq> set (irNames B) \<and> set (binders x) \<subseteq> set (binders B) \<and> set (colls x) \<subseteq> K
     \<and> (\<forall>n \<in> set (irNames x). field r n = (case alget b n of Some a \<Rightarrow> eval C s a | None \<Rightarrow> field s n))
     \<and> (\<forall>n \<in> set (colls x). field r n = field s n)
     \<and> (\<forall>n a. alget b n = Some a \<longrightarrow> set (colls a) \<subseteq> K \<and> set (irNames a) \<subseteq> set t \<and> [] \<notin> set (irNames a)
          \<and> set (irNames a) \<inter> set (irNames B) \<subseteq> set A)"

lemma linked_part:
  assumes "linked C A K B b t s r x" "set t \<subseteq> set t'" "set (irNames y) \<subseteq> set (irNames x)"
    "set (binders y) \<subseteq> set (binders x)" "set (colls y) \<subseteq> set (colls x)"
  shows "linked C A K B b t' s r y"
  using assms unfolding linked_def by (elim conjE, intro conjI) blast+

lemma thread_list_eval:
  assumes "\<And>e t'. e \<in> set es \<Longrightarrow> set t \<subseteq> set t' \<Longrightarrow> eval C s (fst (f t' e)) = eval C r e \<and> set t' \<subseteq> set (snd (f t' e))"
  shows "map (eval C s) (fst (thread_list f t es)) = map (eval C r) es"
  using assms
proof (induction es arbitrary: t)
  case (Cons e es)
  obtain e' t1 es' t2 where f: "f t e = (e', t1)" "thread_list f t1 es = (es', t2)" by (metis prod.exhaust)
  have e: "eval C s e' = eval C r e" "set t \<subseteq> set t1" using Cons.prems [of e t] f(1) by simp_all
  have "map (eval C s) (fst (thread_list f t1 es)) = map (eval C r) es"
    by (rule Cons.IH) (use Cons.prems e(2) in auto)
  then show ?case using f e(1) by simp
qed simp

lemma eval_other: "n \<notin> reads a \<Longrightarrow> eval C (alput s n v) a = eval C s a"
  by (rule eval_cong_reads) (auto simp: field_def)

lemma linked_enter:
  assumes l: "linked C A K B b t s r x" and ap: "vars_apart (set (binders B)) K"
    and v: "v \<noteq> [] \<Longrightarrow> v \<in> set (binders x) \<inter> set (irNames x)"
    and y: "set (irNames y) \<subseteq> set (irNames x)" "set (binders y) \<subseteq> set (binders x)" "set (colls y) \<subseteq> set (colls x)"
    and t': "set (inner_taken A t v) \<subseteq> set t'"
  shows "linked C A K B (inner_bind b A t v) t' (alput s (inner_var A t v) row) (alput r v row) y"
proof -
  let ?b = "inner_bind b A t v" and ?v = "inner_var A t v"
  let ?s = "alput s ?v row" and ?r = "alput r v row"
  have taken: "set t \<subseteq> set t'" using t' by (auto simp: inner_taken_def split: if_splits)
  have K: "v \<notin> K" "?v \<notin> K"
  proof -
    have "v \<in> set (binders B)" if "v \<noteq> []" using v [OF that] l unfolding linked_def by blast
    then have "v \<notin> K" "v \<noteq> [] \<Longrightarrow> v @ show_nat i \<notin> K" for i using ap unfolding vars_apart_def by metis+
    then show "v \<notin> K" "?v \<notin> K" using fresh_name_spec [of t v] unfolding inner_var_def renames_def by metis+
  qed
  have fresh: "?v \<notin> set t" if "renames A v" using that fresh_name_spec by (simp add: inner_var_def)
  have names: "set (irNames y) \<subseteq> set (irNames B)" "set (irNames B) \<subseteq> set t" "set A \<subseteq> set t" "set (colls y) \<subseteq> K"
    "[] \<notin> set A" "[] \<notin> set (irNames B)"
    using l y by (auto simp: linked_def)
  have vB: "v \<noteq> [] \<Longrightarrow> v \<in> set (irNames B)" using v l by (auto simp: linked_def)
  text \<open>A binding that survives does not read the item.\<close>
  have keep: "eval C ?s a = eval C s a" if "alget b n = Some a" for n a
  proof (rule eval_other)
    have a: "set (colls a) \<subseteq> K" "set (irNames a) \<subseteq> set t" "[] \<notin> set (irNames a)" "set (irNames a) \<inter> set (irNames B) \<subseteq> set A"
      using l that by (auto simp: linked_def)
    have "?v \<notin> set (irNames a)"
    proof (cases "renames A v")
      case True
      then show ?thesis using fresh a(2) by blast
    next
      case False
      then have "v = [] \<or> v \<notin> set A" by (simp add: renames_def)
      then show ?thesis using a(3,4) vB False by (auto simp: inner_var_def)
    qed
    then show "?v \<notin> reads a" using a(1) K(2) by (auto simp: reads_def)
  qed
  have bind: "alget ?b n = (if n = v \<and> v \<noteq> [] then (if renames A v then Some (IRef ?v) else None) else alget b n)" for n
    by (simp add: inner_bind_def renames_def)
  have N: "field ?r n = (case alget ?b n of Some a \<Rightarrow> eval C ?s a | None \<Rightarrow> field ?s n)" if "n \<in> set (irNames y)" for n
  proof (cases "n = v")
    case True
    then have "v \<noteq> []" using that names(1,6) by auto
    then show ?thesis using True bind by (simp add: field_def inner_var_def)
  next
    case False
    have old: "field r n = (case alget b n of Some a \<Rightarrow> eval C s a | None \<Rightarrow> field s n)"
      using l that y(1) by (auto simp: linked_def)
    show ?thesis
    proof (cases "alget b n")
      case None
      have "n \<noteq> ?v" using fresh names(1,2) that False by (cases "renames A v") (auto simp: inner_var_def)
      then show ?thesis using old None False bind by (simp add: field_def)
    next
      case (Some a)
      then show ?thesis using old False bind keep [OF Some] by (simp add: field_def)
    qed
  qed
  have Q: "field ?r n = field ?s n" if "n \<in> set (colls y)" for n
  proof -
    have "n \<in> K" "field r n = field s n" using that l y(3) names(4) by (auto simp: linked_def)
    then show ?thesis using K by (auto simp: field_def)
  qed
  have R: "set (colls a) \<subseteq> K \<and> set (irNames a) \<subseteq> set t' \<and> [] \<notin> set (irNames a) \<and> set (irNames a) \<inter> set (irNames B) \<subseteq> set A"
    if "alget ?b n = Some a" for n a
  proof (cases "n = v \<and> v \<noteq> []")
    case True
    then have r: "renames A v" "a = IRef ?v" using that bind by (auto split: if_splits)
    then have "?v \<in> set t'" "?v \<notin> set (irNames B)"
      using t' fresh [OF r(1)] names(2) by (auto simp: inner_taken_def)
    moreover have "?v \<noteq> []" using r(1) fresh_name_spec [of t v] True by (auto simp: inner_var_def)
    ultimately show ?thesis using r by simp
  next
    case False
    then have "alget b n = Some a" using that by (simp add: bind split: if_splits)
    then have "set (colls a) \<subseteq> K \<and> set (irNames a) \<subseteq> set t \<and> [] \<notin> set (irNames a) \<and> set (irNames a) \<inter> set (irNames B) \<subseteq> set A"
      using l unfolding linked_def by blast
    then show ?thesis using taken by blast
  qed
  have "set A \<union> set (irNames B) \<subseteq> set t'" using names(2,3) taken by blast
  moreover have "set (binders y) \<subseteq> set (binders B)" using l y(2) unfolding linked_def by blast
  ultimately show ?thesis
    unfolding linked_def by (intro conjI ballI N Q; use R names in blast)
qed

lemma thread_opt_eval:
  assumes "\<And>e. x = Some e \<Longrightarrow> F (fst (f t e)) = G e"
  shows "map_option F (fst (thread_opt f t x)) = map_option G x"
  using assms by (cases x) (auto simp: thread_opt_def split: prod.split)

lemma eval_scan:
  assumes "\<not> ec_indexing C"
  shows "eval C sc (IAgg a) = scan_answer C sc a"
proof -
  have "aggregate False a rows lim pred sel key p = aggregate False a rows lim pred sel key q" for a :: "expr agg" and rows lim pred sel key p q
    by (simp add: aggregate_def candidates_def early_stop_def split: option.split)
  then show ?thesis using assms by (simp add: scan_answer_def)
qed

lemma aggregate_var:
  "aggregate False (Agg op n f vt v wh sl ord desc lim ob) = aggregate False (Agg op n f vt v' wh' sl' ord desc lim' ob')"
  by (intro ext) (simp only: aggregate_def early_stop_def agg_answer_def agg.sel not_False_eq_True if_True)

lemma substParams_eval:
  assumes "\<not> ec_indexing C" "vars_apart (set (binders B)) K"
  shows "linked C A K B b t s r x \<Longrightarrow> derivable x \<Longrightarrow> eval C s (fst (substParams b A t x)) = eval C r x"
proof (induction x arbitrary: b t s r rule: measure_induct_rule [where f = size])
  case (less x)
  have part: "eval C s (fst (substParams b A t' y)) = eval C r y"
    if "size y < size x" "set t \<subseteq> set t'" "derivable y" "set (irNames y) \<subseteq> set (irNames x)"
      "set (binders y) \<subseteq> set (binders x)" "set (colls y) \<subseteq> set (colls x)" for y t'
    using less.IH [OF that(1) linked_part [OF less.prems(1) that(2,4-6)] that(3)] .
  have parts: "map (eval C s) (fst (thread_list (substParams b A) t es)) = map (eval C r) es"
    if "\<And>y. y \<in> set es \<Longrightarrow> size y < size x \<and> derivable y \<and> set (irNames y) \<subseteq> set (irNames x)
      \<and> set (binders y) \<subseteq> set (binders x) \<and> set (colls y) \<subseteq> set (colls x)" for es
    by (rule thread_list_eval) (use that part substParams_grows in auto)
  show ?case
  proof (cases x)
    case (IAgg a)
    let ?v = "ag_var a"
    obtain lim t1 where l: "thread_opt (substParams b A) t (ag_limit a) = (lim, t1)" by fastforce
    let ?in = "inner_bind b A t1 ?v" and ?t = "inner_taken A t1 ?v" and ?v' = "inner_var A t1 ?v"
    obtain wh t2 sl t3 ob t4 where q: "thread_opt (substParams ?in A) ?t (ag_where a) = (wh, t2)"
      "thread_opt (substParams ?in A) t2 (ag_sel a) = (sl, t3)" "thread_opt (substParams ?in A) t3 (ag_order_by a) = (ob, t4)"
      by (metis prod.exhaust)
    have grows: "set t \<subseteq> set (snd (thread_opt (substParams b A) t e))" for b t e
      by (rule thread_opt_grows) (rule substParams_grows)
    have t1: "set t \<subseteq> set t1" "set ?t \<subseteq> set t2" "set t2 \<subseteq> set t3"
      using grows [of t b "ag_limit a"] grows [of ?t ?in "ag_where a"] grows [of t2 ?in "ag_sel a"] l q by simp_all
    have sub: "size e < size x \<and> derivable e \<and> set (irNames e) \<subseteq> set (irNames x)
        \<and> set (binders e) \<subseteq> set (binders x) \<and> set (colls e) \<subseteq> set (colls x)"
      if "ag_where a = Some e \<or> ag_sel a = Some e \<or> ag_limit a = Some e \<or> ag_order_by a = Some e" for e
      using that size_agg_opt [of a e] less.prems(2) IAgg by auto
    have "map_option (\<lambda>e. toInt (eval C s e)) (fst (thread_opt (substParams b A) t (ag_limit a)))
        = map_option (\<lambda>e. toInt (eval C r e)) (ag_limit a)"
      by (rule thread_opt_eval) (use part sub in auto)
    then have lim: "map_option (\<lambda>e. toInt (eval C s e)) lim = map_option (\<lambda>e. toInt (eval C r e)) (ag_limit a)"
      by (simp add: l)
    have l1: "linked C A K B b t1 s r x" by (rule linked_part [OF less.prems(1) t1(1)]) simp_all
    have item: "eval C (alput s ?v' row) (fst (substParams ?in A t' e)) = eval C (alput r ?v row) e"
      if "ag_where a = Some e \<or> ag_sel a = Some e \<or> ag_order_by a = Some e" "set ?t \<subseteq> set t'" for e t' row
    proof -
      have e: "size e < size x" "derivable e" "set (irNames e) \<subseteq> set (irNames x)"
        "set (binders e) \<subseteq> set (binders x)" "set (colls e) \<subseteq> set (colls x)"
        using sub [of e] that(1) by blast+
      have "?v \<noteq> [] \<Longrightarrow> ?v \<in> set (binders x) \<inter> set (irNames x)" by (simp add: IAgg)
      from linked_enter [OF l1 assms(2) this e(3-5) that(2)] show ?thesis by (rule less.IH [OF e(1) _ e(2)])
    qed
    have w: "map_option (\<lambda>e row. truthy (eval C (alput s ?v' row) e)) wh
        = map_option (\<lambda>e row. truthy (eval C (alput r ?v row) e)) (ag_where a)"
      using thread_opt_eval [of "ag_where a" "\<lambda>e row. truthy (eval C (alput s ?v' row) e)" "substParams ?in A" ?t
          "\<lambda>e row. truthy (eval C (alput r ?v row) e)"] item q(1) by simp
    have sl: "map_option (\<lambda>e row. eval C (alput s ?v' row) e) sl = map_option (\<lambda>e row. eval C (alput r ?v row) e) (ag_sel a)"
      using thread_opt_eval [of "ag_sel a" "\<lambda>e row. eval C (alput s ?v' row) e" "substParams ?in A" t2
          "\<lambda>e row. eval C (alput r ?v row) e"] item t1(2) q(2) by simp
    have ob: "map_option (\<lambda>e row. eval C (alput s ?v' row) e) ob = map_option (\<lambda>e row. eval C (alput r ?v row) e) (ag_order_by a)"
      using thread_opt_eval [of "ag_order_by a" "\<lambda>e row. eval C (alput s ?v' row) e" "substParams ?in A" t3
          "\<lambda>e row. eval C (alput r ?v row) e"] item t1(2,3) q(3) by simp
    have n: "field s (ag_name a) = field r (ag_name a)" using less.prems(1) IAgg by (simp add: linked_def)
    obtain op nm f vt v w0 s0 o0 d0 l0 b0 where a: "a = Agg op nm f vt v w0 s0 o0 d0 l0 b0" by (cases a)
    let ?a = "Agg op nm f vt ?v' wh sl o0 d0 lim ob"
    have "fst (substParams b A t x) = IAgg ?a" using l q by (simp add: IAgg a Let_def)
    then have "eval C s (fst (substParams b A t x)) = scan_answer C s ?a" by (simp only: eval_scan [OF assms(1)])
    also have "\<dots> = scan_answer C r a"
    proof -
      have "aggregate False ?a = aggregate False a" unfolding a by (rule aggregate_var)
      then show ?thesis using lim w sl ob n unfolding scan_answer_def a agg.sel by simp
    qed
    finally show ?thesis by (simp only: IAgg eval_scan [OF assms(1)])
  next
    case (IRef n)
    then show ?thesis using less.prems(1) by (auto simp: linked_def split: option.split)
  next
    case (IGet y f)
    have "eval C s (fst (substParams b A t y)) = eval C r y" by (rule part) (use IGet less.prems(2) in auto)
    then show ?thesis using IGet less.prems(2) by (cases "substParams b A t y") (simp add: eval_row_field)
  next
    case (IEGet n k f)
    have "eval C s (fst (substParams b A t k)) = eval C r k" by (rule part) (use IEGet less.prems(2) in auto)
    moreover have "field s n = field r n" using IEGet less.prems(1) by (simp add: linked_def)
    ultimately show ?thesis using IEGet by (cases "substParams b A t k") simp
  next
    case (IUn op y)
    have "eval C s (fst (substParams b A t y)) = eval C r y" by (rule part) (use IUn less.prems(2) in auto)
    then show ?thesis using IUn by (cases "substParams b A t y") simp
  next
    case (IIndex y z)
    obtain y' t1 where y: "substParams b A t y = (y', t1)" by fastforce
    have "eval C s (fst (substParams b A t y)) = eval C r y" by (rule part) (use IIndex less.prems(2) in auto)
    moreover have "eval C s (fst (substParams b A t1 z)) = eval C r z"
      by (rule part) (use IIndex less.prems(2) substParams_grows [of t b A y] y in auto)
    ultimately show ?thesis using IIndex y by (cases "substParams b A t1 z") simp
  next
    case (IBin op y z)
    obtain y' t1 where y: "substParams b A t y = (y', t1)" by fastforce
    have "eval C s (fst (substParams b A t y)) = eval C r y" by (rule part) (use IBin less.prems(2) in auto)
    moreover have "eval C s (fst (substParams b A t1 z)) = eval C r z"
      by (rule part) (use IBin less.prems(2) substParams_grows [of t b A y] y in auto)
    ultimately show ?thesis using IBin y by (cases "substParams b A t1 z") simp
  next
    case (IStruct n fs vs om nu)
    have "map (eval C s) (fst (thread_list (substParams b A) t vs)) = map (eval C r) vs"
      by (rule parts) (use IStruct less.prems(2) in \<open>auto simp: list_all_iff dest: size_in_list\<close>)
    then show ?thesis by (cases "thread_list (substParams b A) t vs") (simp add: IStruct del: map_eq_conv)
  next
    case (IList vs)
    have "map (eval C s) (fst (thread_list (substParams b A) t vs)) = map (eval C r) vs"
      by (rule parts) (use IList less.prems(2) in \<open>auto simp: list_all_iff dest: size_in_list\<close>)
    then show ?thesis by (cases "thread_list (substParams b A) t vs") (simp add: IList del: map_eq_conv)
  next
    case (ICall n vs)
    have "map (eval C s) (fst (thread_list (substParams b A) t vs)) = map (eval C r) vs"
      by (rule parts) (use ICall less.prems(2) in \<open>auto simp: list_all_iff dest: size_in_list\<close>)
    moreover have "given_ref n es = None" for es
      using ICall less.prems(2) by (auto simp: given_ref_def split: list.split expr.split)
    ultimately show ?thesis by (cases "thread_list (substParams b A) t vs") (simp add: ICall del: map_eq_conv)
  qed (simp_all split: prod.split)
qed

text \<open>A call by value: the body where its parameters hold the values of the arguments.\<close>

definition call_scope :: "ectx \<Rightarrow> scope \<Rightarrow> string list \<Rightarrow> expr list \<Rightarrow> scope" where
  "call_scope C sc ps args = fold (\<lambda>(p, a) r. alput r p (eval C sc a)) (zip ps args) sc"

lemma fold_put_get:
  "alget (fold (\<lambda>(p, a) b. alput b p a) xs m) n
     = (case map_of (rev xs) n of Some a \<Rightarrow> Some a | None \<Rightarrow> alget m n)"
  by (induction xs arbitrary: m) (auto simp: map_add_def split: option.split)

lemma call_scope_get:
  "field (call_scope C sc ps args) n
     = (case alget (fold (\<lambda>(p, a) b. alput b p a) (zip ps args) []) n of Some a \<Rightarrow> eval C sc a | None \<Rightarrow> field sc n)"
proof -
  have "alget (fold (\<lambda>(p, a) r. alput r p (eval C sc a)) xs m) n
     = (case map_of (rev xs) n of Some a \<Rightarrow> Some (eval C sc a) | None \<Rightarrow> alget m n)" for xs m
    by (induction xs arbitrary: m) (auto simp: map_add_def split: option.split)
  then show ?thesis
    by (simp add: call_scope_def fold_put_get field_def split: option.split)
qed

lemma expandDerive_eval:
  assumes "\<not> ec_indexing C" "length args = length ps" "derivable body" "set ps \<inter> set (colls body) = {}"
    "vars_apart (set (binders body)) (set (colls body) \<union> (\<Union>a \<in> set args. set (colls a)))"
    "[] \<notin> set (irNames body)" "\<forall>a \<in> set args. [] \<notin> set (irNames a)"
  shows "eval C sc (expandDerive ps body args) = eval C (call_scope C sc ps args) body"
proof -
  let ?b = "fold (\<lambda>(p, a) b. alput b p a) (zip ps args) []" and ?A = "concat (map irNames (take (length ps) args))"
  let ?K = "set (colls body) \<union> (\<Union>a \<in> set args. set (colls a))"
  have b: "alget ?b n = Some a \<Longrightarrow> n \<in> set ps \<and> a \<in> set args" for n a
    by (auto simp: fold_put_get split: option.splits dest!: map_of_SomeD dest: set_zip_leftD set_zip_rightD)
  have "linked C ?A ?K body ?b (?A @ irNames body) sc (call_scope C sc ps args) body"
    unfolding linked_def
  proof (intro conjI ballI allI impI)
    fix n
    assume "n \<in> set (colls body)"
    then have "n \<notin> set ps" using assms(4) by blast
    then have "alget ?b n = None" using b by (meson not_None_eq)
    then show "field (call_scope C sc ps args) n = field sc n" by (simp add: call_scope_get)
  next
    fix n a
    assume "alget ?b n = Some a"
    then have a: "a \<in> set args" using b by blast
    then show "set (irNames a) \<subseteq> set (?A @ irNames body)" "set (irNames a) \<inter> set (irNames body) \<subseteq> set ?A"
      using assms(2) by auto
    show "set (colls a) \<subseteq> ?K" "[] \<notin> set (irNames a)" using a assms(7) by auto
  qed (use assms(2,6,7) in \<open>auto simp: call_scope_get\<close>)
  then show ?thesis
    unfolding expandDerive_def Let_def by (rule substParams_eval [OF assms(1,5) _ assms(3)])
qed

text \<open>
  C13: a call of a parameterized derive, expanded by the compiler at the call site, has the
  value of the derive's body evaluated where its parameters hold the values of the arguments:
  renaming the body's item variables keeps an argument's rows apart from the body's at any
  nesting. The body reads no collection under a parameter's name, and no item variable of
  it, nor a name it could be renamed to, is the name of a collection the body or an argument
  reads (\<open>hygiene_misses_collections\<close> shows why). Row indexing is off, which changes no
  answer (\<open>aggregate_index_sound\<close>).
\<close>

theorem expandDerive_by_value:
  assumes "\<not> ec_indexing C" "length args = length ps" "derivable body" "set ps \<inter> set (colls body) = {}"
    "vars_apart (set (binders body)) (set (colls body) \<union> (\<Union>a \<in> set args. set (colls a)))"
    "[] \<notin> set (irNames body)" "\<forall>a \<in> set args. [] \<notin> set (irNames a)"
  shows "eval C sc (expandDerive ps body args) = eval C (call_scope C sc ps args) body"
  using assms by (rule expandDerive_eval)

definition plain_ctx :: ectx where
  "plain_ctx = \<lparr>ec_lib = std0, ec_given = (\<lambda>p. False), ec_proc = None, ec_indexing = False\<rparr>"

text \<open>\<open>derive older(p) = count(w in Work where w.n > p.n)\<close>, called with an outer row \<open>w\<close>.\<close>

definition ex_derive :: expr where
  "ex_derive = IAgg (Agg ''count'' ''Work'' [] [] ''w''
     (Some (IBin ''=='' (IGet (IRef ''w'') ''n'') (IGet (IRef ''p'') ''n''))) None [] False None None)"

definition ex_works :: scope where
  "ex_works = [(''Work'', GList [GRec [(''n'', GInt 1)], GRec [(''n'', GInt 2)]]), (''w'', GRec [(''n'', GInt 1)])]"

theorem expandDerive_by_value_witness:
  "expandDerive [''p''] ex_derive [IRef ''w''] = IAgg (Agg ''count'' ''Work'' [] [] ''w2''
     (Some (IBin ''=='' (IGet (IRef ''w2'') ''n'') (IGet (IRef ''w'') ''n''))) None [] False None None)
   \<and> eval plain_ctx ex_works (expandDerive [''p''] ex_derive [IRef ''w''])
     = eval plain_ctx (call_scope plain_ctx ex_works [''p''] [IRef ''w'']) ex_derive"
proof
  have "show_nat 2 = ''2''" by code_simp
  then show "expandDerive [''p''] ex_derive [IRef ''w''] = IAgg (Agg ''count'' ''Work'' [] [] ''w2''
     (Some (IBin ''=='' (IGet (IRef ''w2'') ''n'') (IGet (IRef ''w'') ''n''))) None [] False None None)"
    by (simp add: expandDerive_def ex_derive_def thread_opt_def inner_bind_def inner_taken_def inner_var_def renames_def
        fresh_name_def fresh_names_def row_field_of_def upt_rec aldel_def Let_def)
  show "eval plain_ctx ex_works (expandDerive [''p''] ex_derive [IRef ''w''])
     = eval plain_ctx (call_scope plain_ctx ex_works [''p''] [IRef ''w'']) ex_derive"
    by (rule expandDerive_by_value) (auto simp: plain_ctx_def ex_derive_def vars_apart_def)
qed

text \<open>
  What the condition on collections guards against: the item variable \<open>w\<close> of the body is
  renamed to \<open>w2\<close>, and a state cell \<open>w2\<close> the body counts over is read as the row.
\<close>

definition ex_clash :: expr where
  "ex_clash = IAgg (Agg ''count'' ''Work'' [] [] ''w''
     (Some (IAgg (Agg ''exists'' ''w2'' [] [] ''q'' None None [] False None None))) None [] False None None)"

theorem hygiene_misses_collections:
  "eval plain_ctx (ex_works @ [(''w2'', GList [GInt 7])]) (expandDerive [''p''] ex_clash [IRef ''w'']) = GInt 0"
  "eval plain_ctx (call_scope plain_ctx (ex_works @ [(''w2'', GList [GInt 7])]) [''p''] [IRef ''w'']) ex_clash = GInt 2"
proof -
  have "show_nat 2 = ''2''" by code_simp
  then have "expandDerive [''p''] ex_clash [IRef ''w''] = IAgg (Agg ''count'' ''Work'' [] [] ''w2''
     (Some (IAgg (Agg ''exists'' ''w2'' [] [] ''q'' None None [] False None None))) None [] False None None)"
    by (simp add: expandDerive_def ex_clash_def thread_opt_def inner_bind_def inner_taken_def inner_var_def renames_def
        fresh_name_def fresh_names_def upt_rec aldel_def Let_def)
  then show "eval plain_ctx (ex_works @ [(''w2'', GList [GInt 7])]) (expandDerive [''p''] ex_clash [IRef ''w'']) = GInt 0"
    by (simp add: eval_scan plain_ctx_def scan_answer_def aggregate_def candidates_def early_stop_def keep_rows_def
        agg_answer_def ex_works_def field_def list_of_def)
  show "eval plain_ctx (call_scope plain_ctx (ex_works @ [(''w2'', GList [GInt 7])]) [''p''] [IRef ''w'']) ex_clash = GInt 2"
    by (simp add: eval_scan plain_ctx_def scan_answer_def aggregate_def candidates_def early_stop_def keep_rows_def
        agg_answer_def ex_works_def ex_clash_def call_scope_def field_def list_of_def)
qed

subsection \<open>The names of an expansion\<close>

text \<open>It has no nameless variable, and reads the collections of the body and the bindings.\<close>

definition tidy :: "string set \<Rightarrow> expr \<Rightarrow> bool" where
  "tidy K x \<longleftrightarrow> [] \<notin> set (irNames x) \<and> set (colls x) \<subseteq> K"

lemma tidy_simps [simp]:
  "tidy K (IRef n) = (n \<noteq> [])" "tidy K (IGet y f) = tidy K y" "tidy K (IEGet n k f) = (n \<in> K \<and> tidy K k)"
  "tidy K (IIndex y z) = (tidy K y \<and> tidy K z)" "tidy K (IMap ks vs) = (list_all (tidy K) ks \<and> list_all (tidy K) vs)"
  "tidy K (IStruct n fs vs om nu) = list_all (tidy K) vs" "tidy K (IList vs) = list_all (tidy K) vs"
  "tidy K (ICall n vs) = list_all (tidy K) vs" "tidy K (IUn op y) = tidy K y" "tidy K (IBin op y z) = (tidy K y \<and> tidy K z)"
  "tidy K (ILit v t)" "tidy K (IAState a op)"
  by (auto simp: tidy_def list_all_iff)

lemma tidy_agg [simp]:
  "tidy K (IAgg a) = (ag_name a \<in> K \<and> pred_option (tidy K) (ag_where a) \<and> pred_option (tidy K) (ag_sel a)
     \<and> pred_option (tidy K) (ag_limit a) \<and> pred_option (tidy K) (ag_order_by a))"
  by (cases "ag_where a"; cases "ag_sel a"; cases "ag_limit a"; cases "ag_order_by a") (auto simp: tidy_def)

lemma thread_opt_pred:
  "(\<And>e t. x = Some e \<Longrightarrow> P (fst (f t e))) \<Longrightarrow> pred_option P (fst (thread_opt f t x))"
  by (cases x; cases "f t (the x)") (auto simp: thread_opt_def, metis fst_conv)

lemma thread_list_pred:
  "(\<And>e t. e \<in> set es \<Longrightarrow> P (fst (f t e))) \<Longrightarrow> list_all P (fst (thread_list f t es))"
proof (induction es arbitrary: t)
  case (Cons e es)
  obtain e' t1 es' t2 where f: "f t e = (e', t1)" "thread_list f t1 es = (es', t2)" by (metis prod.exhaust)
  have "P e'" using Cons.prems [of e t] f(1) by simp
  moreover have "list_all P es'" using Cons.IH [of t1] Cons.prems f(2) by fastforce
  ultimately show ?case using f by simp
qed simp

lemma substParams_tidy:
  "tidy K x \<Longrightarrow> (\<And>n a. alget b n = Some a \<Longrightarrow> tidy K a) \<Longrightarrow> tidy K (fst (substParams b A t x))"
proof (induction x arbitrary: b t rule: measure_induct_rule [where f = size])
  case (less x)
  have one: "tidy K (fst (substParams b A t' y))" if "size y < size x" "tidy K y" for y t'
    by (rule less.IH [OF that]) (rule less.prems(2))
  have list: "list_all (tidy K) (fst (thread_list (substParams b A) t' es))"
    if "\<And>y. y \<in> set es \<Longrightarrow> size y < size x \<and> tidy K y" for es t'
    by (rule thread_list_pred) (use that one in blast)
  show ?case
  proof (cases x)
    case (IAgg a)
    obtain lim t1 where l: "thread_opt (substParams b A) t (ag_limit a) = (lim, t1)" by fastforce
    let ?in = "inner_bind b A t1 (ag_var a)" and ?t = "inner_taken A t1 (ag_var a)"
    obtain wh t2 sl t3 ob t4 where q: "thread_opt (substParams ?in A) ?t (ag_where a) = (wh, t2)"
      "thread_opt (substParams ?in A) t2 (ag_sel a) = (sl, t3)" "thread_opt (substParams ?in A) t3 (ag_order_by a) = (ob, t4)"
      by (metis prod.exhaust)
    have inner: "tidy K e" if "alget ?in n = Some e" for n e
    proof -
      have "inner_var A t1 (ag_var a) \<noteq> []" if "renames A (ag_var a)"
        using that fresh_name_spec [of t1 "ag_var a"] by (auto simp: inner_var_def renames_def)
      then show ?thesis using that less.prems(2) by (auto simp: inner_bind_def split: if_splits)
    qed
    have sub: "size e < size x \<and> tidy K e"
      if "ag_where a = Some e \<or> ag_sel a = Some e \<or> ag_limit a = Some e \<or> ag_order_by a = Some e" for e
      using that size_agg_opt [of a e] less.prems(1) IAgg by auto
    have p: "pred_option (tidy K) (fst (thread_opt (substParams ?in A) t' e))"
      if "e = ag_where a \<or> e = ag_sel a \<or> e = ag_order_by a" for e t'
    proof (rule thread_opt_pred)
      fix y t''
      assume "e = Some y"
      then have "size y < size x" "tidy K y" using sub that by auto
      then show "tidy K (fst (substParams ?in A t'' y))" using less.IH inner by blast
    qed
    have "pred_option (tidy K) lim"
      using thread_opt_pred [of "ag_limit a" "tidy K" "substParams b A" t] one sub l by fastforce
    moreover have "pred_option (tidy K) wh" "pred_option (tidy K) sl" "pred_option (tidy K) ob"
      using p [of "ag_where a" ?t] p [of "ag_sel a" t2] p [of "ag_order_by a" t3] q by simp_all
    ultimately show ?thesis using less.prems(1) IAgg l q by (simp add: Let_def)
  next
    case (IRef n)
    then show ?thesis using less.prems by (auto split: option.split)
  next
    case (IGet y f)
    have "tidy K (row_field_of z f) = tidy K z" for z by (cases z) (auto simp: row_field_of_def)
    then show ?thesis using IGet one [of y t] less.prems(1) by (cases "substParams b A t y") simp
  next
    case (IEGet n k f)
    then show ?thesis using one [of k t] less.prems(1) by (cases "substParams b A t k") simp
  next
    case (IUn op k)
    then show ?thesis using one [of k t] less.prems(1) by (cases "substParams b A t k") simp
  next
    case (IIndex y z)
    obtain y' t1 z' t2 where "substParams b A t y = (y', t1)" "substParams b A t1 z = (z', t2)" by (metis prod.exhaust)
    then show ?thesis using IIndex one [of y t] one [of z t1] less.prems(1) by simp
  next
    case (IBin op y z)
    obtain y' t1 z' t2 where "substParams b A t y = (y', t1)" "substParams b A t1 z = (z', t2)" by (metis prod.exhaust)
    then show ?thesis using IBin one [of y t] one [of z t1] less.prems(1) by simp
  next
    case (IStruct n fs vs om nu)
    then show ?thesis using list [of vs t] less.prems(1)
      by (cases "thread_list (substParams b A) t vs") (simp add: list_all_iff size_in_list)
  next
    case (IList vs)
    then show ?thesis using list [of vs t] less.prems(1)
      by (cases "thread_list (substParams b A) t vs") (simp add: list_all_iff size_in_list)
  next
    case (ICall n vs)
    then show ?thesis using list [of vs t] less.prems(1)
      by (cases "thread_list (substParams b A) t vs") (simp add: list_all_iff size_in_list)
  next
    case (IMap ks vs)
    obtain vs' t1 ks' t2 where m: "thread_list (substParams b A) t vs = (vs', t1)" "thread_list (substParams b A) t1 ks = (ks', t2)"
      by (metis prod.exhaust)
    have "size y < size x \<and> tidy K y" if "y \<in> set ks \<union> set vs" for y
    proof
      show "tidy K y" using that IMap less.prems(1) by (auto simp: list_all_iff)
      show "size y < size x" using that IMap by (auto dest: size_in_list)
    qed
    then show ?thesis using IMap list [of vs t] list [of ks t1] m by simp
  qed simp_all
qed

end
