(* ===== verification/Graph.thy ===== *)
theory Graph
  imports GoLib
begin

text \<open>
  The compiler's three-colour depth-first searches (internal/ir/build.go): \<open>triggerCycle\<close>,
  \<open>checkRunGraph\<close> and \<open>deriveOrder\<close> are one traversal, of the trigger graph, of the graph of
  runs and of the reads of derives. It refuses exactly the cyclic graphs, with a walk around a
  cycle as its report, and leaves the finished names in an order where each follows its
  successors.
\<close>

subsection \<open>The search\<close>

datatype colour = White | Grey | Black

type_synonym edges = "(string \<times> string list) list"

definition succs :: "edges \<Rightarrow> string \<Rightarrow> string list" where
  "succs E n = (case alget E n of Some ms \<Rightarrow> ms | None \<Rightarrow> [])"

text \<open>
  The colours, and the finished names in the order they finish. A visit of a grey name answers
  the path to it; the fuel bounds the depth, and \<open>search_returns\<close> shows that it is enough.
\<close>

type_synonym marks = "(string \<Rightarrow> colour) \<times> string list"

fun visit :: "nat \<Rightarrow> (string \<Rightarrow> string list) \<Rightarrow> string list \<Rightarrow> string \<Rightarrow> marks \<Rightarrow> (string list + marks) option"
  and visit_all :: "nat \<Rightarrow> (string \<Rightarrow> string list) \<Rightarrow> string list \<Rightarrow> string list \<Rightarrow> marks \<Rightarrow> (string list + marks) option" where
  "visit k E path n (col, out) =
     (case col n of
        Black \<Rightarrow> Some (Inr (col, out))
      | Grey \<Rightarrow> Some (Inl (path @ [n]))
      | White \<Rightarrow>
          (case k of
             0 \<Rightarrow> None
           | Suc k' \<Rightarrow>
               (case visit_all k' E (path @ [n]) (E n) (col(n := Grey), out) of
                  Some (Inr (col', out')) \<Rightarrow> Some (Inr (col'(n := Black), out' @ [n]))
                | stop \<Rightarrow> stop)))"
| "visit_all k E path [] m = Some (Inr m)"
| "visit_all k E path (n # ns) m =
     (case visit k E path n m of
        Some (Inr m') \<Rightarrow> visit_all k E path ns m'
      | stop \<Rightarrow> stop)"

text \<open>A search from every root in turn, the names it can meet being the roots and their successors.\<close>

definition names_of :: "(string \<Rightarrow> string list) \<Rightarrow> string list \<Rightarrow> string list" where
  "names_of E roots = roots @ concat (map E roots)"

definition search :: "(string \<Rightarrow> string list) \<Rightarrow> string list \<Rightarrow> (string list + marks) option" where
  "search E roots = visit_all (length (names_of E roots)) E [] roots (\<lambda>_. White, [])"

definition sortedKeys :: "string list \<Rightarrow> string list" where
  "sortedKeys ks = stable_sort str_lt (remdups ks)"

text \<open>
  \<open>triggerCycle\<close>: the loop is the path from the first appearance of the name that closes it;
  the empty string when there is none.
\<close>

definition from_first :: "string \<Rightarrow> string list \<Rightarrow> string list" where
  "from_first m stack = (if m \<in> set stack then dropWhile (\<lambda>s. s \<noteq> m) stack else stack)"

definition triggerCycle :: "edges \<Rightarrow> string" where
  "triggerCycle E =
     (case search (succs E) (sortedKeys (map fst E)) of
        Some (Inl p) \<Rightarrow> str_join (from_first (last p) (butlast p) @ [last p]) '' -> ''
      | _ \<Rightarrow> [])"

subsection \<open>What a visit promises\<close>

text \<open>A walk follows edges; a finished name's successors finished before it.\<close>

definition walk :: "(string \<Rightarrow> string list) \<Rightarrow> string list \<Rightarrow> bool" where
  "walk E p = successively (\<lambda>x y. y \<in> set (E x)) p"

fun ordered :: "(string \<Rightarrow> string list) \<Rightarrow> string list \<Rightarrow> bool" where
  "ordered E [] = True"
| "ordered E (n # ns) = (set (E n) \<subseteq> set ns \<and> n \<notin> set ns \<and> ordered E ns)"

definition edge_rel :: "(string \<Rightarrow> string list) \<Rightarrow> (string \<times> string) set" where
  "edge_rel E = {(x, y). y \<in> set (E x)}"

definition marks_ok :: "(string \<Rightarrow> string list) \<Rightarrow> string list \<Rightarrow> marks \<Rightarrow> bool" where
  "marks_ok E path m = (case m of (col, out) \<Rightarrow>
     walk E path \<and> distinct path \<and> (\<forall>n. col n = Grey \<longleftrightarrow> n \<in> set path) \<and> (\<forall>n. col n = Black \<longleftrightarrow> n \<in> set out)
     \<and> ordered E (rev out))"

definition whites :: "string set \<Rightarrow> marks \<Rightarrow> nat" where
  "whites V m = card {n \<in> V. fst m n = White}"

definition fine :: "(string \<Rightarrow> string list) \<Rightarrow> string list \<Rightarrow> marks \<Rightarrow> string set \<Rightarrow> string list + marks \<Rightarrow> bool" where
  "fine E path m goal r = (case r of
     Inl p \<Rightarrow> walk E p \<and> 2 \<le> length p \<and> last p \<in> set (butlast p)
   | Inr (col', out') \<Rightarrow> marks_ok E path (col', out') \<and> goal \<subseteq> set out' \<and> (\<exists>new. out' = snd m @ new)
       \<and> (\<forall>n. fst m n \<noteq> White \<longrightarrow> col' n \<noteq> White))"

lemma walk_snoc: "walk E (p @ [n]) = (walk E p \<and> (p = [] \<or> n \<in> set (E (last p))))"
  by (auto simp: walk_def successively_append_iff)

lemma whites_mono:
  "finite V \<Longrightarrow> (\<And>n. fst m n \<noteq> White \<Longrightarrow> fst m' n \<noteq> White) \<Longrightarrow> whites V m' \<le> whites V m"
  unfolding whites_def by (rule card_mono) auto

lemma whites_grey:
  assumes "finite V" "n \<in> V" "col n = White"
  shows "Suc (whites V (col(n := Grey), out)) = whites V (col, out)"
proof -
  have "{x \<in> V. col x = White} = insert n {x \<in> V. (col(n := Grey)) x = White}" using assms by auto
  then show ?thesis using assms(1) by (simp add: whites_def)
qed

lemma ordered_no_repeat: "ordered E ns \<Longrightarrow> distinct ns"
  by (induction ns) auto

lemma finish_marks:
  assumes "marks_ok E (path @ [n]) (col', out')" "set (E n) \<subseteq> set out'"
  shows "marks_ok E path (col'(n := Black), out' @ [n])"
proof -
  have "n \<notin> set path" "n \<notin> set out'" using assms(1) by (auto simp: marks_ok_def) (metis colour.distinct(5))
  then show ?thesis using assms by (auto simp: marks_ok_def walk_snoc)
qed

lemma start_marks:
  assumes "marks_ok E path (col, out)" "path = [] \<or> n \<in> set (E (last path))" "col n = White"
  shows "marks_ok E (path @ [n]) (col(n := Grey), out)"
proof -
  have c: "\<forall>x. col x = Grey \<longleftrightarrow> x \<in> set path" "\<forall>x. col x = Black \<longleftrightarrow> x \<in> set out"
    and o: "walk E path" "distinct path" "ordered E (rev out)"
    using assms(1) by (auto simp: marks_ok_def)
  have n: "n \<notin> set path" "n \<notin> set out" using c assms(3) by (metis colour.distinct(1,3))+
  have "walk E (path @ [n])" using o(1) assms(2) by (simp add: walk_snoc)
  moreover have "\<forall>x. (col(n := Grey)) x = Grey \<longleftrightarrow> x \<in> set (path @ [n])" using c(1) by simp
  moreover have "\<forall>x. (col(n := Grey)) x = Black \<longleftrightarrow> x \<in> set out" using c(2) n(2) by auto
  ultimately show ?thesis using o n by (simp add: marks_ok_def)
qed

lemma visit_fine:
  assumes "finite V"
  shows "\<forall>x \<in> V. set (E x) \<subseteq> V \<Longrightarrow> marks_ok E path m \<Longrightarrow> path = [] \<or> n \<in> set (E (last path)) \<Longrightarrow> n \<in> V \<Longrightarrow> whites V m \<le> k \<Longrightarrow>
      \<exists>r. visit k E path n m = Some r \<and> fine E path m {n} r"
    and "\<forall>x \<in> V. set (E x) \<subseteq> V \<Longrightarrow> marks_ok E path m \<Longrightarrow> path = [] \<or> set ns \<subseteq> set (E (last path)) \<Longrightarrow> set ns \<subseteq> V \<Longrightarrow> whites V m \<le> k \<Longrightarrow>
      \<exists>r. visit_all k E path ns m = Some r \<and> fine E path m (set ns) r"
proof (induction k E path n m and k E path ns m rule: visit_visit_all.induct)
  case (1 k E path n col out)
  show ?case
  proof (cases "col n")
    case Black
    then have "n \<in> set out" using "1.prems"(2) by (auto simp: marks_ok_def)
    then show ?thesis using Black "1.prems"(2) by (simp add: fine_def)
  next
    case Grey
    then have g: "n \<in> set path" using "1.prems"(2) by (auto simp: marks_ok_def)
    then have "2 \<le> length (path @ [n])" by (cases path) auto
    moreover have "visit k E path n (col, out) = Some (Inl (path @ [n]))" using Grey by simp
    moreover have "walk E (path @ [n])" using "1.prems"(2,3) by (auto simp: walk_snoc marks_ok_def)
    ultimately show ?thesis using g by (simp add: fine_def)
  next
    case White
    have w: "Suc (whites V (col(n := Grey), out)) = whites V (col, out)" by (rule whites_grey [of V n]) (use assms "1.prems"(4) White in auto)
    then obtain k' where k: "k = Suc k'" using "1.prems"(5) by (cases k) auto
    have ok: "marks_ok E (path @ [n]) (col(n := Grey), out)" using start_marks "1.prems"(2,3) White by blast
    have fuel: "whites V (col(n := Grey), out) \<le> k'" using w k "1.prems"(5) by simp
    have "path @ [n] = [] \<or> set (E n) \<subseteq> set (E (last (path @ [n])))" by simp
    moreover have "set (E n) \<subseteq> V" by (rule bspec [OF "1.prems"(1,4)])
    ultimately obtain r where r: "visit_all k' E (path @ [n]) (E n) (col(n := Grey), out) = Some r"
      "fine E (path @ [n]) (col(n := Grey), out) (set (E n)) r"
      using "1.IH" [OF White k "1.prems"(1) ok _ _ fuel] by blast
    show ?thesis
    proof (cases r)
      case (Inl p)
      then show ?thesis using r White k by (simp add: fine_def)
    next
      case (Inr m')
      obtain col' out' where m': "m' = (col', out')" by fastforce
      then show ?thesis
        using r White k Inr finish_marks [of E path n col' out'] by (auto simp: fine_def)
    qed
  qed
next
  case (2 k E path m)
  then show ?case by (cases m) (simp add: fine_def)
next
  case (3 k E path n ns m)
  obtain r where r: "visit k E path n m = Some r" "fine E path m {n} r"
    using "3.IH"(1) "3.prems" by auto
  show ?case
  proof (cases r)
    case (Inl p)
    then show ?thesis using r by (simp add: fine_def)
  next
    case (Inr m')
    obtain col' out' where m': "m' = (col', out')" by fastforce
    have ok: "marks_ok E path m'" using r(2) Inr m' by (simp add: fine_def)
    have "whites V m' \<le> whites V m" by (rule whites_mono [OF assms]) (use r(2) Inr m' in \<open>simp add: fine_def\<close>)
    then have "whites V m' \<le> k" using "3.prems"(5) by simp
    then obtain r' where r': "visit_all k E path ns m' = Some r'" "fine E path m' (set ns) r'"
      using "3.IH"(2) [OF r(1) Inr "3.prems"(1) ok] "3.prems"(3,4) by auto
    then have "fine E path m (set (n # ns)) r'"
      using r(2) Inr m' by (auto simp: fine_def split: sum.splits)
    then show ?thesis using r r'(1) Inr by simp
  qed
qed

subsection \<open>What a search answers\<close>

lemma search_fine:
  assumes "\<forall>x \<in> set (names_of E roots). set (E x) \<subseteq> set (names_of E roots)"
  shows "\<exists>r. search E roots = Some r \<and> fine E [] (\<lambda>_. White, []) (set roots) r"
  unfolding search_def
proof (rule visit_fine(2) [of "set (names_of E roots)"])
  show "marks_ok E [] (\<lambda>_. White, [])" by (simp add: marks_ok_def walk_def)
  show "whites (set (names_of E roots)) (\<lambda>_. White, []) \<le> length (names_of E roots)"
    by (simp add: whites_def card_length)
qed (use assms in \<open>auto simp: names_of_def\<close>)

lemma walk_path: "walk E (p @ [n]) \<Longrightarrow> x \<in> set p \<Longrightarrow> (x, n) \<in> (edge_rel E)\<^sup>+"
proof (induction p arbitrary: n rule: rev_induct)
  case (snoc y p)
  then have e: "(y, n) \<in> edge_rel E" "walk E (p @ [y])"
    using walk_snoc [of E "p @ [y]" n] by (simp_all add: edge_rel_def)
  then show ?case using snoc by (cases "x = y") (auto intro: trancl_into_trancl)
qed simp

lemma loop_cyclic:
  assumes "walk E p" "p \<noteq> []" "last p \<in> set (butlast p)"
  shows "\<not> acyclic (edge_rel E)"
  using walk_path [of E "butlast p" "last p" "last p"] assms by (auto simp: acyclic_def)

text \<open>An order in which every name follows its successors excludes cycles.\<close>

lemma ordered_tail: "ordered E (ns @ n # ms) \<Longrightarrow> set (E n) \<subseteq> set ms"
  by (induction ns) auto

lemma ordered_path:
  "(x, y) \<in> (edge_rel E)\<^sup>+ \<Longrightarrow> ordered E (ns @ x # ms) \<Longrightarrow> y \<in> set ms"
proof (induction arbitrary: ns ms rule: converse_trancl_induct)
  case (base x)
  then show ?case using ordered_tail [of E ns x ms] by (auto simp: edge_rel_def)
next
  case (step x z)
  have "z \<in> set ms" using step.hyps(1) ordered_tail [OF step.prems] by (auto simp: edge_rel_def)
  then obtain a b where ms: "ms = a @ z # b" by (meson split_list)
  then have "y \<in> set b" using step.IH [of "ns @ x # a" b] step.prems by simp
  then show ?case using ms by simp
qed

lemma ordered_acyclic:
  assumes "ordered E ns" "\<forall>x. x \<notin> set ns \<longrightarrow> E x = []"
  shows "acyclic (edge_rel E)"
proof (rule acyclicI, rule allI, rule notI)
  fix x
  assume x: "(x, x) \<in> (edge_rel E)\<^sup>+"
  then have "E x \<noteq> []" by (auto simp: edge_rel_def dest: tranclD)
  then obtain a b where ns: "ns = a @ x # b" using assms(2) by (meson split_list)
  then have "x \<in> set b" using ordered_path [OF x] assms(1) by blast
  then show False using ordered_no_repeat [OF assms(1)] ns by simp
qed

text \<open>When every name with successors is a root, the search tells the cyclic graphs from the others.\<close>

lemma names_closed:
  assumes "\<forall>x. x \<notin> set roots \<longrightarrow> E x = []"
  shows "\<forall>x \<in> set (names_of E roots). set (E x) \<subseteq> set (names_of E roots)"
proof
  fix x
  show "set (E x) \<subseteq> set (names_of E roots)"
    using assms by (cases "x \<in> set roots") (auto simp: names_of_def)
qed

lemma search_loop:
  assumes "\<forall>x. x \<notin> set roots \<longrightarrow> E x = []" "search E roots = Some (Inl p)"
  shows "walk E p \<and> 2 \<le> length p \<and> last p \<in> set (butlast p) \<and> \<not> acyclic (edge_rel E)"
proof -
  have "walk E p \<and> 2 \<le> length p \<and> last p \<in> set (butlast p)"
    using search_fine [OF names_closed [OF assms(1)]] assms(2) by (auto simp: fine_def)
  moreover from this have "\<not> acyclic (edge_rel E)" by (intro loop_cyclic [of E p]) auto
  ultimately show ?thesis by blast
qed

lemma search_order:
  assumes "\<forall>x. x \<notin> set roots \<longrightarrow> E x = []" "search E roots = Some (Inr (col, out))"
  shows "ordered E (rev out) \<and> set roots \<subseteq> set out \<and> acyclic (edge_rel E)"
proof -
  have o: "ordered E (rev out) \<and> set roots \<subseteq> set out"
    using search_fine [OF names_closed [OF assms(1)]] assms(2) by (auto simp: fine_def marks_ok_def)
  then have "\<forall>x. x \<notin> set (rev out) \<longrightarrow> E x = []" using assms(1) by auto
  then show ?thesis using ordered_acyclic o by blast
qed

lemma search_decides:
  assumes "\<forall>x. x \<notin> set roots \<longrightarrow> E x = []"
  obtains (Loop) p where "search E roots = Some (Inl p)" "2 \<le> length p" "\<not> acyclic (edge_rel E)"
  | (Order) col out where "search E roots = Some (Inr (col, out))" "acyclic (edge_rel E)"
proof -
  obtain r where r: "search E roots = Some r" using search_fine [OF names_closed [OF assms]] by blast
  show ?thesis
  proof (cases r)
    case (Inl p)
    then show ?thesis using Loop search_loop [OF assms] r by blast
  next
    case (Inr m)
    then show ?thesis using Order search_order [OF assms] r by (metis prod.exhaust)
  qed
qed

text \<open>Only names of a set closed under successors finish.\<close>

lemma visit_within:
  shows "visit k E path n m = Some (Inr m') \<Longrightarrow> n \<in> V \<Longrightarrow> \<forall>x \<in> V. set (E x) \<subseteq> V \<Longrightarrow> set (snd m') \<subseteq> set (snd m) \<union> V"
    and "visit_all k E path ns m = Some (Inr m') \<Longrightarrow> set ns \<subseteq> V \<Longrightarrow> \<forall>x \<in> V. set (E x) \<subseteq> V \<Longrightarrow> set (snd m') \<subseteq> set (snd m) \<union> V"
proof (induction k E path n m and k E path ns m arbitrary: m' and m' rule: visit_visit_all.induct)
  case (1 k E path n col out)
  show ?case
  proof (cases "col n")
    case White
    then obtain k' col' out' where v: "k = Suc k'" "m' = (col'(n := Black), out' @ [n])"
      "visit_all k' E (path @ [n]) (E n) (col(n := Grey), out) = Some (Inr (col', out'))"
      using "1.prems"(1) by (auto split: nat.splits option.splits sum.splits prod.splits)
    have "set (E n) \<subseteq> V" using "1.prems"(2,3) by blast
    then have "set out' \<subseteq> set out \<union> V" using "1.IH" [OF White v(1,3)] "1.prems"(3) by simp
    then show ?thesis using v(2) "1.prems"(2) by simp
  qed (use "1.prems" in simp_all)
next
  case (3 k E path n ns m)
  then obtain m1 where m1: "visit k E path n m = Some (Inr m1)" "visit_all k E path ns m1 = Some (Inr m')"
    by (auto split: option.splits sum.splits)
  have "set (snd m1) \<subseteq> set (snd m) \<union> V" using "3.IH"(1) [OF m1(1)] "3.prems"(2,3) by simp
  moreover have "set (snd m') \<subseteq> set (snd m1) \<union> V" using "3.IH"(2) [OF m1(1) refl m1(2)] "3.prems"(2,3) by simp
  ultimately show ?case by blast
qed simp

lemma search_within:
  assumes "\<forall>x \<in> set roots. set (E x) \<subseteq> set roots" "search E roots = Some (Inr (col, out))"
  shows "set out \<subseteq> set roots"
  using visit_within(2) [OF assms(2) [unfolded search_def], of "set roots"] assms(1) by simp

text \<open>Roots that are in order already finish in their order.\<close>

lemma visit_blacks: "\<forall>x \<in> set ns. col x = Black \<Longrightarrow> visit_all k E path ns (col, out) = Some (Inr (col, out))"
  by (induction ns) simp_all

lemma visit_in_order:
  "\<forall>x. col x = (if x \<in> set out then Black else White) \<Longrightarrow> ordered E (rev (out @ ns)) \<Longrightarrow> 0 < k \<Longrightarrow>
   \<exists>col'. visit_all k E [] ns (col, out) = Some (Inr (col', out @ ns))"
proof (induction ns arbitrary: col out)
  case (Cons n ns)
  obtain k' where k: "k = Suc k'" using Cons.prems(3) by (cases k) auto
  have o: "ordered E (rev ns @ n # rev out)" using Cons.prems(2) by simp
  have n: "n \<notin> set out" using ordered_no_repeat [OF o] by simp
  have "\<forall>x \<in> set (E n). (col(n := Grey)) x = Black" using ordered_tail [OF o] n Cons.prems(1) by auto
  then have "visit_all k' E [n] (E n) (col(n := Grey), out) = Some (Inr (col(n := Grey), out))" by (rule visit_blacks)
  then have "visit k E [] n (col, out) = Some (Inr (col(n := Black), out @ [n]))" using Cons.prems(1) n k by simp
  moreover have "\<exists>col'. visit_all k E [] ns (col(n := Black), out @ [n]) = Some (Inr (col', (out @ [n]) @ ns))"
    by (rule Cons.IH) (use Cons.prems in auto)
  ultimately show ?case by auto
qed simp

lemma search_in_order:
  assumes "ordered E (rev roots)" "roots \<noteq> []"
  shows "\<exists>col. search E roots = Some (Inr (col, roots))"
  unfolding search_def using visit_in_order [of "\<lambda>_. White" "[]" E roots] assms by (simp add: names_of_def)

subsection \<open>The trigger graph\<close>

lemma succs_none: "x \<notin> set (map fst E) \<Longrightarrow> succs E x = []"
  by (simp add: succs_def alget_None_iff [THEN iffD2])

lemma set_sortedKeys [simp]: "set (sortedKeys ks) = set ks"
  by (simp add: sortedKeys_def set_stable_sort)

lemma join_not_Nil: "2 \<le> length ss \<Longrightarrow> sep \<noteq> [] \<Longrightarrow> str_join ss sep \<noteq> []"
  by (cases ss; cases "tl ss") auto

text \<open>The reported loop: from the first appearance of the name that closes it, back to it.\<close>

lemma from_first_loop:
  assumes "walk E p" "last p \<in> set (butlast p)"
  shows "\<exists>c. c = from_first (last p) (butlast p) @ [last p] \<and> walk E c \<and> 2 \<le> length c \<and> hd c = last c"
proof -
  let ?m = "last p"
  obtain a b where ab: "butlast p = a @ ?m # b" "?m \<notin> set a" using assms(2) by (meson split_list_first)
  have "dropWhile (\<lambda>s. s \<noteq> ?m) (a @ ?m # b) = dropWhile (\<lambda>s. s \<noteq> ?m) (?m # b)"
    by (rule dropWhile_append2) (use ab(2) in blast)
  then have f: "from_first ?m (butlast p) = ?m # b" using assms(2) ab(1) by (simp add: from_first_def)
  have "p = butlast p @ [?m]" using assms(2) by (metis append_butlast_last_id butlast.simps(1) empty_iff list.set(1))
  then have "p = a @ (?m # b @ [?m])" using ab by simp
  then have "walk E (?m # b @ [?m])" using assms(1) by (metis successively_append_iff walk_def)
  then show ?thesis using f by simp
qed

lemma triggerCycle_cases:
  "if acyclic (edge_rel (succs E)) then triggerCycle E = []
   else \<exists>c. triggerCycle E = str_join c '' -> '' \<and> triggerCycle E \<noteq> [] \<and> walk (succs E) c \<and> 2 \<le> length c \<and> hd c = last c"
proof -
  have k: "\<forall>x. x \<notin> set (sortedKeys (map fst E)) \<longrightarrow> succs E x = []" using succs_none [of _ E] by simp
  show ?thesis
    using k
  proof (cases rule: search_decides)
    case (Loop p)
    let ?c = "from_first (last p) (butlast p) @ [last p]"
    have c: "walk (succs E) ?c" "2 \<le> length ?c" "hd ?c = last ?c"
      using from_first_loop [of "succs E" p] search_loop [OF k Loop(1)] by blast+
    have t: "triggerCycle E = str_join ?c '' -> ''" using Loop by (simp add: triggerCycle_def)
    have "triggerCycle E \<noteq> []" unfolding t by (rule join_not_Nil [OF c(2)]) simp
    with c t Loop(3) show ?thesis by (metis (no_types, lifting))
  next
    case (Order col out)
    then show ?thesis by (simp add: triggerCycle_def)
  qed
qed

lemma triggerCycle_accepts: "triggerCycle E = [] \<longleftrightarrow> acyclic (edge_rel (succs E))"
  using triggerCycle_cases [of E] by (auto split: if_splits)

text \<open>
  C12: The compiler's check of triggers refuses exactly the cyclic ones: \<open>triggerCycle\<close> answers
  the empty string if no action can, through its reactions, fire itself again, and otherwise
  the names along a closed walk of the trigger graph.
\<close>

theorem triggerCycle_decides:
  "if acyclic (edge_rel (succs E)) then triggerCycle E = []
   else \<exists>c. triggerCycle E = str_join c '' -> '' \<and> triggerCycle E \<noteq> [] \<and> walk (succs E) c \<and> 2 \<le> length c \<and> hd c = last c"
  by (rule triggerCycle_cases)

end
