(* ===== verification/Lower.thy ===== *)
theory Lower
  imports Subst Graph "HOL-Library.Multiset"
begin

text \<open>
  Lowering of parsed expressions (internal/ir/build.go: \<open>lower\<close>, \<open>low\<close> and its marks), the
  names they read (\<open>freeNames\<close>, \<open>calledNames\<close>) and the order derives are built in
  (\<open>deriveOrder\<close>). The lowered expression has the value the source has when a derive is read
  in the scope of its declaration, not of its reader.
\<close>

subsection \<open>Parsed expressions (internal/ast/ast.go)\<close>

datatype 'e ast_agg =
  AstAgg (aa_op: string) (aa_coll: string) (aa_field: string) (aa_var: string)
      (aa_where: "'e option") (aa_sel: "'e option") (aa_order: string) (aa_desc: bool)
      (aa_limit: "'e option") (aa_order_expr: "'e option") (aa_var_from_arg: bool)

datatype ast =
    ALit gval string
  | AAsset string "(gval \<times> string) option"
  | AListLit "ast list"
  | AMapLit "ast list" "ast list"
  | AStructLit string "string list" "ast list"
  | AIndex ast ast
  | ARef string
  | AGet ast string
  | AEntityGet string ast string
  | AActState string string
  | AAgg "ast ast_agg"
  | ACall string "ast list"
  | ABin string ast ast
  | AUn string ast

lemma size_ast_agg [termination_simp]:
  "aa_where a = Some e \<Longrightarrow> size e < Suc (size_ast_agg size a)"
  "aa_sel a = Some e \<Longrightarrow> size e < Suc (size_ast_agg size a)"
  "aa_limit a = Some e \<Longrightarrow> size e < Suc (size_ast_agg size a)"
  "aa_order_expr a = Some e \<Longrightarrow> size e < Suc (size_ast_agg size a)"
  by (cases a; simp)+

text \<open>
  What is declared when an expression is lowered: the policies and derives without parameters,
  inlined wherever they are read; the derives with parameters, expanded wherever they are
  called; the enums.
\<close>

record decls =
  dc_inline :: "(string \<times> expr) list"
  dc_fns :: "(string \<times> string list \<times> expr) list"
  dc_enums :: "(string \<times> string list) list"

definition is_enum :: "decls \<Rightarrow> ast \<Rightarrow> bool" where
  "is_enum D ob = (case ob of ARef r \<Rightarrow> alget (dc_enums D) r \<noteq> None | _ \<Rightarrow> False)"

definition lower_ref :: "decls \<Rightarrow> string \<Rightarrow> expr" where
  "lower_ref D n = (case alget (dc_inline D) n of Some p \<Rightarrow> p | None \<Rightarrow> IRef n)"

definition lower_call :: "decls \<Rightarrow> string \<Rightarrow> expr list \<Rightarrow> expr" where
  "lower_call D n args =
     (case alget (dc_fns D) n of Some (ps, body) \<Rightarrow> expandDerive ps body args | None \<Rightarrow> ICall n args)"

fun lower :: "decls \<Rightarrow> ast \<Rightarrow> expr" where
  "lower D (ALit v t) = ILit v t"
| "lower D (AAsset p r) = (case r of Some (v, t) \<Rightarrow> ILit v t | None \<Rightarrow> ILit GNil [])"
| "lower D (AListLit es) = IList (map (lower D) es)"
| "lower D (AMapLit ks vs) = IMap (map (lower D) ks) (map (lower D) vs)"
| "lower D (AStructLit n fs vs) = IStruct n fs (map (lower D) vs) [] []"
| "lower D (AIndex ob k) = IIndex (lower D ob) (lower D k)"
| "lower D (ARef n) = lower_ref D n"
| "lower D (AGet ob f) = (if is_enum D ob then ILit (GStr f) ''text'' else IGet (lower D ob) f)"
| "lower D (AEntityGet n k f) = IEGet n (lower D k) f"
| "lower D (AActState n op) = IAState n op"
| "lower D (AAgg a) =
     IAgg (Agg (aa_op a) (aa_coll a) (aa_field a) [] (aa_var a)
       (map_option (lower D) (aa_where a)) (map_option (lower D) (aa_sel a)) (aa_order a) (aa_desc a)
       (map_option (lower D) (aa_limit a)) (map_option (lower D) (aa_order_expr a)))"
| "lower D (ACall n es) = lower_call D n (map (lower D) es)"
| "lower D (ABin op l r) = IBin op (lower D l) (lower D r)"
| "lower D (AUn op x) = IUn op (lower D x)"

subsection \<open>The marks\<close>

text \<open>
  What \<open>low\<close> adds to a lowered expression: the text columns a min or max is over, the
  computed keys of lists ordered by a derive of the entity, and the fields of a wire type left
  out or null when empty. Each walks the sub-expressions and edits the nodes in place.
\<close>

record marks_env =
  me_field_type :: "string \<Rightarrow> string \<Rightarrow> string"
  me_ent_derive :: "string \<Rightarrow> string \<Rightarrow> expr option"
  me_optional :: "string \<Rightarrow> string \<Rightarrow> bool"
  me_nullable :: "string \<Rightarrow> string list"

text \<open>Every node of the walk over \<open>Kids\<close>, rebuilt by \<open>node\<close> on its way back.\<close>

fun map_kids :: "(expr \<Rightarrow> expr) \<Rightarrow> expr \<Rightarrow> expr" where
  "map_kids f (IGet ob g) = IGet (f ob) g"
| "map_kids f (IEGet n k g) = IEGet n (f k) g"
| "map_kids f (IAgg a) =
     IAgg (Agg (ag_op a) (ag_name a) (ag_field a) (ag_vtype a) (ag_var a) (map_option f (ag_where a))
       (map_option f (ag_sel a)) (ag_order a) (ag_desc a) (map_option f (ag_limit a)) (ag_order_by a))"
| "map_kids f (IIndex ob k) = IIndex (f ob) (f k)"
| "map_kids f (IMap ks vs) = IMap (map f ks) (map f vs)"
| "map_kids f (IStruct n fs vs om nu) = IStruct n fs (map f vs) om nu"
| "map_kids f (IList es) = IList (map f es)"
| "map_kids f (ICall n es) = ICall n (map f es)"
| "map_kids f (IUn op x) = IUn op (f x)"
| "map_kids f (IBin op l r) = IBin op (f l) (f r)"
| "map_kids f x = x"

lemma map_kids_cong [fundef_cong]:
  "x = y \<Longrightarrow> (\<And>k. k \<in> set (kids y) \<Longrightarrow> f k = g k) \<Longrightarrow> map_kids f x = map_kids g y"
  by (cases y) (auto simp: List.map_filter_def intro: option.map_cong)

lemma size_kids [termination_simp]: "k \<in> set (kids x) \<Longrightarrow> size k < size x"
proof (cases x)
  case (IAgg a)
  assume "k \<in> set (kids x)"
  then have "ag_where a = Some k \<or> ag_sel a = Some k \<or> ag_limit a = Some k"
    using IAgg by (auto simp: List.map_filter_def split: if_splits)
  then show ?thesis using size_agg_opt [of a k] IAgg by auto
qed (auto dest!: size_in_list)

definition text_agg :: "marks_env \<Rightarrow> expr \<Rightarrow> expr" where
  "text_agg M x = (case x of
     IAgg a \<Rightarrow>
       if ag_op a \<in> {''min'', ''max''} \<and> ag_field a \<noteq> [] \<and> me_field_type M (ag_name a) (ag_field a) = ''text''
       then IAgg (Agg (ag_op a) (ag_name a) (ag_field a) ''text'' (ag_var a) (ag_where a) (ag_sel a) (ag_order a)
              (ag_desc a) (ag_limit a) (ag_order_by a))
       else x
   | _ \<Rightarrow> x)"

function markTextAggs :: "marks_env \<Rightarrow> expr \<Rightarrow> expr" where
  "markTextAggs M x = map_kids (markTextAggs M) (text_agg M x)"
  by pat_completeness auto

lemma kids_text_agg [simp]: "kids (text_agg M x) = kids x"
  by (cases x) (simp_all add: text_agg_def)

termination markTextAggs
  by (relation "measure (\<lambda>(M, x). size x)") (auto dest: size_kids)

definition order_var :: "string \<Rightarrow> string" where
  "order_var v = (if v = [] then ''$item'' else v)"

definition derive_key :: "marks_env \<Rightarrow> expr \<Rightarrow> expr" where
  "derive_key M x = (case x of
     IAgg a \<Rightarrow>
       (case (if ag_order a = [] then None else me_ent_derive M (ag_name a) (ag_order a)) of
          None \<Rightarrow> x
        | Some d \<Rightarrow>
            IAgg (Agg (ag_op a) (ag_name a) (ag_field a) (ag_vtype a) (order_var (ag_var a)) (ag_where a) (ag_sel a) []
              (ag_desc a) (ag_limit a)
              (Some (fst (substParams [(''$row'', IRef (order_var (ag_var a)))] [] [] d)))))
   | _ \<Rightarrow> x)"

lemma kids_derive_key [simp]: "kids (derive_key M x) = kids x"
  by (cases x) (simp_all add: derive_key_def split: option.split)

function deriveOrders :: "marks_env \<Rightarrow> expr \<Rightarrow> expr" where
  "deriveOrders M x = map_kids (deriveOrders M) (derive_key M x)"
  by pat_completeness auto

termination deriveOrders
  by (relation "measure (\<lambda>(M, x). size x)") (auto dest: size_kids)

definition omit_struct :: "marks_env \<Rightarrow> expr \<Rightarrow> expr" where
  "omit_struct M x = (case x of
     IStruct n fs vs [] nu \<Rightarrow> IStruct n fs vs (filter (me_optional M n) fs) (me_nullable M n)
   | _ \<Rightarrow> x)"

lemma kids_omit_struct [simp]: "kids (omit_struct M x) = kids x"
  by (cases x) (simp_all add: omit_struct_def split: list.split)

definition map_order :: "(expr \<Rightarrow> expr) \<Rightarrow> expr \<Rightarrow> expr" where
  "map_order f x = (case x of
     IAgg a \<Rightarrow> IAgg (Agg (ag_op a) (ag_name a) (ag_field a) (ag_vtype a) (ag_var a) (ag_where a) (ag_sel a) (ag_order a)
       (ag_desc a) (ag_limit a) (map_option f (ag_order_by a)))
   | _ \<Rightarrow> x)"

lemma map_order_cong [fundef_cong]:
  "x = y \<Longrightarrow> (\<And>a k. y = IAgg a \<Longrightarrow> ag_order_by a = Some k \<Longrightarrow> f k = g k) \<Longrightarrow> map_order f x = map_order g y"
  by (cases y) (auto simp: map_order_def intro: option.map_cong)

lemma kids_map_order [simp]: "kids (map_order f x) = kids x"
  by (cases x) (simp_all add: map_order_def)

function markOmits :: "marks_env \<Rightarrow> expr \<Rightarrow> expr" where
  "markOmits M x = map_order (markOmits M) (map_kids (markOmits M) (omit_struct M x))"
  by pat_completeness auto

lemma map_kids_agg: "map_kids f (omit_struct M x) = IAgg a \<Longrightarrow> \<exists>b. x = IAgg b \<and> ag_order_by a = ag_order_by b"
  by (cases x) (auto simp: omit_struct_def split: list.splits)

termination markOmits
  by (relation "measure (\<lambda>(M, x). size x)") (auto dest!: size_kids map_kids_agg simp: size_agg_opt)

definition low :: "marks_env \<Rightarrow> decls \<Rightarrow> ast \<Rightarrow> expr" where
  "low M D ex = markOmits M (deriveOrders M (markTextAggs M (lower D ex)))"

declare markTextAggs.simps [simp del] deriveOrders.simps [simp del] markOmits.simps [simp del]

subsection \<open>The names an expression reads\<close>

fun freeNames :: "ast \<Rightarrow> string list" where
  "freeNames (ARef n) = [n]"
| "freeNames (AGet ob f) = freeNames ob"
| "freeNames (AEntityGet n k f) = n # freeNames k"
| "freeNames (AAgg a) = aa_coll a
     # filter (\<lambda>n. n \<noteq> aa_var a)
         ((case aa_where a of Some e \<Rightarrow> freeNames e | None \<Rightarrow> []) @ (case aa_sel a of Some e \<Rightarrow> freeNames e | None \<Rightarrow> [])
          @ (case aa_order_expr a of Some e \<Rightarrow> freeNames e | None \<Rightarrow> []))
     @ (case aa_limit a of Some e \<Rightarrow> freeNames e | None \<Rightarrow> [])"
| "freeNames (ACall n es) = concat (map freeNames es)"
| "freeNames (AListLit es) = concat (map freeNames es)"
| "freeNames (AMapLit ks vs) = concat (map freeNames ks) @ concat (map freeNames vs)"
| "freeNames (AStructLit n fs vs) = concat (map freeNames vs)"
| "freeNames (AIndex ob k) = freeNames ob @ freeNames k"
| "freeNames (ABin op l r) = freeNames l @ freeNames r"
| "freeNames (AUn op x) = freeNames x"
| "freeNames _ = []"

text \<open>The names of the calls; the computed key of an ordered list is not looked at.\<close>

fun calledNames :: "ast \<Rightarrow> string list" where
  "calledNames (ACall n es) = n # concat (map calledNames es)"
| "calledNames (AAgg a) =
     (case aa_where a of Some e \<Rightarrow> calledNames e | None \<Rightarrow> []) @ (case aa_sel a of Some e \<Rightarrow> calledNames e | None \<Rightarrow> [])
     @ (case aa_limit a of Some e \<Rightarrow> calledNames e | None \<Rightarrow> [])"
| "calledNames (AGet ob f) = calledNames ob"
| "calledNames (AEntityGet n k f) = calledNames k"
| "calledNames (ABin op l r) = calledNames l @ calledNames r"
| "calledNames (AUn op x) = calledNames x"
| "calledNames (AListLit es) = concat (map calledNames es)"
| "calledNames (AStructLit n fs vs) = concat (map calledNames vs)"
| "calledNames (AMapLit ks vs) = concat (map calledNames ks) @ concat (map calledNames vs)"
| "calledNames (AIndex ob k) = calledNames ob @ calledNames k"
| "calledNames _ = []"

subsection \<open>The order of derives\<close>

record derive_decl =
  de_name :: string
  de_params :: "string list"
  de_expr :: ast

definition derive_reads :: "derive_decl \<Rightarrow> string list" where
  "derive_reads d = filter (\<lambda>n. n \<notin> set (de_params d)) (freeNames (de_expr d) @ calledNames (de_expr d))"

text \<open>The derives a derive reads, in the order they are visited: names sorted, the last of a name kept.\<close>

definition by_name :: "derive_decl list \<Rightarrow> string \<Rightarrow> derive_decl option" where
  "by_name ds n = map_of (map (\<lambda>d. (de_name d, d)) (rev ds)) n"

definition derive_deps :: "derive_decl list \<Rightarrow> string \<Rightarrow> string list" where
  "derive_deps ds n = (case by_name ds n of
     None \<Rightarrow> []
   | Some d \<Rightarrow> filter (\<lambda>m. by_name ds m \<noteq> None) (sortedKeys (derive_reads d)))"

text \<open>A derive defined through itself is an error that names the path round.\<close>

definition deriveOrder :: "derive_decl list \<Rightarrow> string list + derive_decl list" where
  "deriveOrder ds =
     (case search (derive_deps ds) (map de_name ds) of
        Some (Inr (_, out)) \<Rightarrow> Inr (List.map_filter (by_name ds) out)
      | Some (Inl p) \<Rightarrow> Inl p
      | None \<Rightarrow> Inl [])"

text \<open>A list of derives in which each comes after the derives it reads.\<close>

definition follows :: "derive_decl list \<Rightarrow> bool" where
  "follows ds \<longleftrightarrow> (\<forall>a d b e. ds = a @ d # b \<longrightarrow> e \<in> set ds \<longrightarrow> de_name e \<in> set (derive_reads d) \<longrightarrow> e \<in> set a)"

lemma by_name_iff:
  "distinct (map de_name ds) \<Longrightarrow> by_name ds n = Some d \<longleftrightarrow> d \<in> set ds \<and> de_name d = n"
  by (auto simp: by_name_def distinct_map inj_on_def map_of_eq_Some_iff comp_def rev_map [symmetric])

lemma by_name_None: "by_name ds n = None \<longleftrightarrow> n \<notin> de_name ` set ds"
  by (simp add: by_name_def map_of_eq_None_iff image_image)

lemma deps_iff:
  "distinct (map de_name ds) \<Longrightarrow> d \<in> set ds \<Longrightarrow>
   n \<in> set (derive_deps ds (de_name d)) \<longleftrightarrow> n \<in> de_name ` set ds \<and> n \<in> set (derive_reads d)"
  using by_name_iff [of ds "de_name d" d] by_name_None [of ds] by (auto simp: derive_deps_def)

lemma names_back:
  assumes "distinct (map de_name ds)" "set ns \<subseteq> de_name ` set ds"
  shows "map de_name (List.map_filter (by_name ds) ns) = ns \<and> set (List.map_filter (by_name ds) ns) \<subseteq> set ds"
  using assms(2)
proof (induction ns)
  case (Cons n ns)
  then obtain d where "d \<in> set ds" "de_name d = n" by auto
  then have "by_name ds n = Some d" using by_name_iff [OF assms(1)] by blast
  then show ?case using Cons \<open>d \<in> set ds\<close> \<open>de_name d = n\<close> by (simp add: List.map_filter_simps)
qed (simp add: List.map_filter_simps)

lemma follows_ordered:
  assumes d: "distinct (map de_name ds)" and sub: "set ds' = set ds" "distinct (map de_name ds')"
  shows "follows ds' \<longleftrightarrow> ordered (derive_deps ds) (rev (map de_name ds'))"
proof
  assume f: "follows ds'"
  have "ordered (derive_deps ds) (rev (map de_name a))" if "\<exists>b. ds' = a @ b" for a
    using that
  proof (induction a rule: rev_induct)
    case (snoc x a)
    then obtain b where b: "ds' = a @ x # b" by auto
    have "x \<in> set ds" using b sub(1) by auto
    have "set (derive_deps ds (de_name x)) \<subseteq> de_name ` set a"
    proof
      fix n
      assume "n \<in> set (derive_deps ds (de_name x))"
      then obtain e where "e \<in> set ds'" "de_name e = n" "n \<in> set (derive_reads x)"
        using deps_iff [OF d \<open>x \<in> set ds\<close>] sub(1) by auto
      then show "n \<in> de_name ` set a" using f b unfolding follows_def by blast
    qed
    moreover have "de_name x \<notin> de_name ` set a" using sub(2) b by auto
    ultimately show ?case using snoc b by auto
  qed simp
  then show "ordered (derive_deps ds) (rev (map de_name ds'))" by simp
next
  assume o: "ordered (derive_deps ds) (rev (map de_name ds'))"
  show "follows ds'"
    unfolding follows_def
  proof (intro allI impI)
    fix a x b e
    assume x: "ds' = a @ x # b" and e: "e \<in> set ds'" "de_name e \<in> set (derive_reads x)"
    have "set (derive_deps ds (de_name x)) \<subseteq> de_name ` set a"
      using ordered_tail [of "derive_deps ds" "rev (map de_name b)" "de_name x" "rev (map de_name a)"] o x by simp
    moreover have "de_name e \<in> set (derive_deps ds (de_name x))"
      using deps_iff [OF d, of x "de_name e"] e x sub(1) by auto
    ultimately obtain y where "y \<in> set a" "de_name y = de_name e" by auto
    moreover have "inj_on de_name (set ds')" using sub(2) unfolding distinct_map by blast
    moreover have "y \<in> set ds'" using x calculation by simp
    ultimately show "e \<in> set a" using e(1) by (metis inj_onD)
  qed
qed

lemma map_filter_by_name:
  assumes "distinct (map de_name ds)"
  shows "List.map_filter (by_name ds) (map de_name ds) = ds"
proof -
  have "List.map_filter (by_name ds) (map de_name es) = es" if "set es \<subseteq> set ds" for es
    using that by (induction es) (auto simp: List.map_filter_simps by_name_iff [OF assms, THEN iffD2])
  then show ?thesis by simp
qed


text \<open>\<open>derive older(p) = p.n > newest\<close> is built after \<open>derive newest = max(w.n in Work)\<close>.\<close>

definition ex_derives :: "derive_decl list" where
  "ex_derives =
     [\<lparr>de_name = ''older'', de_params = [''p''], de_expr = ABin ''>'' (AGet (ARef ''p'') ''n'') (ARef ''newest'')\<rparr>,
      \<lparr>de_name = ''newest'', de_params = [], de_expr = AAgg (AstAgg ''max'' ''Work'' ''n'' [] None None [] False None None False)\<rparr>]"


text \<open>A derive called only in the computed key of a list is not built first.\<close>

theorem order_key_call_missed:
  "deriveOrder
     [\<lparr>de_name = ''top'', de_params = [], de_expr = AAgg (AstAgg ''list'' ''Work'' [] ''w'' None None [] False None
         (Some (ACall ''rank'' [ARef ''w''])) False)\<rparr>,
      \<lparr>de_name = ''rank'', de_params = [''w''], de_expr = AGet (ARef ''w'') ''n''\<rparr>]
   = Inr
     [\<lparr>de_name = ''top'', de_params = [], de_expr = AAgg (AstAgg ''list'' ''Work'' [] ''w'' None None [] False None
         (Some (ACall ''rank'' [ARef ''w''])) False)\<rparr>,
      \<lparr>de_name = ''rank'', de_params = [''w''], de_expr = AGet (ARef ''w'') ''n''\<rparr>]"
  by code_simp

text \<open>A maximum over a text column in the computed key of a list is not marked as one over text.\<close>

theorem order_key_text_unmarked:
  "markTextAggs \<lparr>me_field_type = (\<lambda>e f. ''text''), me_ent_derive = (\<lambda>e d. None), me_optional = (\<lambda>t f. False), me_nullable = (\<lambda>t. [])\<rparr>
     (IAgg (Agg ''list'' ''Author'' [] [] ''a'' None None [] False None (Some (IAgg (Agg ''max'' ''Book'' ''title'' [] [] None None [] False None None)))))
   = IAgg (Agg ''list'' ''Author'' [] [] ''a'' None None [] False None (Some (IAgg (Agg ''max'' ''Book'' ''title'' [] [] None None [] False None None))))"
  by (simp add: markTextAggs.simps text_agg_def)

end
