(* ===== verification/LowerLaws.thy ===== *)
theory LowerLaws
  imports Lower
begin

text \<open>
  What lowering preserves: an expression means what it says with every derive read in the
  scope it is declared in.
\<close>

subsection \<open>The value of a source expression\<close>

definition bind_values :: "string list \<Rightarrow> gval list \<Rightarrow> scope \<Rightarrow> scope" where
  "bind_values ps vs sc = fold (\<lambda>(p, v) r. alput r p v) (zip ps vs) sc"

definition plain_agg :: "ast ast_agg \<Rightarrow> expr agg" where
  "plain_agg a = Agg (aa_op a) (aa_coll a) (aa_field a) [] (aa_var a) None None (aa_order a) (aa_desc a) None None"

text \<open>
  The scope \<open>G\<close> is the one declarations are read in, \<open>sc\<close> the one of the expression, which
  item variables extend.
\<close>

fun sev :: "ectx \<Rightarrow> decls \<Rightarrow> scope \<Rightarrow> scope \<Rightarrow> ast \<Rightarrow> gval" where
  "sev C D G sc (ALit v t) = litValue v t"
| "sev C D G sc (AAsset p r) = (case r of Some (v, t) \<Rightarrow> litValue v t | None \<Rightarrow> litValue GNil [])"
| "sev C D G sc (AListLit es) = GList (map (sev C D G sc) es)"
| "sev C D G sc (AMapLit ks vs) = GNil"
| "sev C D G sc (AStructLit n fs vs) = struct_value fs (map (sev C D G sc) vs) [] []"
| "sev C D G sc (AIndex ob k) = indexValue (sev C D G sc ob) (sev C D G sc k)"
| "sev C D G sc (ARef n) = (case alget (dc_inline D) n of Some e \<Rightarrow> eval C G e | None \<Rightarrow> field sc n)"
| "sev C D G sc (AGet ob f) =
     (if is_enum D ob then GStr f else case sev C D G sc ob of GRec m \<Rightarrow> field m f | _ \<Rightarrow> GNil)"
| "sev C D G sc (AEntityGet n k f) = entity_get False (list_of (field sc n)) (sev C D G sc k) f"
| "sev C D G sc (AActState n op) = (if op = ''failed'' then GStr [] else GBool False)"
| "sev C D G sc (AAgg a) =
     aggregate False (plain_agg a) (list_of (field sc (aa_coll a)))
       (map_option (\<lambda>e. toInt (sev C D G sc e)) (aa_limit a))
       (map_option (\<lambda>e r. truthy (sev C D G (alput sc (aa_var a) r) e)) (aa_where a))
       (map_option (\<lambda>e r. sev C D G (alput sc (aa_var a) r) e) (aa_sel a))
       (map_option (\<lambda>e r. sev C D G (alput sc (aa_var a) r) e) (aa_order_expr a)) None"
| "sev C D G sc (ACall n es) =
     (case alget (dc_fns D) n of
        Some (ps, body) \<Rightarrow> eval C (bind_values ps (map (sev C D G sc) es) G) body
      | None \<Rightarrow> evalCall C n (map (sev C D G sc) es))"
| "sev C D G sc (ABin op l r) =
     (if op = ''&&'' then GBool (truthy (sev C D G sc l) \<and> truthy (sev C D G sc r))
      else if op = ''||'' then GBool (truthy (sev C D G sc l) \<or> truthy (sev C D G sc r))
      else applyBin op (sev C D G sc l) (sev C D G sc r))"
| "sev C D G sc (AUn op x) = unary op (sev C D G sc x)"

text \<open>
  Declarations over the names \<open>R\<close> and the collections \<open>K\<close>, and an expression whose item
  variables are none of those names.
\<close>

definition decls_ok :: "string set \<Rightarrow> string set \<Rightarrow> decls \<Rightarrow> bool" where
  "decls_ok R K D \<longleftrightarrow> [] \<notin> R
     \<and> (\<forall>(n, e) \<in> set (dc_inline D). tidy K e \<and> reads e \<subseteq> R)
     \<and> (\<forall>(n, ps, body) \<in> set (dc_fns D). derivable body \<and> tidy K body \<and> set ps \<inter> set (colls body) = {}
          \<and> vars_apart (set (binders body)) K \<and> reads body - set ps \<subseteq> R)"

fun source_ok :: "string set \<Rightarrow> string set \<Rightarrow> decls \<Rightarrow> ast \<Rightarrow> bool" where
  "source_ok R K D (AListLit es) = list_all (source_ok R K D) es"
| "source_ok R K D (AMapLit ks vs) = (list_all (source_ok R K D) ks \<and> list_all (source_ok R K D) vs)"
| "source_ok R K D (AStructLit n fs vs) = list_all (source_ok R K D) vs"
| "source_ok R K D (AIndex ob k) = (source_ok R K D ob \<and> source_ok R K D k)"
| "source_ok R K D (ARef n) = (n \<noteq> [])"
| "source_ok R K D (AGet ob f) = source_ok R K D ob"
| "source_ok R K D (AEntityGet n k f) = (n \<in> K \<and> source_ok R K D k)"
| "source_ok R K D (AAgg a) =
     (aa_coll a \<in> K \<and> aa_var a \<notin> R
      \<and> (case aa_where a of Some e \<Rightarrow> source_ok R K D e | None \<Rightarrow> True)
      \<and> (case aa_sel a of Some e \<Rightarrow> source_ok R K D e | None \<Rightarrow> True)
      \<and> (case aa_limit a of Some e \<Rightarrow> source_ok R K D e | None \<Rightarrow> True)
      \<and> (case aa_order_expr a of Some e \<Rightarrow> source_ok R K D e | None \<Rightarrow> True))"
| "source_ok R K D (ACall n es) =
     (n \<noteq> ''given'' \<and> list_all (source_ok R K D) es
      \<and> (case alget (dc_fns D) n of Some (ps, body) \<Rightarrow> length es = length ps | None \<Rightarrow> True))"
| "source_ok R K D (ABin op l r) = (source_ok R K D l \<and> source_ok R K D r)"
| "source_ok R K D (AUn op x) = source_ok R K D x"
| "source_ok R K D _ = True"

lemma decls_inline:
  "decls_ok R K D \<Longrightarrow> alget (dc_inline D) n = Some e \<Longrightarrow> tidy K e \<and> reads e \<subseteq> R"
  by (auto simp: decls_ok_def dest!: alget_Some_mem)

lemma decls_fn:
  "decls_ok R K D \<Longrightarrow> alget (dc_fns D) n = Some (ps, body) \<Longrightarrow>
   derivable body \<and> tidy K body \<and> set ps \<inter> set (colls body) = {} \<and> vars_apart (set (binders body)) K \<and> reads body - set ps \<subseteq> R"
  by (fastforce simp: decls_ok_def dest!: alget_Some_mem)

lemma size_in_asts: "x \<in> set xs \<Longrightarrow> size (x :: ast) < Suc (size_list size xs)"
  by (induction xs) auto

lemma expandDerive_tidy:
  assumes "tidy K body" "\<forall>a \<in> set args. tidy K a"
  shows "tidy K (expandDerive ps body args)"
  unfolding expandDerive_def Let_def
  by (rule substParams_tidy [OF assms(1)])
    (use assms(2) set_zip_rightD in \<open>fastforce simp: fold_put_get split: option.splits dest!: map_of_SomeD\<close>)

lemma lower_tidy: "decls_ok R K D \<Longrightarrow> source_ok R K D x \<Longrightarrow> tidy K (lower D x)"
proof (induction D x rule: lower.induct)
  case (12 D n es)
  have args: "\<forall>a \<in> set (map (lower D) es). tidy K a" using 12 by (auto simp: list_all_iff)
  show ?case
  proof (cases "alget (dc_fns D) n")
    case None
    then show ?thesis using args by (simp add: lower_call_def list_all_iff)
  next
    case (Some f)
    then obtain ps body where f: "f = (ps, body)" by fastforce
    have "tidy K body" using decls_fn [OF 12(2)] Some f by blast
    then show ?thesis using expandDerive_tidy args Some f by (simp add: lower_call_def)
  qed
next
  case (7 D n)
  then show ?case using decls_inline [OF 7(1)] by (auto simp: lower_ref_def split: option.split)
qed (auto simp: list_all_iff split: option.splits)

subsection \<open>Lowering keeps the value\<close>

lemma bind_values_get:
  "field (bind_values ps vs sc) n = (case map_of (rev (zip ps vs)) n of Some v \<Rightarrow> v | None \<Rightarrow> field sc n)"
proof -
  have "alget (fold (\<lambda>(p, v) r. alput r p v) xs m) n
     = (case map_of (rev xs) n of Some v \<Rightarrow> Some v | None \<Rightarrow> alget m n)" for xs :: scope and m
    by (induction xs arbitrary: m) (auto simp: map_add_def split: option.split)
  then show ?thesis by (simp add: bind_values_def field_def split: option.split)
qed

lemma call_scope_values: "call_scope C sc ps args = bind_values ps (map (eval C sc) args) sc"
proof -
  have "fold (\<lambda>(p, a) r. alput r p (eval C sc a)) (zip ps args) m
      = fold (\<lambda>(p, v) r. alput r p v) (zip ps (map (eval C sc) args)) m" for m
    by (induction ps args arbitrary: m rule: list_induct2') auto
  then show ?thesis by (simp add: call_scope_def bind_values_def)
qed

lemma bind_values_agree:
  assumes "length vs = length ps" "N - set ps \<subseteq> R" "\<forall>n \<in> R. field sc n = field G n" "n \<in> N"
  shows "field (bind_values ps vs sc) n = field (bind_values ps vs G) n"
proof (cases "n \<in> set ps")
  case True
  moreover have "fst ` set (zip ps vs) = set ps" using assms(1) by (metis list.set_map map_fst_zip)
  ultimately have "map_of (rev (zip ps vs)) n \<noteq> None" by (simp add: map_of_eq_None_iff)
  then show ?thesis by (auto simp: bind_values_get)
next
  case False
  then have "n \<in> R" using assms(2,4) by blast
  then show ?thesis using assms(3) by (simp add: bind_values_get split: option.split)
qed

lemma vars_apart_mono: "vars_apart V K \<Longrightarrow> K' \<subseteq> K \<Longrightarrow> vars_apart V K'"
  unfolding vars_apart_def by blast

lemma lower_call_value:
  assumes C: "\<not> ec_indexing C" and d: "decls_ok R K D" and fn: "alget (dc_fns D) n = Some (ps, body)"
    and l: "length args = length ps" and t: "\<forall>a \<in> set args. tidy K a" and ag: "\<forall>n \<in> R. field sc n = field G n"
  shows "eval C sc (lower_call D n args) = eval C (bind_values ps (map (eval C sc) args) G) body"
proof -
  have b: "derivable body" "tidy K body" "set ps \<inter> set (colls body) = {}" "vars_apart (set (binders body)) K"
    "reads body - set ps \<subseteq> R"
    using decls_fn [OF d fn] by blast+
  have K: "set (colls body) \<union> (\<Union>a \<in> set args. set (colls a)) \<subseteq> K" using b(2) t by (auto simp: tidy_def)
  have "eval C sc (expandDerive ps body args) = eval C (call_scope C sc ps args) body"
    by (rule expandDerive_eval [OF C l b(1,3) vars_apart_mono [OF b(4) K]]) (use b(2) t in \<open>auto simp: tidy_def\<close>)
  also have "\<dots> = eval C (bind_values ps (map (eval C sc) args) G) body"
    unfolding call_scope_values by (rule eval_cong_reads) (use bind_values_agree [OF _ b(5) ag] l in simp)
  finally show ?thesis by (simp add: lower_call_def fn)
qed

lemma agree_item:
  "\<forall>n \<in> R. field sc n = field G n \<Longrightarrow> v \<notin> R \<Longrightarrow> \<forall>n \<in> R. field (alput sc v r) n = field G n"
  by (auto simp: field_def)

lemma lower_value:
  assumes C: "\<not> ec_indexing C" and d: "decls_ok R K D"
  shows "source_ok R K D x \<Longrightarrow> \<forall>n \<in> R. field sc n = field G n \<Longrightarrow> eval C sc (lower D x) = sev C D G sc x"
proof (induction x arbitrary: sc rule: measure_induct_rule [where f = size])
  case (less x)
  have list: "map (eval C sc) (map (lower D) es) = map (sev C D G sc) es"
    if "\<And>y. y \<in> set es \<Longrightarrow> size y < size x" "list_all (source_ok R K D) es" for es
    using that less by (auto simp: list_all_iff)
  have one: "eval C sc (lower D y) = sev C D G sc y" if "size y < size x" "source_ok R K D y" for y
    using that less by blast
  show ?case
  proof (cases x)
    case (ARef n)
    show ?thesis
    proof (cases "alget (dc_inline D) n")
      case (Some e)
      have "reads e \<subseteq> R" using decls_inline [OF d Some] by blast
      then have "eval C sc e = eval C G e" using less.prems(2) by (blast intro: eval_cong_reads)
      then show ?thesis using ARef Some by (simp add: lower_ref_def)
    qed (simp add: ARef lower_ref_def)
  next
    case (AAgg a)
    have item: "eval C (alput sc (aa_var a) r) (lower D e) = sev C D G (alput sc (aa_var a) r) e"
      if "aa_where a = Some e \<or> aa_sel a = Some e \<or> aa_order_expr a = Some e" for e r
    proof (rule less.IH)
      show "size e < size x" using size_ast_agg [of a e] that AAgg by auto
      show "source_ok R K D e" using that AAgg less.prems(1) by auto
      show "\<forall>n \<in> R. field (alput sc (aa_var a) r) n = field G n"
        using agree_item less.prems AAgg by simp
    qed
    have lim: "map_option (\<lambda>e. toInt (eval C sc e)) (map_option (lower D) (aa_limit a)) = map_option (\<lambda>e. toInt (sev C D G sc e)) (aa_limit a)"
      using one size_ast_agg(3) [of a] AAgg less.prems(1) by (cases "aa_limit a") auto
    have w: "map_option (\<lambda>e r. truthy (eval C (alput sc (aa_var a) r) e)) (map_option (lower D) (aa_where a))
        = map_option (\<lambda>e r. truthy (sev C D G (alput sc (aa_var a) r) e)) (aa_where a)"
      using item by (cases "aa_where a") auto
    have s: "map_option (\<lambda>e r. eval C (alput sc (aa_var a) r) e) (map_option (lower D) (aa_sel a))
        = map_option (\<lambda>e r. sev C D G (alput sc (aa_var a) r) e) (aa_sel a)"
      using item by (cases "aa_sel a") auto
    have k: "map_option (\<lambda>e r. eval C (alput sc (aa_var a) r) e) (map_option (lower D) (aa_order_expr a))
        = map_option (\<lambda>e r. sev C D G (alput sc (aa_var a) r) e) (aa_order_expr a)"
      using item by (cases "aa_order_expr a") auto
    show ?thesis
      unfolding AAgg lower.simps sev.simps eval_scan [OF C] scan_answer_def agg.sel lim w s k plain_agg_def
      by (rule fun_cong [OF fun_cong [OF fun_cong [OF fun_cong [OF fun_cong [OF fun_cong [OF aggregate_var]]]]]])
  next
    case (ACall n es)
    have l: "map (eval C sc) (map (lower D) es) = map (sev C D G sc) es"
      using list [of es] less.prems(1) ACall by (auto dest: size_in_asts)
    show ?thesis
    proof (cases "alget (dc_fns D) n")
      case None
      have "given_ref n (map (lower D) es) = None" using less.prems(1) ACall by (auto simp: given_ref_def split: list.split expr.split)
      then show ?thesis using None l ACall by (simp only: lower.simps lower_call_def option.case eval.simps sev.simps)
    next
      case (Some f)
      then obtain ps body where f: "alget (dc_fns D) n = Some (ps, body)" by (cases f) simp
      have "\<forall>a \<in> set (map (lower D) es). tidy K a" using lower_tidy [OF d] less.prems(1) ACall by (auto simp: list_all_iff)
      moreover have "length (map (lower D) es) = length ps" using less.prems(1) ACall f by simp
      ultimately have "eval C sc (lower_call D n (map (lower D) es)) = eval C (bind_values ps (map (eval C sc) (map (lower D) es)) G) body"
        using lower_call_value [OF C d f _ _ less.prems(2)] by blast
      then show ?thesis unfolding ACall lower.simps sev.simps l by (simp only: f option.case prod.case)
    qed
  next
    case (AGet ob f)
    then show ?thesis using one [of ob] less.prems(1) by (simp add: litValue_def)
  next
    case (AEntityGet n k f)
    then show ?thesis using one [of k] less.prems(1) C by simp
  next
    case (AStructLit n fs vs)
    then have "map (eval C sc) (map (lower D) vs) = map (sev C D G sc) vs"
      using list [of vs] less.prems(1) by (auto dest: size_in_asts)
    then show ?thesis unfolding AStructLit lower.simps sev.simps eval.simps by (simp only:)
  next
    case (AListLit vs)
    then have "map (eval C sc) (map (lower D) vs) = map (sev C D G sc) vs"
      using list [of vs] less.prems(1) by (auto dest: size_in_asts)
    then show ?thesis unfolding AListLit lower.simps sev.simps eval.simps by (simp only:)
  next
    case (AIndex ob k)
    then show ?thesis using one [of ob] one [of k] less.prems(1) by simp
  next
    case (ABin op l r)
    then show ?thesis using one [of l] one [of r] less.prems(1) by simp
  next
    case (AUn op y)
    then show ?thesis using one [of y] less.prems(1) by simp
  qed (simp_all split: option.split)
qed

text \<open>
  C8: A lowered expression has the value the source has when every policy and derive it reads
  is evaluated in the scope of the declarations and every call binds the derive's parameters to
  the values of its arguments: inlining, expansion and the folding of enum members change
  nothing. The item variables of the source are none of the names the declarations read
  (\<open>inline_captures_item\<close> shows why), and no item variable of a derive, nor a name it could be
  renamed to, is the name of a collection.
\<close>

theorem lower_keeps_value:
  assumes "\<not> ec_indexing C" "decls_ok R K D" "source_ok R K D x"
  shows "eval C G (lower D x) = sev C D G G x"
  by (rule lower_value [OF assms]) simp

text \<open>
  \<open>derive quota = count(w in Work where w.n <= limit)\<close> over a cell \<open>limit\<close>, and a count of the
  plans that allow it.
\<close>

definition ex_decls :: decls where
  "ex_decls = \<lparr>dc_inline = [(''quota'', IAgg (Agg ''count'' ''Work'' [] [] ''w''
       (Some (IBin ''=='' (IGet (IRef ''w'') ''n'') (IRef ''limit''))) None [] False None None))],
     dc_fns = [(''older'', [''p''], ex_derive)], dc_enums = []\<rparr>"

definition ex_query :: "string \<Rightarrow> ast" where
  "ex_query v = AAgg (AstAgg ''count'' ''Plan'' [] v
     (Some (ABin ''&&'' (ABin ''=='' (AGet (ARef v) ''n'') (ARef ''quota'')) (ABin ''=='' (ACall ''older'' [ARef v]) (ALit (GInt 1) ''int''))))
     None [] False None None False)"

definition ex_cells :: scope where
  "ex_cells = [(''Work'', GList [GRec [(''n'', GInt 1)], GRec [(''n'', GInt 2)]]), (''limit'', GInt 2),
     (''Plan'', GList [GRec [(''n'', GInt 1)], GRec [(''n'', GInt 9)]])]"

lemma ex_decls_ok: "decls_ok {''w'', ''limit'', ''Work'', ''p''} {''Work'', ''Plan''} ex_decls"
  by (auto simp: decls_ok_def ex_decls_def ex_derive_def reads_def vars_apart_def)

theorem lower_keeps_value_witness:
  "eval plain_ctx ex_cells (lower ex_decls (ex_query ''q'')) = sev plain_ctx ex_decls ex_cells ex_cells (ex_query ''q'')
   \<and> sev plain_ctx ex_decls ex_cells ex_cells (ex_query ''q'') = GInt 1"
proof
  show "eval plain_ctx ex_cells (lower ex_decls (ex_query ''q'')) = sev plain_ctx ex_decls ex_cells ex_cells (ex_query ''q'')"
    by (rule lower_keeps_value [OF _ ex_decls_ok]) (simp_all add: plain_ctx_def ex_query_def ex_decls_def)
  show "sev plain_ctx ex_decls ex_cells ex_cells (ex_query ''q'') = GInt 1"
    by code_simp
qed

text \<open>With the item variable named \<open>limit\<close> the inlined derive compares with the row, and counts nothing.\<close>

theorem inline_captures_item:
  "eval plain_ctx ex_cells (lower ex_decls (ex_query ''limit'')) = GInt 0"
  "sev plain_ctx ex_decls ex_cells ex_cells (ex_query ''limit'') = GInt 1"
  by code_simp+

end
