(* ===== verification/Chains.thy ===== *)
theory Chains
  imports ActionSafety Graph
begin

text \<open>
  Reactions and the compiler's check of them: an acyclic trigger graph over at most 64 actions
  never meets the run-time depth cap, so every reaction of every success runs; a longer
  acyclic chain does meet it.
\<close>

definition trigger_edges :: "(string \<times> string) list \<Rightarrow> edges" where
  "trigger_edges ts = fold (\<lambda>(on, act) E. alput E on (succs E on @ [act])) ts []"

text \<open>A loaded program's table of actions names each action by its own name.\<close>

definition named_actions :: "app \<Rightarrow> bool" where
  "named_actions A \<longleftrightarrow> (\<forall>n act. alget (ap_actions A) n = Some act \<longrightarrow> ac_name act = n)"

lemma trigger_edges_succs: "succs (trigger_edges ts) x = map snd (filter (\<lambda>p. fst p = x) ts)"
proof -
  have "succs (fold (\<lambda>(on, act) E. alput E on (succs E on @ [act])) ts E) x = succs E x @ map snd (filter (\<lambda>p. fst p = x) ts)" for E
    by (induction ts arbitrary: E) (auto simp: succs_def)
  from this [of "[]"] show ?thesis by (simp add: trigger_edges_def succs_def)
qed

lemma reactions_edge:
  "named_actions A \<Longrightarrow> a \<in> set (reactions A n) \<Longrightarrow> (n, ac_name a) \<in> edge_rel (succs (trigger_edges (ap_triggers A)))"
  by (force simp: reactions_def List.map_filter_def edge_rel_def trigger_edges_succs named_actions_def split: if_splits)

text \<open>The names an action can reach through reactions.\<close>

definition reach_names :: "app \<Rightarrow> string \<Rightarrow> string set" where
  "reach_names A n = {m. (n, m) \<in> (edge_rel (succs (trigger_edges (ap_triggers A))))\<^sup>*} \<inter> fst ` set (ap_triggers A)"

lemma finite_reach: "finite (reach_names A n)"
  by (simp add: reach_names_def)

lemma reach_less:
  assumes "acyclic (edge_rel (succs (trigger_edges (ap_triggers A))))" "named_actions A" "a \<in> set (reactions A n)"
  shows "card (reach_names A (ac_name a)) < card (reach_names A n)"
proof (rule psubset_card_mono [OF finite_reach])
  let ?R = "edge_rel (succs (trigger_edges (ap_triggers A)))"
  have e: "(n, ac_name a) \<in> ?R" by (rule reactions_edge [OF assms(2,3)])
  have "n \<in> fst ` set (ap_triggers A)" using e by (auto simp: edge_rel_def trigger_edges_succs)
  then have "n \<in> reach_names A n" by (simp add: reach_names_def)
  moreover have "n \<notin> reach_names A (ac_name a)"
  proof
    assume "n \<in> reach_names A (ac_name a)"
    then have "(ac_name a, n) \<in> ?R\<^sup>*" by (simp add: reach_names_def)
    with e have "(n, n) \<in> ?R\<^sup>+" by (rule rtrancl_into_trancl2)
    then show False using assms(1) by (auto simp: acyclic_def)
  qed
  moreover have "reach_names A (ac_name a) \<subseteq> reach_names A n"
    using e by (auto simp: reach_names_def intro: converse_rtrancl_into_rtrancl)
  ultimately show "reach_names A (ac_name a) \<subset> reach_names A n" by blast
qed

lemma fire_each_cong:
  "(\<And>a w. a \<in> set acts \<Longrightarrow> go a w = go' a w) \<Longrightarrow> fire_each go acts w = fire_each go' acts w"
  by (induction acts arbitrary: w) (auto split: option.split)

lemma run_depth_enough:
  assumes "acyclic (edge_rel (succs (trigger_edges (ap_triggers A))))" "named_actions A"
  shows "card (reach_names A (ac_name act)) \<le> d \<Longrightarrow> card (reach_names A (ac_name act)) \<le> e \<Longrightarrow>
      run_depth d n A sid act args w = run_depth e n A sid act args w"
proof (induction d arbitrary: e sid act args w)
  case 0
  have "reactions A (ac_name act) = []"
  proof (rule ccontr)
    assume "reactions A (ac_name act) \<noteq> []"
    then obtain a where "a \<in> set (reactions A (ac_name act))" by (meson hd_in_set)
    then show False using reach_less [OF assms] 0(1) by fastforce
  qed
  then show ?case by (cases e) (simp_all add: run_depth.simps split: option.split prod.split)
next
  case (Suc d)
  have less: "card (reach_names A (ac_name a)) < card (reach_names A (ac_name act))" if "a \<in> set (reactions A (ac_name act))" for a
    using reach_less [OF assms that] .
  show ?case
  proof (cases e)
    case 0
    then have "reactions A (ac_name act) = []" using less Suc.prems(2) by (cases "reactions A (ac_name act)") auto
    then show ?thesis using 0 by (simp add: run_depth.simps split: option.split prod.split)
  next
    case (Suc e')
    have "fire_each (\<lambda>a w. run_depth d n A ''__system'' a [] w) (reactions A (ac_name act)) w'
        = fire_each (\<lambda>a w. run_depth e' n A ''__system'' a [] w) (reactions A (ac_name act)) w'" for w'
      by (rule fire_each_cong, rule Suc.IH) (use less Suc.prems Suc in \<open>fastforce+\<close>)
    then show ?thesis using Suc by (simp add: run_depth.simps [of "Suc _"] split: option.split prod.split)
  qed
qed

text \<open>
  C9: When the compiler accepts the triggers and no more than 64 actions have any, the depth
  cap of the server is never met: an action answers and leaves the world as it would under
  any larger cap, so each success's every reaction runs, and the reactions' own in turn.
\<close>

theorem reactions_never_cut:
  assumes "triggerCycle (trigger_edges (ap_triggers A)) = []" "named_actions A"
    "card (fst ` set (ap_triggers A)) \<le> 64" "64 \<le> d"
  shows "runAction n A sid act args w = run_depth d n A sid act args w"
proof -
  have "acyclic (edge_rel (succs (trigger_edges (ap_triggers A))))"
    using triggerCycle_accepts assms(1) by blast
  moreover have "card (reach_names A (ac_name act)) \<le> card (fst ` set (ap_triggers A))"
    by (rule card_mono) (auto simp: reach_names_def)
  ultimately show ?thesis
    unfolding runAction_def max_trigger_depth_def
    by (intro run_depth_enough) (use assms(2-4) in \<open>auto elim: order_trans\<close>)
qed

subsection \<open>A chain\<close>

text \<open>Actions \<open>0\<close>, \<open>1\<close>, ... that do nothing, each the reaction of the one before.\<close>

definition link :: "nat \<Rightarrow> action" where
  "link i = \<lparr>ac_name = show_nat i, ac_params = [], ac_requires = [], ac_body = []\<rparr>"

definition chain :: "nat \<Rightarrow> app" where
  "chain m = ex_app\<lparr>ap_actions := map (\<lambda>i. (show_nat i, link i)) [0..<Suc m],
     ap_triggers := map (\<lambda>i. (show_nat i, show_nat (Suc i))) [0..<m]\<rparr>"

lemma ensureSession_audit: "wd_audit (ensureSession A sid w) = wd_audit w"
  by (simp add: ensureSession_def split: option.split)

lemma empty_run:
  assumes "ac_params act = []" "ac_requires act = []" "ac_body act = []"
  shows "\<exists>rp w'. runActionLocked n A sid act args w = Some (rp, w') \<and> rp_status rp = 200
     \<and> length (wd_audit w') = Suc (length (wd_audit w))"
proof -
  let ?w = "ensureSession A sid w"
  let ?sc = "alput (scope_of A ?w (alget (wd_sessions ?w) sid)) ''sessionToken'' (GStr (sessionToken A sid))"
  obtain sc where b: "bind_params (ap_wires A) [] args ?sc = Inr sc" by simp
  let ?r = "start_run A sid act args ?w sc"
  have f: "finish_run n A act ?r = Some (succeed A (ar_actor ?r) (ac_name act) ?r (put_session (?r\<lparr>ar_world := ?w\<rparr>)))"
  proof -
    have x: "execActionBlock A (ac_body act) ?r = ((200, []), ?r)" using assms by (simp add: execActionBlock_def unbind_def)
    have o: "ar_ops ?r = []" "ar_world ?r = ?w" by (simp_all add: start_run_def Let_def)
    have "commit_ops n A (ar_ops ?r) (ar_world ?r) = Some (None, ?w)" unfolding o by (simp add: commit_ops_def)
    then show ?thesis unfolding finish_run_def x by simp
  qed
  have "runActionLocked n A sid act args w = finish_run n A act ?r"
    using assms b by (simp add: runActionLocked_def Let_def)
  moreover have "rp_status (fst (succeed A a nm ?r w2)) = 200" for a nm w2
    by (simp add: succeed_def Let_def)
  moreover have "wd_audit (put_session (?r\<lparr>ar_world := ?w\<rparr>)) = wd_audit w"
    by (simp add: put_session_def ensureSession_audit)
  moreover have "wd_audit (snd (session_effects A ?r w2)) = wd_audit w2" for w2
  proof -
    have "ar_rekey ?r = []" "ar_revokes ?r = []" "ar_restates ?r = []" by (simp_all add: start_run_def Let_def)
    then show ?thesis by (simp add: session_effects_def Let_def)
  qed
  ultimately show ?thesis using f by (simp add: succeed_def Let_def)
qed

lemma chain_actions: "i \<le> m \<Longrightarrow> alget (ap_actions (chain m)) (show_nat i) = Some (link i)"
proof -
  have "alget (map (\<lambda>i. (show_nat i, link i)) xs) (show_nat i) = Some (link i)" if "i \<in> set xs" for xs
    using that by (induction xs) (auto dest: show_nat_inj)
  from this [of "[0..<Suc m]"] show "i \<le> m \<Longrightarrow> ?thesis" by (simp add: chain_def del: upt_Suc)
qed

lemma chain_reactions:
  assumes "i < m"
  shows "reactions (chain m) (show_nat i) = [link (Suc i)]"
proof -
  let ?f = "\<lambda>(on, act). if on = show_nat i then alget (ap_actions (chain m)) act else None"
  let ?g = "\<lambda>i. (show_nat i, show_nat (Suc i))"
  have none: "List.map_filter ?f (map ?g xs) = []" if "i \<notin> set xs" for xs
    using that by (induction xs) (auto simp: List.map_filter_simps dest: show_nat_inj)
  have "[0..<m] = [0..<i] @ i # [Suc i..<m]" using assms by (metis upt_conv_Cons le_add_diff_inverse less_imp_le upt_add_eq_append zero_le)
  then have "ap_triggers (chain m) = map ?g [0..<i] @ ?g i # map ?g [Suc i..<m]" by (simp add: chain_def)
  then show ?thesis
    using none [of "[0..<i]"] none [of "[Suc i..<m]"] chain_actions [of "Suc i" m] assms
    by (simp add: reactions_def List.map_filter_def)
qed

lemma chain_audit:
  "i + d \<le> m \<Longrightarrow> \<exists>rp w'. run_depth d n (chain m) sid (link i) [] w = Some (rp, w')
     \<and> length (wd_audit w') = length (wd_audit w) + Suc d"
proof (induction d arbitrary: i sid w)
  case 0
  then show ?case using empty_run [of "link i" n "chain m" sid "[]" w] by (auto simp: run_depth.simps link_def)
next
  case (Suc d)
  obtain rp w' where r: "runActionLocked n (chain m) sid (link i) [] w = Some (rp, w')" "rp_status rp = 200"
    "length (wd_audit w') = Suc (length (wd_audit w))"
    using empty_run [of "link i" n "chain m" sid "[]" w] by (auto simp: link_def)
  obtain rp' w2 where "run_depth d n (chain m) ''__system'' (link (Suc i)) [] w' = Some (rp', w2)"
    "length (wd_audit w2) = length (wd_audit w') + Suc d"
    using Suc.IH [of "Suc i" "''__system''" w'] Suc.prems by auto
  moreover have "reactions (chain m) (ac_name (link i)) = [link (Suc i)]" using chain_reactions Suc.prems by (simp add: link_def)
  ultimately show ?case using r by (simp add: run_depth.simps [of "Suc d"])
qed

text \<open>Of 67 actions each the reaction of the one before, which the compiler accepts, 65 run.\<close>

lemma chain_accepted: "triggerCycle (trigger_edges (ap_triggers (chain m))) = []"
proof -
  let ?R = "edge_rel (succs (trigger_edges (ap_triggers (chain m))))"
  have e: "\<exists>i. x = show_nat i \<and> y = show_nat (Suc i)" if "(x, y) \<in> ?R" for x y
    using that by (auto simp: edge_rel_def trigger_edges_succs chain_def)
  have "\<exists>i j. x = show_nat i \<and> y = show_nat j \<and> i < j" if "(x, y) \<in> ?R\<^sup>+" for x y
    using that
  proof (induction rule: trancl_induct)
    case (base y)
    then show ?case using e by blast
  next
    case (step y z)
    then show ?case using e [OF step.hyps(2)] by (metis less_Suc_eq show_nat_inj)
  qed
  then have "acyclic ?R" unfolding acyclic_def by (metis less_irrefl show_nat_inj)
  then show ?thesis by (simp add: triggerCycle_accepts)
qed

theorem long_chain_cut:
  "triggerCycle (trigger_edges (ap_triggers (chain 66))) = []
   \<and> (\<exists>rp w'. runAction n (chain 66) sid (link 0) [] w = Some (rp, w') \<and> length (wd_audit w') = length (wd_audit w) + 65)"
  using chain_accepted [of 66] chain_audit [of 0 64 66 n sid w] by (simp add: runAction_def max_trigger_depth_def)

theorem reactions_never_cut_witness:
  "runAction 1 (chain 3) [] (link 0) [] ex_world = run_depth 70 1 (chain 3) [] (link 0) [] ex_world"
proof (rule reactions_never_cut)
  show "triggerCycle (trigger_edges (ap_triggers (chain 3))) = []" by (rule chain_accepted)
  show "named_actions (chain 3)" by (auto simp: named_actions_def chain_def link_def dest!: alget_Some_mem)
  have "card (fst ` set (ap_triggers (chain 3))) \<le> length (ap_triggers (chain 3))"
    by (metis card_length list.set_map length_map)
  then show "card (fst ` set (ap_triggers (chain 3))) \<le> 64" by (simp add: chain_def)
qed simp

subsection \<open>Runs\<close>

text \<open>The actions a body \<open>run\<close>s, nested blocks included (internal/ir/build.go, \<open>runCallees\<close>).\<close>

fun callees_of :: "stmt \<Rightarrow> string list"
  and runCallees :: "stmt list \<Rightarrow> string list" where
  "callees_of (SRun name args x) = [name]"
| "callees_of (SIf c yes no) = runCallees yes @ runCallees no"
| "callees_of (SFor e x c order desc key lim body) = runCallees body"
| "callees_of (SForeach x e body) = runCallees body"
| "callees_of st = []"
| "runCallees [] = []"
| "runCallees (st # sts) = callees_of st @ runCallees sts"

definition run_edges :: "(string \<times> action) list \<Rightarrow> string \<Rightarrow> string list" where
  "run_edges acts n = (case alget acts n of Some act \<Rightarrow> runCallees (ac_body act) | None \<Rightarrow> [])"

text \<open>
  \<open>checkRunGraph\<close>: the first run of a client-placed action is refused, then the first cycle of
  runs; \<open>placed\<close> tells of a declared action whether the server runs it.
\<close>

datatype run_error = RunsClient string string | RunCycle "string list"

definition checkRunGraph :: "(string \<Rightarrow> bool option) \<Rightarrow> (string \<times> action) list \<Rightarrow> run_error option" where
  "checkRunGraph placed acts =
     (case List.map_filter (\<lambda>(n, act). map_option (RunsClient n)
             (find (\<lambda>c. placed c = Some False) (runCallees (ac_body act)))) acts of
        err # _ \<Rightarrow> Some err
      | [] \<Rightarrow> (case search (run_edges acts) (map fst acts) of Some (Inl p) \<Rightarrow> Some (RunCycle p) | _ \<Rightarrow> None))"

lemma checkRunGraph_acyclic:
  assumes "checkRunGraph placed acts = None"
  shows "acyclic (edge_rel (run_edges acts))"
proof -
  have k: "\<forall>x. x \<notin> set (map fst acts) \<longrightarrow> run_edges acts x = []" by (simp add: run_edges_def alget_None_iff [THEN iffD2])
  show ?thesis
    using k
  proof (cases rule: search_decides)
    case (Loop p)
    then show ?thesis using assms by (simp add: checkRunGraph_def split: list.splits)
  qed
qed

text \<open>A body's outcome depends on nested runs only at the actions it names.\<close>

lemma exec_cong_runs:
  "\<forall>n \<in> set (callees_of st). N n = N' n \<Longrightarrow> exec_stmt A N st r = exec_stmt A N' st r"
  "\<forall>n \<in> set (runCallees sts). N n = N' n \<Longrightarrow> exec_stmts A N sts bound r = exec_stmts A N' sts bound r"
proof (induction A N st r and A N sts bound r rule: exec_stmt_exec_stmts.induct)
  case (2 A N e x c order desc key lim body r)
  then have "(\<lambda>r. exec_stmts A N body [] r) = (\<lambda>r. exec_stmts A N' body [] r)" by (intro ext) simp
  then show ?case by simp
next
  case (3 A N x e body r)
  then have "(\<lambda>r. exec_stmts A N body [] r) = (\<lambda>r. exec_stmts A N' body [] r)" by (intro ext) simp
  then show ?case by simp
qed (auto split: flow.split)

definition run_reach :: "app \<Rightarrow> string \<Rightarrow> string set" where
  "run_reach A n = {m. (n, m) \<in> (edge_rel (run_edges (ap_actions A)))\<^sup>*} \<inter> fst ` set (ap_actions A)"

lemma run_reach_less:
  assumes "acyclic (edge_rel (run_edges (ap_actions A)))" "alget (ap_actions A) n = Some act" "c \<in> set (runCallees (ac_body act))"
  shows "card (run_reach A c) < card (run_reach A n)"
proof (rule psubset_card_mono)
  let ?R = "edge_rel (run_edges (ap_actions A))"
  have e: "(n, c) \<in> ?R" using assms(2,3) by (simp add: edge_rel_def run_edges_def)
  have "n \<in> fst ` set (ap_actions A)" using alget_None_iff [of "ap_actions A" n] assms(2) by auto
  then have "n \<in> run_reach A n" by (simp add: run_reach_def)
  moreover have "n \<notin> run_reach A c"
  proof
    assume "n \<in> run_reach A c"
    then have "(n, n) \<in> ?R\<^sup>+" using e by (simp add: run_reach_def rtrancl_into_trancl2)
    then show False using assms(1) by (auto simp: acyclic_def)
  qed
  moreover have "run_reach A c \<subseteq> run_reach A n"
    using e by (auto simp: run_reach_def intro: converse_rtrancl_into_rtrancl)
  ultimately show "run_reach A c \<subset> run_reach A n" by blast
qed (simp add: run_reach_def)

lemma run_nested_enough:
  assumes "acyclic (edge_rel (run_edges (ap_actions A)))"
  shows "card (run_reach A name) \<le> d \<Longrightarrow> card (run_reach A name) \<le> e \<Longrightarrow> run_nested d A name = run_nested e A name"
proof (induction d arbitrary: e name)
  case 0
  have "name \<notin> fst ` set (ap_actions A)"
  proof
    assume "name \<in> fst ` set (ap_actions A)"
    then have "name \<in> run_reach A name" by (simp add: run_reach_def)
    then show False using 0(1) by (auto simp: run_reach_def)
  qed
  then show ?case by (intro ext) (simp add: run_nested.simps alget_None_iff [THEN iffD2])
next
  case (Suc d)
  show ?case
  proof (cases "alget (ap_actions A) name")
    case None
    then show ?thesis by (intro ext) (simp add: run_nested.simps)
  next
    case (Some callee)
    have less: "card (run_reach A c) < card (run_reach A name)" if "c \<in> set (runCallees (ac_body callee))" for c
      using run_reach_less [OF assms Some that] .
    have "name \<in> run_reach A name" using alget_None_iff [of "ap_actions A" name] Some by (auto simp: run_reach_def)
    then have "0 < card (run_reach A name)" by (auto simp: run_reach_def card_gt_0_iff)
    then obtain e' where e: "e = Suc e'" using Suc.prems(2) by (cases e) auto
    have "exec_stmts A (run_nested d A) (ac_body callee) [] c = exec_stmts A (run_nested e' A) (ac_body callee) [] c" for c
      by (rule exec_cong_runs(2)) (use less Suc e in \<open>fastforce intro: Suc.IH\<close>)
    then show ?thesis unfolding e by (intro ext) (simp add: run_nested.simps [of "Suc _"] Some split: sum.split prod.split)
  qed
qed

text \<open>
  C10: When the compiler accepts the graph of runs and no action a body runs has more than 16
  actions below it, itself included, no run is refused for nesting too deep: the body ends as
  it would with any larger limit on the depth of runs.
\<close>

theorem runs_never_cut:
  assumes "checkRunGraph placed (ap_actions A) = None" "\<forall>n \<in> set (runCallees body). card (run_reach A n) \<le> 16" "16 \<le> d"
  shows "execActionBlock A body r = exec_stmts A (run_nested d A) body [] r"
  unfolding execActionBlock_def max_run_depth_def
  by (rule exec_cong_runs(2), rule ballI, rule run_nested_enough [OF checkRunGraph_acyclic [OF assms(1)]])
    (use assms(2,3) in auto)

definition ex_nested :: app where
  "ex_nested = ex_app\<lparr>ap_actions :=
     [(''outer'', \<lparr>ac_name = ''outer'', ac_params = [], ac_requires = [], ac_body = [SIf (ILit (GBool True) ''bool'') [SRun ''inner'' [] []] []]\<rparr>),
      (''inner'', \<lparr>ac_name = ''inner'', ac_params = [], ac_requires = [], ac_body = [SReturn None 0]\<rparr>)]\<rparr>"

theorem runs_never_cut_witness:
  "checkRunGraph (\<lambda>n. Some True) (ap_actions ex_nested) = None
   \<and> (\<forall>r. execActionBlock ex_nested [SRun ''outer'' [] ''x''] r = exec_stmts ex_nested (run_nested 99 ex_nested) [SRun ''outer'' [] ''x''] [] r)"
proof -
  have ok: "checkRunGraph (\<lambda>n. Some True) (ap_actions ex_nested) = None"
    by (simp add: checkRunGraph_def ex_nested_def List.map_filter_simps search_def names_of_def run_edges_def)
  have "card (run_reach ex_nested ''outer'') \<le> card (fst ` set (ap_actions ex_nested))"
    by (rule card_mono) (auto simp: run_reach_def)
  also have "\<dots> \<le> length (ap_actions ex_nested)" by (metis card_length list.set_map length_map)
  finally have "card (run_reach ex_nested ''outer'') \<le> 16" by (simp add: ex_nested_def)
  then show ?thesis using ok runs_never_cut [OF ok, of "[SRun ''outer'' [] ''x'']" 99] by simp
qed

text \<open>Two actions that run each other are refused.\<close>

lemma run_cycle_refused:
  "checkRunGraph (\<lambda>n. Some True)
     [(''a'', \<lparr>ac_name = ''a'', ac_params = [], ac_requires = [], ac_body = [SRun ''b'' [] []]\<rparr>),
      (''b'', \<lparr>ac_name = ''b'', ac_params = [], ac_requires = [], ac_body = [SRun ''a'' [] []]\<rparr>)]
   = Some (RunCycle [''a'', ''b'', ''a''])"
  by (simp add: checkRunGraph_def List.map_filter_simps search_def names_of_def run_edges_def)

end
