(* ===== verification/Jobs.thy ===== *)
theory Jobs
  imports Chains
begin

text \<open>
  The job queue's worker (runtime/jobs.go: \<open>backoff\<close>, \<open>finish\<close>, \<open>run\<close>, one round of \<open>work\<close>,
  one tick of \<open>schedule\<close>) over the queue of the in-memory store: rounds of work empty the
  queue of everything due, and what it does with a job that fails.
\<close>

subsection \<open>One round of a worker\<close>

definition jobBackoffBase :: int where "jobBackoffBase = 5"
definition jobBackoffCap :: int where "jobBackoffCap = 600"

text \<open>Doubled for every attempt after the first, in seconds, capped as soon as it reaches the cap.\<close>

fun backoff_loop :: "nat \<Rightarrow> int \<Rightarrow> int" where
  "backoff_loop 0 d = d"
| "backoff_loop (Suc k) d = (if 2 * d \<ge> jobBackoffCap then jobBackoffCap else backoff_loop k (2 * d))"

definition backoff :: "nat \<Rightarrow> int" where
  "backoff attempt = backoff_loop (attempt - 1) jobBackoffBase"

definition set_store :: "memstore \<Rightarrow> world \<Rightarrow> world" where
  "set_store s w = w\<lparr>wd_store := s\<rparr>"

text \<open>A failed job goes back with a delay, or is dead-lettered once its attempts are used up.\<close>

definition finish_job :: "int \<Rightarrow> job \<Rightarrow> string \<Rightarrow> world \<Rightarrow> world" where
  "finish_job nw j msg w =
     (if jb_attempts j \<ge> jb_max_attempts j then set_store (FinishJob (jb_id j) ''dead'' msg 0 (wd_store w)) w
      else set_store (FinishJob (jb_id j) ''pending'' msg (nw + backoff (jb_attempts j)) (wd_store w)) w)"

text \<open>\<open>None\<close> when the job's action never answers.\<close>

definition run_job :: "nat \<Rightarrow> app \<Rightarrow> int \<Rightarrow> job \<Rightarrow> world \<Rightarrow> world option" where
  "run_job n A nw j w =
     (case alget (ap_actions A) (jb_action j) of
        None \<Rightarrow> Some (set_store (FinishJob (jb_id j) ''dead'' (''unknown action '' @ jb_action j) 0 (wd_store w)) w)
      | Some act \<Rightarrow>
          (case runAction n A ''__system'' act (jb_args j) w of
             None \<Rightarrow> None
           | Some (rp, w') \<Rightarrow>
               Some (if rp_status rp = 200 then set_store (FinishJob (jb_id j) ''done'' [] 0 (wd_store w')) w'
                     else finish_job nw j (rp_msg rp) w')))"

definition work :: "nat \<Rightarrow> app \<Rightarrow> int \<Rightarrow> world \<Rightarrow> world option" where
  "work n A nw w =
     (case ClaimJob nw (wd_store w) of
        (None, s) \<Rightarrow> Some (set_store s w)
      | (Some j, s) \<Rightarrow> run_job n A nw j (set_store s w))"

text \<open>One tick of a schedule: whoever wins the reservation enqueues the action.\<close>

definition schedule_tick :: "string \<Rightarrow> string \<Rightarrow> int \<Rightarrow> int \<Rightarrow> memstore \<Rightarrow> memstore" where
  "schedule_tick name act nw every s =
     (case ReserveCron name (nw + every) s of
        (True, s') \<Rightarrow>
          snd (EnqueueJob \<lparr>jb_id = 0, jb_queue = ''cron'', jb_action = act, jb_args = [], jb_run_at = 0, jb_attempts = 0,
            jb_max_attempts = 0, jb_status = [], jb_error = []\<rparr> s')
      | (False, s') \<Rightarrow> s')"

fun rounds :: "nat \<Rightarrow> nat \<Rightarrow> app \<Rightarrow> int \<Rightarrow> world \<Rightarrow> world option" where
  "rounds 0 n A nw w = Some w"
| "rounds (Suc k) n A nw w = (case work n A nw w of None \<Rightarrow> None | Some w' \<Rightarrow> rounds k n A nw w')"

subsection \<open>Backoff\<close>

lemma backoff_loop_bounds: "jobBackoffBase \<le> d \<Longrightarrow> d \<le> jobBackoffCap \<Longrightarrow> jobBackoffBase \<le> backoff_loop k d \<and> backoff_loop k d \<le> jobBackoffCap"
  by (induction k arbitrary: d) (auto simp: jobBackoffBase_def jobBackoffCap_def)

lemma backoff_bounds: "5 \<le> backoff k \<and> backoff k \<le> 600"
  using backoff_loop_bounds [of jobBackoffBase "k - 1"] by (simp add: backoff_def jobBackoffBase_def jobBackoffCap_def)

subsection \<open>An action leaves the queue alone\<close>

lemma cascade_jobs:
  "deleteCascade n e ids s = Some s' \<Longrightarrow> ms_jobs s' = ms_jobs s"
  "cascade_children n ids chs s = Some s' \<Longrightarrow> ms_jobs s' = ms_jobs s"
proof (induction n e ids s and n ids chs s arbitrary: s' and s' rule: deleteCascade_cascade_children.induct)
  case (2 n e ids s)
  then show ?case by (simp add: remove_rows_def set_rows_def)
next
  case (4 n ids ch chs s)
  let ?ids = "ref_ids s ch ids"
  consider "rf_on_delete ch = ''setNull''" "cascade_children n ids chs (clear_refs ch ids s) = Some s'"
    | "rf_on_delete ch \<noteq> ''setNull''" "?ids = []" "cascade_children n ids chs s = Some s'"
    | s1 where "rf_on_delete ch \<noteq> ''setNull''" "?ids \<noteq> []" "deleteCascade n (rf_entity ch) ?ids s = Some s1"
        "cascade_children n ids chs s1 = Some s'"
    using "4.prems" by (auto simp: Let_def split: if_splits option.splits)
  then show ?case
  proof cases
    case 1
    have "ms_jobs (clear_refs ch ids s) = ms_jobs s" by (simp add: clear_refs_def set_rows_def)
    then show ?thesis using "4.IH"(1) [OF 1] by simp
  next
    case 2
    show ?thesis by (rule "4.IH"(2) [OF 2(1) refl 2(2,3)])
  next
    case 3
    show ?thesis using "4.IH"(3) [OF 3(1) refl 3(2,3)] "4.IH"(4) [OF 3(1) refl 3(2,3,4)] by simp
  qed
qed simp_all

lemma run_op_jobs: "run_op n op s = Some (Inr s') \<Longrightarrow> ms_jobs s' = ms_jobs s"
  by (auto simp: run_op_def Save_def set_rows_def Delete_def Clear_def delete_ids_def split: tx_op.splits option.splits
      simp del: deleteCascade.simps dest!: cascade_jobs(1))

lemma Commit_jobs: "Commit n ops s = Some (err, s') \<Longrightarrow> ms_jobs s' = ms_jobs s"
  by (induction n ops s rule: Commit.induct) (auto split: option.splits sum.splits dest: run_op_jobs)

lemma commit_ops_jobs: "commit_ops n A ops w = Some (err, w') \<Longrightarrow> ms_jobs (wd_store w') = ms_jobs (wd_store w)"
  by (auto simp: commit_ops_def Let_def split: if_splits dest: Commit_jobs)

lemma finish_run_jobs:
  assumes "finish_run n A act r = Some (rp, w')" "ar_undo r = newUndoLog (ar_ses r)"
  shows "ms_jobs (wd_store w') = ms_jobs (wd_store (ar_world r))"
proof -
  obtain s m r1 where x: "execActionBlock A (ac_body act) r = ((s, m), r1)" by (metis prod.exhaust)
  have b: "wd_store (ar_world r1) = wd_store (ar_world r)" using body_undone(4) [OF x assms(2)] .
  show ?thesis
  proof (cases "s = 200")
    case False
    then show ?thesis using assms(1) x b rollback_bystanders by (auto simp: finish_run_def)
  next
    case True
    obtain err w where c: "commit_ops n A (ar_ops r1) (ar_world r1) = Some (err, w)"
      using assms(1) x True by (auto simp: finish_run_def split: option.splits)
    then have "ms_jobs (wd_store w) = ms_jobs (wd_store (ar_world r))" using commit_ops_jobs b by simp
    then show ?thesis
      using assms(1) x True c rollback_bystanders
      by (cases err) (auto simp: finish_run_def succeed_def Let_def effects_rows recordAudit_def)
  qed
qed

lemma runActionLocked_jobs:
  assumes "runActionLocked n A sid act args w = Some (rp, w')"
  shows "ms_jobs (wd_store w') = ms_jobs (wd_store w)"
  using assms
proof (cases rule: runActionLocked_cases)
  case (body sc)
  have "ar_undo (start_run A sid act args (ensureSession A sid w) sc)
      = newUndoLog (ar_ses (start_run A sid act args (ensureSession A sid w) sc))"
    by (simp add: start_run_def Let_def)
  from finish_run_jobs [OF body(3) this] show ?thesis by (simp add: start_run_def Let_def ensure_core)
qed (auto simp: recordAudit_def start_run_def Let_def ensure_core)

lemma runAction_jobs: "runAction n A sid act args w = Some (rp, w') \<Longrightarrow> ms_jobs (wd_store w') = ms_jobs (wd_store w)"
  using run_depth_keeps [of "\<lambda>v. ms_jobs (wd_store v) = ms_jobs (wd_store w)"] runActionLocked_jobs
  unfolding runAction_def by metis

subsection \<open>Rounds of work\<close>

definition due_jobs :: "int \<Rightarrow> world \<Rightarrow> nat" where
  "due_jobs nw w = length (filter (job_due nw) (ms_jobs (wd_store w)))"

text \<open>A job that has been served is finished, or waits for a later time.\<close>

definition served :: "int \<Rightarrow> job \<Rightarrow> bool" where
  "served nw j \<longleftrightarrow> jb_status j \<in> {''done'', ''dead''} \<or> (jb_status j = ''pending'' \<and> nw < jb_run_at j)"

definition after_work :: "int \<Rightarrow> job \<Rightarrow> job \<Rightarrow> bool" where
  "after_work nw j j' \<longleftrightarrow> (if job_due nw j then jb_id j' = jb_id j \<and> served nw j' else j' = j)"

lemma claim_loop_split:
  "claim_loop nw js = (r, js') \<Longrightarrow>
   (case r of None \<Rightarrow> js' = js \<and> filter (job_due nw) js = []
    | Some j \<Rightarrow> \<exists>pre j0 post. js = pre @ j0 # post \<and> js' = pre @ j # post \<and> job_due nw j0 \<and> j = j0\<lparr>jb_status := ''running''\<rparr>)"
proof (induction nw js arbitrary: r js' rule: claim_loop.induct)
  case (2 nw j js)
  show ?case
  proof (cases "job_due nw j")
    case True
    then show ?thesis using "2.prems" by (auto intro!: exI [of _ "[]"])
  next
    case False
    obtain r1 js1 where c: "claim_loop nw js = (r1, js1)" by fastforce
    then have r: "r = r1" "js' = j # js1" using "2.prems" False by simp_all
    show ?thesis
    proof (cases r1)
      case None
      then show ?thesis using "2.IH" [OF False c] r False by simp
    next
      case (Some k)
      then obtain pre j0 post where "js = pre @ j0 # post" "js1 = pre @ k # post" "job_due nw j0" "k = j0\<lparr>jb_status := ''running''\<rparr>"
        using "2.IH" [OF False c] by auto
      then show ?thesis using r Some by (auto intro!: exI [of _ "j # pre"])
    qed
  qed
qed simp

lemma finish_loop_at:
  "i \<notin> jb_id ` set pre \<Longrightarrow> jb_id j = i \<Longrightarrow> finish_loop i st err nxt (pre @ j # post) = pre @ finish_one st err nxt j # post"
  by (induction pre) auto

lemma finish_served:
  "served nw (finish_one ''done'' m 0 j)" "served nw (finish_one ''dead'' m 0 j)" "served nw (finish_one ''pending'' m (nw + backoff k) j)"
  using backoff_bounds [of k] by (simp_all add: finish_one_def served_def)

lemma finish_id [simp]: "jb_id (finish_one st m nxt j) = jb_id j"
  by (simp add: finish_one_def Let_def)

text \<open>One round serves the oldest due job and leaves the others alone.\<close>

lemma work_round:
  assumes ids: "distinct (map jb_id (ms_jobs (wd_store w)))" and due: "0 < due_jobs nw w"
    and answers: "\<And>act args w. act \<in> snd ` set (ap_actions A) \<Longrightarrow> runAction n A ''__system'' act args w \<noteq> None"
  shows "\<exists>w' pre j0 j1 post. work n A nw w = Some w' \<and> ms_jobs (wd_store w) = pre @ j0 # post \<and> job_due nw j0
    \<and> ms_jobs (wd_store w') = pre @ j1 # post \<and> jb_id j1 = jb_id j0 \<and> served nw j1"
proof -
  obtain r js' where c: "claim_loop nw (ms_jobs (wd_store w)) = (r, js')" by fastforce
  have "r \<noteq> None" using claim_loop_split [OF c] due by (cases r) (auto simp: due_jobs_def)
  then obtain j where r: "r = Some j" by blast
  then obtain pre j0 post where s: "ms_jobs (wd_store w) = pre @ j0 # post" "js' = pre @ j # post" "job_due nw j0"
    "j = j0\<lparr>jb_status := ''running''\<rparr>"
    using claim_loop_split [OF c] by auto
  let ?w = "set_store ((wd_store w)\<lparr>ms_jobs := js'\<rparr>) w"
  have work: "work n A nw w = run_job n A nw j ?w" by (simp add: work_def ClaimJob_def c r)
  have i: "jb_id j = jb_id j0" by (simp add: s(4))
  have n: "jb_id j \<notin> jb_id ` set pre" using ids s(1) i by auto
  have fin: "finish_loop (jb_id j) st m nxt js' = pre @ finish_one st m nxt j # post" for st m nxt
    unfolding s(2) by (rule finish_loop_at [OF n refl])
  have "\<exists>w' st m nxt. run_job n A nw j ?w = Some w' \<and> ms_jobs (wd_store w') = finish_loop (jb_id j) st m nxt js'
      \<and> served nw (finish_one st m nxt j)"
  proof (cases "alget (ap_actions A) (jb_action j)")
    case None
    then have "run_job n A nw j ?w = Some (set_store (FinishJob (jb_id j) ''dead'' (''unknown action '' @ jb_action j) 0 (wd_store ?w)) ?w)"
      by (simp add: run_job_def)
    moreover have "ms_jobs (wd_store (set_store (FinishJob (jb_id j) st m 0 (wd_store ?w)) ?w)) = finish_loop (jb_id j) st m 0 js'" for st m
      by (simp add: set_store_def FinishJob_def)
    ultimately show ?thesis using finish_served(2) by metis
  next
    case (Some act)
    then have "act \<in> snd ` set (ap_actions A)" by (force dest: alget_Some_mem)
    then obtain rp w1 where a: "runAction n A ''__system'' act (jb_args j) ?w = Some (rp, w1)"
      using answers [of act "jb_args j" ?w] by (metis option.exhaust prod.exhaust)
    have q: "ms_jobs (wd_store w1) = js'" using runAction_jobs [OF a] by (simp add: set_store_def)
    have fj: "ms_jobs (wd_store (set_store (FinishJob k st m nxt (wd_store w1)) w1)) = finish_loop k st m nxt js'" for k st m nxt
      by (simp add: set_store_def FinishJob_def q)
    have run: "run_job n A nw j ?w = Some (if rp_status rp = 200 then set_store (FinishJob (jb_id j) ''done'' [] 0 (wd_store w1)) w1
        else finish_job nw j (rp_msg rp) w1)"
      by (simp add: run_job_def Some a)
    show ?thesis
    proof (cases "rp_status rp = 200")
      case True
      then have "run_job n A nw j ?w = Some (set_store (FinishJob (jb_id j) ''done'' [] 0 (wd_store w1)) w1)" using run by simp
      then show ?thesis using fj finish_served(1) by metis
    next
      case False
      then have "run_job n A nw j ?w = Some (finish_job nw j (rp_msg rp) w1)" using run by simp
      then show ?thesis using fj finish_served(2,3) unfolding finish_job_def by (cases "jb_max_attempts j \<le> jb_attempts j") (simp; metis)+
    qed
  qed
  then show ?thesis using work s(1,3) fin i by (metis finish_id)
qed

lemma rounds_serve:
  assumes answers: "\<And>act args w. act \<in> snd ` set (ap_actions A) \<Longrightarrow> runAction n A ''__system'' act args w \<noteq> None"
  shows "distinct (map jb_id (ms_jobs (wd_store w))) \<Longrightarrow> k = due_jobs nw w \<Longrightarrow>
    \<exists>w'. rounds k n A nw w = Some w' \<and> due_jobs nw w' = 0
      \<and> list_all2 (after_work nw) (ms_jobs (wd_store w)) (ms_jobs (wd_store w'))"
proof (induction k arbitrary: w)
  case 0
  then have "filter (job_due nw) (ms_jobs (wd_store w)) = []" by (simp add: due_jobs_def)
  then have "\<forall>j \<in> set (ms_jobs (wd_store w)). \<not> job_due nw j" by (simp add: filter_empty_conv)
  then have "list_all2 (after_work nw) (ms_jobs (wd_store w)) (ms_jobs (wd_store w))"
    by (auto simp: list_all2_same after_work_def)
  then show ?case using 0 by simp
next
  case (Suc k)
  then have "0 < due_jobs nw w" by simp
  then obtain w1 pre j0 j1 post where w: "work n A nw w = Some w1" "ms_jobs (wd_store w) = pre @ j0 # post" "job_due nw j0"
    "ms_jobs (wd_store w1) = pre @ j1 # post" "jb_id j1 = jb_id j0" "served nw j1"
    using work_round [OF Suc.prems(1) _ answers] by meson
  have nd: "\<not> job_due nw j1" using w(6) by (auto simp: served_def job_due_def)
  have "distinct (map jb_id (ms_jobs (wd_store w1)))" using Suc.prems(1) w(2,4,5) by simp
  moreover have "k = due_jobs nw w1" using Suc.prems(2) w(2-4) nd by (simp add: due_jobs_def)
  ultimately obtain w' where r: "rounds k n A nw w1 = Some w'" "due_jobs nw w' = 0"
    "list_all2 (after_work nw) (pre @ j1 # post) (ms_jobs (wd_store w'))"
    using Suc.IH [of w1] w(4) by auto
  then obtain pre' post' where p: "ms_jobs (wd_store w') = pre' @ j1 # post'"
    "list_all2 (after_work nw) pre pre'"
    "list_all2 (after_work nw) post post'"
    using nd by (auto simp: list_all2_append1 list_all2_Cons1 after_work_def)
  have "list_all2 (after_work nw) (pre @ j0 # post) (pre' @ j1 # post')"
    using p(2,3) w(3,5,6) by (intro list_all2_appendI) (simp_all add: after_work_def)
  then show ?case using r(1,2) w(1,2) p(1) by simp
qed


definition ex_queue :: world where
  "ex_queue = set_store (schedule_tick ''nightly'' ''9'' 100 60 (schedule_tick ''hourly'' ''0'' 100 60 newMemStore)) ex_world"


text \<open>
  The scheduler gives a job no attempts and the in-memory store keeps it that way, so the
  first failure dead-letters it; and a job with attempts left comes back with as many.
\<close>

theorem memory_job_never_retried:
  "map jb_max_attempts (ms_jobs (wd_store ex_queue)) = [0, 0]"
  "jb_max_attempts j = 0 \<Longrightarrow> finish_job nw j msg w = set_store (FinishJob (jb_id j) ''dead'' msg 0 (wd_store w)) w"
  "jb_attempts (finish_one ''pending'' msg nxt j) = jb_attempts j"
  by (simp_all add: ex_queue_def set_store_def schedule_tick_def ReserveCron_def EnqueueJob_def newMemStore_def finish_job_def
      finish_one_def Let_def)

end
