(* ===== verification/Streams.thy ===== *)
theory Streams
  imports Action "HOL-Library.Sublist"
begin

text \<open>
  Named event streams (runtime/streams.go): each stream's log of numbered frames, the
  subscribers with their bounded channels, \<open>fanoutEvents\<close> and the replay of a reconnect.
  \<open>encode\<close> is \<open>json.Marshal\<close> of a payload; a path that cannot be encoded answers \<open>None\<close>.

  A client that keeps up is written exactly the frames after its resume point that it may
  see, each once and in order; one that does not is still never written a frame twice, out of
  order or meant for somebody else.
\<close>

subsection \<open>Logs, subscribers and the hub\<close>

record logged_frame =
  lf_seq :: nat
  lf_frame :: string
  lf_to :: "string option"
  lf_key :: string

record stream_log =
  lg_seq :: nat
  lg_frames :: "logged_frame list"

text \<open>A subscriber, with what its connection has been written so far.\<close>

record stream_sub =
  su_actor :: string
  su_key :: string
  su_ch :: "string list"
  su_out :: "string list"

record stream_event =
  sv_name :: string
  sv_type :: string

record stream =
  st_path :: string
  st_events :: "stream_event list"

text \<open>A subscriber is a pointer in the code: \<open>hb_next\<close> is the next one to be allocated.\<close>

record hub =
  hb_logs :: "(string \<times> stream_log) list"
  hb_subs :: "(string \<times> (nat \<times> stream_sub) list) list"
  hb_next :: nat

definition streamLogCap :: nat where
  "streamLogCap = 512"

definition channel_cap :: nat where
  "channel_cap = 32"

definition log_of :: "hub \<Rightarrow> string \<Rightarrow> stream_log" where
  "log_of h p = (case alget (hb_logs h) p of Some l \<Rightarrow> l | None \<Rightarrow> \<lparr>lg_seq = 0, lg_frames = []\<rparr>)"

definition subs_of :: "hub \<Rightarrow> string \<Rightarrow> (nat \<times> stream_sub) list" where
  "subs_of h p = (case alget (hb_subs h) p of Some s \<Rightarrow> s | None \<Rightarrow> [])"

definition visibleTo :: "logged_frame \<Rightarrow> stream_sub \<Rightarrow> bool" where
  "visibleTo f s \<longleftrightarrow> (case lf_to f of None \<Rightarrow> True | Some a \<Rightarrow> a = su_actor s) \<and> lf_key f = su_key s"

subsection \<open>Fan-out\<close>

text \<open>A frame a full channel has no room for is dropped.\<close>

definition deliver :: "logged_frame \<Rightarrow> stream_sub \<Rightarrow> stream_sub" where
  "deliver f s =
     (if visibleTo f s \<and> length (su_ch s) < channel_cap then s\<lparr>su_ch := su_ch s @ [lf_frame f]\<rparr> else s)"

definition frame_text :: "nat \<Rightarrow> string \<Rightarrow> string \<Rightarrow> string" where
  "frame_text n name dat = ''id: '' @ show_nat n @ ''\<newline>event: '' @ name @ ''\<newline>data: '' @ dat @ ''\<newline>\<newline>''"

definition new_frame :: "nat \<Rightarrow> string \<Rightarrow> string \<Rightarrow> emitted \<Rightarrow> logged_frame" where
  "new_frame n name dat em = \<lparr>lf_seq = n, lf_frame = frame_text n name dat, lf_to = em_to em, lf_key = em_key em\<rparr>"

definition log_append :: "logged_frame \<Rightarrow> stream_log \<Rightarrow> stream_log" where
  "log_append f l =
     (let fs = lg_frames l @ [f]
      in \<lparr>lg_seq = lf_seq f, lg_frames = drop (length fs - streamLogCap) fs\<rparr>)"

definition publish :: "string \<Rightarrow> string \<Rightarrow> string \<Rightarrow> emitted \<Rightarrow> hub \<Rightarrow> hub" where
  "publish p name dat em h =
     (let f = new_frame (Suc (lg_seq (log_of h p))) name dat em
      in h\<lparr>hb_logs := alput (hb_logs h) p (log_append f (log_of h p)),
           hb_subs := (case alget (hb_subs h) p of
             None \<Rightarrow> hb_subs h | Some ss \<Rightarrow> alput (hb_subs h) p (map (\<lambda>(i, s). (i, deliver f s)) ss))\<rparr>)"

definition carries :: "emitted \<Rightarrow> stream_event \<Rightarrow> bool" where
  "carries em d \<longleftrightarrow> sv_type d = em_type em \<and> (em_name em = [] \<or> sv_name d = em_name em)"

definition fan_event :: "(gval \<Rightarrow> string option) \<Rightarrow> stream list \<Rightarrow> emitted \<Rightarrow> hub \<Rightarrow> hub" where
  "fan_event encode sts em h =
     (case encode (em_payload em) of
        None \<Rightarrow> h
      | Some dat \<Rightarrow>
          fold (\<lambda>st h. fold (\<lambda>d h. if carries em d then publish (st_path st) (sv_name d) dat em h else h) (st_events st) h) sts h)"

definition fanoutEvents :: "(gval \<Rightarrow> string option) \<Rightarrow> stream list \<Rightarrow> emitted list \<Rightarrow> hub \<Rightarrow> hub" where
  "fanoutEvents encode sts evs h = fold (fan_event encode sts) evs h"

subsection \<open>A connection\<close>

text \<open>
  Opening: the subscriber is registered and its replay taken under one lock, then the
  unnumbered opening frames \<open>pre\<close> and the replay are written. \<open>seen\<close> is the resume point.
\<close>

definition replay_of :: "stream_log \<Rightarrow> nat option \<Rightarrow> stream_sub \<Rightarrow> string list" where
  "replay_of l seen s =
     (case seen of None \<Rightarrow> [] | Some n \<Rightarrow> map lf_frame (filter (\<lambda>f. n < lf_seq f \<and> visibleTo f s) (lg_frames l)))"

definition open_stream :: "string \<Rightarrow> string \<Rightarrow> string \<Rightarrow> string list \<Rightarrow> nat option \<Rightarrow> hub \<Rightarrow> hub" where
  "open_stream p actor key pre seen h =
     (let s = \<lparr>su_actor = actor, su_key = key, su_ch = [], su_out = pre\<rparr>;
          s' = s\<lparr>su_out := pre @ replay_of (log_of h p) seen s\<rparr>
      in h\<lparr>hb_subs := alput (hb_subs h) p (subs_of h p @ [(hb_next h, s')]), hb_next := Suc (hb_next h)\<rparr>)"

text \<open>The handler's loop writes the oldest waiting frame.\<close>

definition write_one :: "stream_sub \<Rightarrow> stream_sub" where
  "write_one s = (case su_ch s of [] \<Rightarrow> s | f # fs \<Rightarrow> s\<lparr>su_ch := fs, su_out := su_out s @ [f]\<rparr>)"

definition write_next :: "string \<Rightarrow> nat \<Rightarrow> hub \<Rightarrow> hub" where
  "write_next p i h =
     (case alget (hb_subs h) p of
        None \<Rightarrow> h
      | Some ss \<Rightarrow> h\<lparr>hb_subs := alput (hb_subs h) p (map (\<lambda>(j, s). (j, if j = i then write_one s else s)) ss)\<rparr>)"

definition close_stream :: "string \<Rightarrow> nat \<Rightarrow> hub \<Rightarrow> hub" where
  "close_stream p i h = h\<lparr>hb_subs := alput (hb_subs h) p (filter (\<lambda>(j, s). j \<noteq> i) (subs_of h p))\<rparr>"

text \<open>What may happen to the hub, in any order.\<close>

datatype move =
    Fan "emitted list"
  | Open string string string "string list" "nat option"
  | Write string nat
  | Close string nat

fun do_move :: "(gval \<Rightarrow> string option) \<Rightarrow> stream list \<Rightarrow> move \<Rightarrow> hub \<Rightarrow> hub" where
  "do_move encode sts (Fan evs) h = fanoutEvents encode sts evs h"
| "do_move encode sts (Open p a k pre seen) h = open_stream p a k pre seen h"
| "do_move encode sts (Write p i) h = write_next p i h"
| "do_move encode sts (Close p i) h = close_stream p i h"

fun do_moves :: "(gval \<Rightarrow> string option) \<Rightarrow> stream list \<Rightarrow> move list \<Rightarrow> hub \<Rightarrow> hub" where
  "do_moves encode sts [] h = h"
| "do_moves encode sts (m # ms) h = do_moves encode sts ms (do_move encode sts m h)"

subsection \<open>Fan-out, stream by stream\<close>

text \<open>What a batch of events publishes, over all streams and on one, and the frames it becomes.\<close>

definition postings :: "(gval \<Rightarrow> string option) \<Rightarrow> stream list \<Rightarrow> emitted list \<Rightarrow> (string \<times> string \<times> string \<times> emitted) list" where
  "postings encode sts evs = concat (map (\<lambda>em. case encode (em_payload em) of
       None \<Rightarrow> []
     | Some dat \<Rightarrow> concat (map (\<lambda>st. map (\<lambda>d. (st_path st, sv_name d, dat, em)) (filter (carries em) (st_events st))) sts)) evs)"

fun number :: "nat \<Rightarrow> (string \<times> string \<times> emitted) list \<Rightarrow> logged_frame list" where
  "number n [] = []"
| "number n ((name, dat, em) # xs) = new_frame (Suc n) name dat em # number (Suc n) xs"

definition fresh_frames :: "(gval \<Rightarrow> string option) \<Rightarrow> stream list \<Rightarrow> string \<Rightarrow> emitted list \<Rightarrow> nat \<Rightarrow> logged_frame list" where
  "fresh_frames encode sts p evs n = number n (map snd (filter (\<lambda>x. fst x = p) (postings encode sts evs)))"

lemma fold_filter: "fold (\<lambda>d h. if P d then g d h else h) ds h = fold g (filter P ds) h"
  by (induction ds arbitrary: h) simp_all

lemma fold_concat: "fold g (concat xss) h = fold (\<lambda>xs h. fold g xs h) xss h"
  by (induction xss arbitrary: h) simp_all

lemma fan_postings:
  "fanoutEvents encode sts evs h = fold (\<lambda>(p, name, dat, em). publish p name dat em) (postings encode sts evs) h"
proof -
  let ?g = "\<lambda>(p, name, dat, em). publish p name dat em"
  have one: "fan_event encode sts em h = fold ?g (postings encode sts [em]) h" for em h
    by (simp add: fan_event_def postings_def fold_filter fold_concat fold_map comp_def split: option.split)
  have "postings encode sts (em # evs) = postings encode sts [em] @ postings encode sts evs" for em evs
    by (simp add: postings_def)
  then show ?thesis unfolding fanoutEvents_def by (induction evs arbitrary: h) (simp_all add: one postings_def)
qed

lemma log_of_publish: "log_of (publish p name dat em h) q
    = (if q = p then log_append (new_frame (Suc (lg_seq (log_of h p))) name dat em) (log_of h p) else log_of h q)"
  by (simp add: publish_def log_of_def Let_def split: option.split)

lemma subs_of_publish: "subs_of (publish p name dat em h) q
    = (if q = p then map (\<lambda>(i, s). (i, deliver (new_frame (Suc (lg_seq (log_of h p))) name dat em) s)) (subs_of h p) else subs_of h q)"
  by (auto simp: publish_def subs_of_def Let_def split: option.split)

lemma next_publish: "hb_next (publish p name dat em h) = hb_next h"
  by (simp add: publish_def Let_def)

lemma fold_publish:
  fixes xs h p
  defines "fs \<equiv> number (lg_seq (log_of h p)) (map snd (filter (\<lambda>x. fst x = p) xs))"
    and "h' \<equiv> fold (\<lambda>(p, name, dat, em). publish p name dat em) xs h"
  shows "log_of h' p = fold log_append fs (log_of h p) \<and> subs_of h' p = map (\<lambda>(i, s). (i, fold deliver fs s)) (subs_of h p)
    \<and> hb_next h' = hb_next h"
  unfolding fs_def h'_def
proof (induction xs arbitrary: h)
  case (Cons x xs)
  obtain q name dat em where x: "x = (q, name, dat, em)" by (metis prod.exhaust)
  have seq: "lg_seq (log_append f l) = lf_seq f" for f l by (simp add: log_append_def Let_def)
  show ?case
    using Cons [of "publish q name dat em h"]
    by (cases "q = p") (simp_all add: x log_of_publish subs_of_publish next_publish seq new_frame_def comp_def case_prod_beta)
qed simp

lemma fan_path:
  "log_of (fanoutEvents encode sts evs h) p = fold log_append (fresh_frames encode sts p evs (lg_seq (log_of h p))) (log_of h p)"
  "subs_of (fanoutEvents encode sts evs h) p
     = map (\<lambda>(i, s). (i, fold deliver (fresh_frames encode sts p evs (lg_seq (log_of h p))) s)) (subs_of h p)"
  "hb_next (fanoutEvents encode sts evs h) = hb_next h"
  using fold_publish [where xs = "postings encode sts evs" and h = h and p = p]
  by (simp_all add: fan_postings fresh_frames_def)

lemma number_seqs: "map lf_seq (number n xs) = [Suc n..<Suc (n + length xs)]"
proof (induction n xs rule: number.induct)
  case (2 n name dat em xs)
  have "[Suc n..<Suc (n + Suc (length xs))] = Suc n # [Suc (Suc n)..<Suc (Suc n + length xs)]"
    by (subst upt_conv_Cons) auto
  then show ?case using 2 by (simp add: new_frame_def)
qed simp

lemma length_number [simp]: "length (number n xs) = length xs"
  by (induction n xs rule: number.induct) simp_all

lemma fold_append_seq:
  "lg_seq (fold log_append fs l) = (if fs = [] then lg_seq l else lf_seq (last fs))"
  by (induction fs arbitrary: l) (auto simp: log_append_def Let_def)

lemma fan_seq: "lg_seq (fold log_append (number n xs) l) = (if xs = [] then lg_seq l else n + length xs)"
proof (cases xs rule: rev_cases)
  case (snoc ys y)
  have "number n (ys @ [y]) \<noteq> []" by (cases "(n, ys @ [y])" rule: number.cases) auto
  moreover have "last (map lf_seq (number n xs)) = n + length xs" by (simp add: number_seqs snoc)
  ultimately show ?thesis using snoc by (simp add: fold_append_seq last_map)
qed simp

subsection \<open>What one subscriber gets\<close>

definition may_see :: "string \<Rightarrow> string \<Rightarrow> logged_frame \<Rightarrow> bool" where
  "may_see actor key f \<longleftrightarrow> (case lf_to f of None \<Rightarrow> True | Some a \<Rightarrow> a = actor) \<and> lf_key f = key"

definition got :: "stream_sub \<Rightarrow> string list" where
  "got s = su_out s @ su_ch s"

definition sub_at :: "hub \<Rightarrow> string \<Rightarrow> nat \<Rightarrow> stream_sub option" where
  "sub_at h p i = alget (subs_of h p) i"

text \<open>The frames the moves publish on a stream whose log stands at \<open>n\<close>.\<close>

fun published :: "(gval \<Rightarrow> string option) \<Rightarrow> stream list \<Rightarrow> string \<Rightarrow> move list \<Rightarrow> nat \<Rightarrow> logged_frame list" where
  "published encode sts p [] n = []"
| "published encode sts p (Fan evs # ms) n =
     (let fs = fresh_frames encode sts p evs n in fs @ published encode sts p ms (n + length fs))"
| "published encode sts p (m # ms) n = published encode sts p ms n"

text \<open>No batch finds the channel without room for what the subscriber may see of it.\<close>

fun keeps_up :: "(gval \<Rightarrow> string option) \<Rightarrow> stream list \<Rightarrow> string \<Rightarrow> nat \<Rightarrow> move list \<Rightarrow> hub \<Rightarrow> bool" where
  "keeps_up encode sts p i [] h = True"
| "keeps_up encode sts p i (m # ms) h =
     ((case (m, sub_at h p i) of
         (Fan evs, Some s) \<Rightarrow>
           length (su_ch s) + length (filter (may_see (su_actor s) (su_key s)) (fresh_frames encode sts p evs (lg_seq (log_of h p))))
             \<le> channel_cap
       | _ \<Rightarrow> True)
      \<and> keeps_up encode sts p i ms (do_move encode sts m h))"

lemma visible_may_see: "visibleTo f s = may_see (su_actor s) (su_key s) f"
  by (simp add: visibleTo_def may_see_def)

lemma deliver_all:
  fixes s fs
  defines "s' \<equiv> fold deliver fs s" and "vs \<equiv> filter (may_see (su_actor s) (su_key s)) fs"
  shows "su_actor s' = su_actor s \<and> su_key s' = su_key s
    \<and> (\<exists>ds. subseq ds vs \<and> got s' = got s @ map lf_frame ds \<and> (length (su_ch s) + length vs \<le> channel_cap \<longrightarrow> ds = vs))"
  unfolding s'_def vs_def
proof (induction fs arbitrary: s)
  case (Cons f fs)
  let ?v = "may_see (su_actor s) (su_key s)" and ?s = "deliver f s"
  have same: "su_actor ?s = su_actor s" "su_key ?s = su_key s" by (simp_all add: deliver_def)
  obtain ds where ds: "subseq ds (filter ?v fs)" "got (fold deliver fs ?s) = got ?s @ map lf_frame ds"
    "length (su_ch ?s) + length (filter ?v fs) \<le> channel_cap \<longrightarrow> ds = filter ?v fs"
    using Cons [of ?s] unfolding same by blast
  have eq: "su_actor (fold deliver (f # fs) s) = su_actor s \<and> su_key (fold deliver (f # fs) s) = su_key s"
    using Cons [of ?s] same by simp
  show ?case
  proof (cases "?v f \<and> length (su_ch s) < channel_cap")
    case True
    then have "?s = s\<lparr>su_ch := su_ch s @ [lf_frame f]\<rparr>" by (simp add: deliver_def visible_may_see)
    then have g: "got ?s = got s @ [lf_frame f]" "length (su_ch ?s) = Suc (length (su_ch s))" by (simp_all add: got_def)
    then have e: "got (fold deliver (f # fs) s) = got s @ map lf_frame (f # ds)" using ds(2) by simp
    have sub: "subseq (f # ds) (filter ?v (f # fs))" using True ds(1) by simp
    have full: "length (su_ch s) + length (filter ?v (f # fs)) \<le> channel_cap \<longrightarrow> f # ds = filter ?v (f # fs)"
      using True ds(3) g(2) by simp
    show ?thesis using eq e full sub by blast
  next
    case False
    then have keep: "?s = s" by (simp add: deliver_def visible_may_see)
    have full: "length (su_ch s) + length (filter ?v (f # fs)) \<le> channel_cap \<longrightarrow> ds = filter ?v (f # fs)"
    proof (cases "?v f")
      case True
      then have "\<not> length (su_ch s) < channel_cap" using False by blast
      then show ?thesis using True by simp
    next
      case False
      then show ?thesis using ds(3) keep by simp
    qed
    have sub: "subseq ds (filter ?v (f # fs))" using ds(1) by (auto intro: list_emb_Cons)
    have e: "got (fold deliver (f # fs) s) = got s @ map lf_frame ds" using ds(2) keep by simp
    show ?thesis using eq e full sub by blast
  qed
qed (auto simp: got_def)

lemma alget_map_subs: "alget (map (\<lambda>(i, s). (i, f s)) ss) i = map_option f (alget ss i)"
  by (induction ss) auto

lemma alget_append: "alget (xs @ ys) i = (case alget xs i of Some v \<Rightarrow> Some v | None \<Rightarrow> alget ys i)"
  by (induction xs) auto

text \<open>Subscribers are numbered below the next pointer.\<close>

definition hub_ok :: "hub \<Rightarrow> bool" where
  "hub_ok h \<longleftrightarrow> (\<forall>p. \<forall>(i, s) \<in> set (subs_of h p). i < hb_next h)"

lemma subs_of_write: "subs_of (write_next p i h) q
    = (if q = p then map (\<lambda>(j, s). (j, if j = i then write_one s else s)) (subs_of h p) else subs_of h q)"
  by (auto simp: write_next_def subs_of_def split: option.split)

lemma subs_of_close: "subs_of (close_stream p i h) q = (if q = p then filter (\<lambda>(j, s). j \<noteq> i) (subs_of h p) else subs_of h q)"
  by (auto simp: close_stream_def subs_of_def)

lemma subs_of_open: "subs_of (open_stream p a k pre seen h) q
    = (if q = p then subs_of h p @ [(hb_next h, \<lparr>su_actor = a, su_key = k, su_ch = [],
          su_out = pre @ replay_of (log_of h p) seen \<lparr>su_actor = a, su_key = k, su_ch = [], su_out = pre\<rparr>\<rparr>)]
       else subs_of h q)"
  by (auto simp: open_stream_def Let_def subs_of_def)

lemma other_moves:
  "log_of (write_next p i h) q = log_of h q" "log_of (close_stream p i h) q = log_of h q" "log_of (open_stream p a k pre seen h) q = log_of h q"
  "hb_next (write_next p i h) = hb_next h" "hb_next (close_stream p i h) = hb_next h" "hb_next (open_stream p a k pre seen h) = Suc (hb_next h)"
  by (auto simp: write_next_def close_stream_def open_stream_def log_of_def Let_def split: option.split)

lemma move_ok: "hub_ok h \<Longrightarrow> hub_ok (do_move encode sts m h)"
  by (cases m) (fastforce simp: hub_ok_def fan_path other_moves subs_of_write subs_of_close subs_of_open split: if_splits)+

lemma sub_at_write: "sub_at (write_next q j h) p i = (if q = p \<and> j = i then map_option write_one (sub_at h p i) else sub_at h p i)"
proof -
  have "alget (map (\<lambda>(k, s). (k, if k = j then f s else s)) ss) i = (if j = i then map_option f (alget ss i) else alget ss i)"
    for f :: "stream_sub \<Rightarrow> stream_sub" and ss
    by (induction ss) auto
  from this [where f = write_one] show ?thesis by (cases "q = p") (auto simp: sub_at_def subs_of_write)
qed

lemma sub_at_close: "q \<noteq> p \<or> j \<noteq> i \<Longrightarrow> sub_at (close_stream q j h) p i = sub_at h p i"
proof -
  have "j \<noteq> i \<Longrightarrow> alget (filter (\<lambda>(k, s). k \<noteq> j) ss) i = alget ss i" for ss :: "(nat \<times> stream_sub) list"
    by (induction ss) auto
  then show "q \<noteq> p \<or> j \<noteq> i \<Longrightarrow> ?thesis" by (auto simp: sub_at_def subs_of_close)
qed

lemma sub_at_open: "sub_at h p i = Some s \<Longrightarrow> sub_at (open_stream q a k pre seen h) p i = Some s"
  by (cases "q = p") (simp_all add: sub_at_def subs_of_open alget_append)

lemma got_write: "got (write_one s) = got s" "su_actor (write_one s) = su_actor s" "su_key (write_one s) = su_key s"
  by (cases "su_ch s"; simp add: write_one_def got_def)+

text \<open>What a subscriber has got grows by frames it may see, by all of them when it keeps up.\<close>

lemma moves_got:
  "sub_at h p i = Some s \<Longrightarrow> Close p i \<notin> set ms \<Longrightarrow>
   \<exists>s' ds. sub_at (do_moves encode sts ms h) p i = Some s' \<and> su_actor s' = su_actor s \<and> su_key s' = su_key s
     \<and> got s' = got s @ map lf_frame ds
     \<and> subseq ds (filter (may_see (su_actor s) (su_key s)) (published encode sts p ms (lg_seq (log_of h p))))
     \<and> (keeps_up encode sts p i ms h \<longrightarrow>
          ds = filter (may_see (su_actor s) (su_key s)) (published encode sts p ms (lg_seq (log_of h p))))"
proof (induction ms arbitrary: h s)
  case (Cons m ms)
  let ?h = "do_move encode sts m h" and ?v = "may_see (su_actor s) (su_key s)"
  show ?case
  proof (cases "\<exists>evs. m = Fan evs")
    case True
    then obtain evs where m: "m = Fan evs" by blast
    let ?n = "lg_seq (log_of h p)"
    let ?fs = "fresh_frames encode sts p evs ?n"
    let ?s = "fold deliver ?fs s"
    have at: "sub_at ?h p i = Some ?s" using Cons.prems(1) by (simp add: m sub_at_def fan_path alget_map_subs)
    have seq: "lg_seq (log_of ?h p) = ?n + length ?fs"
      by (simp add: m fan_path fresh_frames_def fan_seq length_number)
    obtain ds where ds: "su_actor ?s = su_actor s" "su_key ?s = su_key s" "subseq ds (filter ?v ?fs)" "got ?s = got s @ map lf_frame ds"
      "length (su_ch s) + length (filter ?v ?fs) \<le> channel_cap \<longrightarrow> ds = filter ?v ?fs"
      using deliver_all [of ?fs s] by blast
    obtain s' es where es: "sub_at (do_moves encode sts ms ?h) p i = Some s'" "su_actor s' = su_actor s" "su_key s' = su_key s"
      "got s' = got ?s @ map lf_frame es"
      "subseq es (filter ?v (published encode sts p ms (?n + length ?fs)))"
      "keeps_up encode sts p i ms ?h \<longrightarrow> es = filter ?v (published encode sts p ms (?n + length ?fs))"
      using Cons.IH [OF at] Cons.prems(2) unfolding ds(1,2) seq by auto
    have p: "filter ?v (published encode sts p (m # ms) ?n) = filter ?v ?fs @ filter ?v (published encode sts p ms (?n + length ?fs))"
      by (simp add: m Let_def)
    have sub: "subseq (ds @ es) (filter ?v (published encode sts p (m # ms) ?n))"
      unfolding p by (rule list_emb_append_mono [OF ds(3) es(5)])
    have full: "keeps_up encode sts p i (m # ms) h \<longrightarrow> ds @ es = filter ?v (published encode sts p (m # ms) ?n)"
      unfolding p using ds(5) es(6) Cons.prems(1) by (simp add: m)
    show ?thesis using es(1-4) ds(4) sub full by (intro exI [of _ s'] exI [of _ "ds @ es"]) simp
  next
    case False
    have at: "\<exists>t. sub_at ?h p i = Some t \<and> got t = got s \<and> su_actor t = su_actor s \<and> su_key t = su_key s"
    proof (cases m)
      case (Write q j)
      then show ?thesis using Cons.prems(1) by (cases "q = p \<and> j = i") (auto simp: sub_at_write got_write)
    next
      case (Close q j)
      then show ?thesis using Cons.prems by (auto simp: sub_at_close)
    next
      case (Open q a k pre seen)
      then show ?thesis using Cons.prems(1) by (auto simp: sub_at_open)
    qed (use False in auto)
    then obtain t where t: "sub_at ?h p i = Some t" "got t = got s" "su_actor t = su_actor s" "su_key t = su_key s" by blast
    have "lg_seq (log_of ?h p) = lg_seq (log_of h p)" "published encode sts p (m # ms) n = published encode sts p ms n" for n
      using False by (cases m; simp add: other_moves)+
    then show ?thesis using Cons.IH [OF t(1)] Cons.prems(2) t(2-4) by auto
  qed
qed auto

subsection \<open>What the log remembers\<close>

definition newest :: "logged_frame list \<Rightarrow> logged_frame list" where
  "newest fs = drop (length fs - streamLogCap) fs"

lemma newest_append: "newest (newest fs @ [f]) = newest (fs @ [f])"
proof (cases "length fs \<le> streamLogCap")
  case False
  then have "Suc (length fs) - (length fs - streamLogCap + streamLogCap) + (length fs - streamLogCap) = Suc (length fs) - streamLogCap"
    by simp
  then show ?thesis using False by (simp add: newest_def Suc_diff_le)
qed (simp add: newest_def)

lemma fold_newest:
  "lg_frames l = newest xs \<Longrightarrow> lg_frames (fold log_append fs l) = newest (xs @ fs)"
proof (induction fs arbitrary: l xs)
  case (Cons f fs)
  have "lg_frames (log_append f l) = newest (xs @ [f])"
    using newest_append [of xs f] Cons.prems by (simp add: log_append_def Let_def newest_def)
  from Cons.IH [OF this] show ?case by simp
qed simp

lemma log_moves:
  "lg_frames (log_of h p) = newest xs \<Longrightarrow> lg_seq (log_of h p) = length xs \<Longrightarrow>
   lg_frames (log_of (do_moves encode sts ms h) p) = newest (xs @ published encode sts p ms (length xs))
   \<and> lg_seq (log_of (do_moves encode sts ms h) p) = length xs + length (published encode sts p ms (length xs))"
proof (induction ms arbitrary: h xs)
  case (Cons m ms)
  show ?case
  proof (cases "\<exists>evs. m = Fan evs")
    case True
    then obtain evs where m: "m = Fan evs" by blast
    let ?fs = "fresh_frames encode sts p evs (length xs)"
    have "lg_frames (log_of (do_move encode sts m h) p) = newest (xs @ ?fs)"
      using fold_newest [OF Cons.prems(1)] Cons.prems(2) by (simp add: m fan_path)
    moreover have "lg_seq (log_of (do_move encode sts m h) p) = length (xs @ ?fs)"
      using Cons.prems(2) by (simp add: m fan_path fresh_frames_def fan_seq)
    ultimately show ?thesis using Cons.IH [of "do_move encode sts m h" "xs @ ?fs"] by (simp add: m Let_def)
  next
    case False
    then have "log_of (do_move encode sts m h) p = log_of h p" "published encode sts p (m # ms) n = published encode sts p ms n" for n
      by (cases m; simp add: other_moves)+
    then show ?thesis using Cons by simp
  qed
qed simp

definition no_hub :: hub where
  "no_hub = \<lparr>hb_logs = [], hb_subs = [], hb_next = 0\<rparr>"

lemma log_from_start:
  "lg_frames (log_of (do_moves encode sts ms no_hub) p) = newest (published encode sts p ms 0)"
  "lg_seq (log_of (do_moves encode sts ms no_hub) p) = length (published encode sts p ms 0)"
  using log_moves [of no_hub p "[]" encode sts ms] by (simp_all add: no_hub_def log_of_def newest_def)

lemma published_append: "published encode sts p (ms @ ms') n
    = published encode sts p ms n @ published encode sts p ms' (n + length (published encode sts p ms n))"
  by (induction encode sts p ms n rule: published.induct) (simp_all add: Let_def add.assoc)

lemma do_moves_append: "do_moves encode sts (ms @ ms') h = do_moves encode sts ms' (do_moves encode sts ms h)"
  by (induction ms arbitrary: h) simp_all

lemma published_seqs: "map lf_seq (published encode sts p ms n) = [Suc n..<Suc (n + length (published encode sts p ms n))]"
proof (induction encode sts p ms n rule: published.induct)
  case (2 encode sts p evs ms n)
  let ?fs = "fresh_frames encode sts p evs n" and ?r = "published encode sts p ms (n + length (fresh_frames encode sts p evs n))"
  have "map lf_seq ?fs = [Suc n..<Suc (n + length ?fs)]" by (simp add: fresh_frames_def number_seqs del: upt_Suc)
  then have "map lf_seq (?fs @ ?r) = [Suc n..<Suc (n + length ?fs)] @ [Suc (n + length ?fs)..<Suc (n + length ?fs + length ?r)]"
    using 2 by (simp add: Let_def del: upt_Suc)
  also have "\<dots> = [Suc n..<Suc (n + length ?fs + length ?r)]"
    using upt_add_eq_append [of "Suc n" "Suc (n + length ?fs)" "length ?r"] by (simp del: upt_Suc)
  finally show ?case by (simp add: Let_def add.assoc del: upt_Suc)
qed simp_all

text \<open>Frames numbered from one: those after \<open>n\<close> are all but the first \<open>n\<close>.\<close>

lemma after_seq:
  assumes "map lf_seq fs = [Suc 0..<Suc (length fs)]"
  shows "filter (\<lambda>f. n < lf_seq f) fs = drop n fs"
proof -
  have q: "lf_seq (fs ! i) = Suc i" if "i < length fs" for i
  proof -
    have "map lf_seq fs ! i = [Suc 0..<Suc (length fs)] ! i" using assms by simp
    then show ?thesis using that by (simp add: nth_upt del: upt_Suc)
  qed
  have "filter (\<lambda>f. n < lf_seq f) (take n fs) = []"
    by (auto simp: filter_empty_conv in_set_conv_nth q)
  moreover have "filter (\<lambda>f. n < lf_seq f) (drop n fs) = drop n fs"
    by (auto simp: filter_id_conv in_set_conv_nth q)
  ultimately show ?thesis by (metis append_Nil append_take_drop_id filter_append)
qed

lemma after_newest:
  assumes "map lf_seq fs = [Suc 0..<Suc (length fs)]" "length fs \<le> n + streamLogCap"
  shows "filter (\<lambda>f. n < lf_seq f) (newest fs) = drop n fs"
proof -
  let ?k = "length fs - streamLogCap"
  have "drop n fs = filter (\<lambda>f. n < lf_seq f) (take ?k fs @ drop ?k fs)"
    unfolding append_take_drop_id using after_seq [OF assms(1)] by simp
  moreover have "filter (\<lambda>f. n < lf_seq f) (take ?k fs) = []"
  proof -
    have "lf_seq f \<le> n" if "f \<in> set (take ?k fs)" for f
    proof -
      obtain i where i: "i < ?k" "i < length fs" "f = fs ! i" using \<open>f \<in> _\<close> by (auto simp: in_set_conv_nth)
      have "map lf_seq fs ! i = [Suc 0..<Suc (length fs)] ! i" using assms(1) by simp
      then have "lf_seq f = Suc i" using i by (simp add: nth_upt del: upt_Suc)
      then show ?thesis using i assms(2) by simp
    qed
    then show ?thesis by (auto simp: filter_empty_conv not_less)
  qed
  ultimately show ?thesis unfolding newest_def filter_append by simp
qed

subsection \<open>Delivery\<close>

lemma opened:
  assumes "hub_ok h"
  shows "\<exists>s. sub_at (open_stream p a k pre seen h) p (hb_next h) = Some s \<and> su_actor s = a \<and> su_key s = k
    \<and> got s = pre @ (case seen of None \<Rightarrow> [] | Some n \<Rightarrow> map lf_frame (filter (may_see a k) (filter (\<lambda>f. n < lf_seq f) (lg_frames (log_of h p)))))"
proof -
  have "alget (subs_of h p) (hb_next h) = None" using assms by (fastforce simp: alget_None_iff hub_ok_def)
  then show ?thesis
    by (auto simp: sub_at_def subs_of_open alget_append got_def replay_of_def visible_may_see conj_commute split: option.split)
qed

lemma moves_ok: "hub_ok h \<Longrightarrow> hub_ok (do_moves encode sts ms h)"
  by (induction ms arbitrary: h) (simp_all add: move_ok)

lemma start_ok: "hub_ok (do_moves encode sts ms no_hub)"
  by (rule moves_ok) (simp add: hub_ok_def no_hub_def subs_of_def)

text \<open>
  C16: A client that resumes a stream from an event it has seen, no more than 512 events later,
  and keeps up from then on, is written after the opening frames exactly the events that
  follow, of those it may see: none lost between the replay and the live events, none twice,
  in order, whatever else happens to the hub in between.
\<close>

theorem stream_exactly_once:
  fixes encode sts p before after
  defines "h \<equiv> do_moves encode sts before no_hub"
  assumes "n \<le> length (published encode sts p before 0)" "length (published encode sts p before 0) \<le> n + 512"
    "Close p (hb_next h) \<notin> set after" "keeps_up encode sts p (hb_next h) after (open_stream p a k pre (Some n) h)"
  shows "\<exists>s. sub_at (do_moves encode sts (before @ Open p a k pre (Some n) # after) no_hub) p (hb_next h) = Some s
    \<and> su_out s @ su_ch s = pre @ map lf_frame (filter (may_see a k) (drop n (published encode sts p (before @ after) 0)))"
proof -
  let ?old = "published encode sts p before 0" and ?h = "open_stream p a k pre (Some n) h"
  let ?new = "published encode sts p after (length ?old)"
  obtain s0 where s0: "sub_at ?h p (hb_next h) = Some s0" "su_actor s0 = a" "su_key s0 = k"
    "got s0 = pre @ map lf_frame (filter (may_see a k) (filter (\<lambda>f. n < lf_seq f) (lg_frames (log_of h p))))"
    using opened [of h p a k pre "Some n"] start_ok unfolding h_def by auto
  have "filter (\<lambda>f. n < lf_seq f) (lg_frames (log_of h p)) = drop n ?old"
    unfolding h_def log_from_start
    by (rule after_newest) (use published_seqs [of encode sts p before 0] assms(3) in \<open>simp_all add: streamLogCap_def del: upt_Suc\<close>)
  then have g: "got s0 = pre @ map lf_frame (filter (may_see a k) (drop n ?old))" using s0(4) by simp
  have q: "lg_seq (log_of ?h p) = length ?old" by (simp add: other_moves h_def log_from_start)
  obtain s where s: "sub_at (do_moves encode sts after ?h) p (hb_next h) = Some s"
    "got s = got s0 @ map lf_frame (filter (may_see a k) ?new)"
    using moves_got [OF s0(1) assms(4), of encode sts] assms(5) s0(2,3) q by auto
  have "drop n (published encode sts p (before @ after) 0) = drop n ?old @ ?new"
    using assms(2) by (simp add: published_append)
  then show ?thesis using s g by (auto simp: do_moves_append h_def got_def)
qed

text \<open>
  C17: However slow its client and wherever it resumes, a subscriber is only ever written events
  addressed to everybody or to its own actor, of its own stream instance, each at most once
  and in the order they were published.
\<close>

theorem stream_only_own:
  fixes encode sts p before after
  defines "h \<equiv> do_moves encode sts before no_hub"
  assumes "Close p (hb_next h) \<notin> set after"
  shows "\<exists>s ds. sub_at (do_moves encode sts (before @ Open p a k pre seen # after) no_hub) p (hb_next h) = Some s
    \<and> su_out s @ su_ch s = pre @ map lf_frame ds \<and> subseq ds (filter (may_see a k) (published encode sts p (before @ after) 0))"
proof -
  let ?old = "published encode sts p before 0" and ?h = "open_stream p a k pre seen h"
  let ?new = "published encode sts p after (length ?old)"
  obtain s0 where s0: "sub_at ?h p (hb_next h) = Some s0" "su_actor s0 = a" "su_key s0 = k"
    "got s0 = pre @ (case seen of None \<Rightarrow> [] | Some n \<Rightarrow> map lf_frame (filter (may_see a k) (filter (\<lambda>f. n < lf_seq f) (newest ?old))))"
    using opened [of h p a k pre seen] start_ok unfolding h_def log_from_start by blast
  have q: "lg_seq (log_of ?h p) = length ?old" by (simp add: other_moves h_def log_from_start)
  obtain rs where rs: "got s0 = pre @ map lf_frame rs" "subseq rs (filter (may_see a k) ?old)"
  proof (cases seen)
    case None
    then show ?thesis using that [of "[]"] s0(4) by simp
  next
    case (Some n)
    have "subseq (filter (\<lambda>f. n < lf_seq f) (newest ?old)) ?old"
      unfolding newest_def by (rule subseq_order.trans [OF subseq_filter_left suffix_imp_subseq [OF suffix_drop]])
    then have "subseq (filter (may_see a k) (filter (\<lambda>f. n < lf_seq f) (newest ?old))) (filter (may_see a k) ?old)"
      by (rule subseq_filter)
    then show ?thesis using that s0(4) Some by simp
  qed
  obtain s ds where s: "sub_at (do_moves encode sts after ?h) p (hb_next h) = Some s"
    "got s = got s0 @ map lf_frame ds" "subseq ds (filter (may_see a k) ?new)"
    using moves_got [OF s0(1) assms(2), of encode sts] s0(2,3) q by auto
  have "subseq (rs @ ds) (filter (may_see a k) (published encode sts p (before @ after) 0))"
    using list_emb_append_mono [OF rs(2) s(3)] by (simp add: published_append)
  then show ?thesis using s(1,2) rs(1) by (intro exI [of _ s] exI [of _ "rs @ ds"]) (simp add: do_moves_append h_def got_def)
qed

subsection \<open>Examples\<close>

definition ex_streams :: "stream list" where
  "ex_streams = [\<lparr>st_path = ''/s'', st_events = [\<lparr>sv_name = ''note'', sv_type = ''NoteDTO''\<rparr>]\<rparr>]"

definition note_to :: "string option \<Rightarrow> emitted" where
  "note_to a = \<lparr>em_type = ''NoteDTO'', em_name = [], em_payload = GNil, em_to = a, em_key = []\<rparr>"

definition no_payload :: "gval \<Rightarrow> string option" where
  "no_payload v = Some ''{}''"

text \<open>Two events, a resume after the first, a third for everybody and a fourth for somebody else.\<close>

theorem stream_exactly_once_witness:
  "\<exists>s. sub_at (do_moves no_payload ex_streams ([Fan [note_to None, note_to None]] @ Open ''/s'' ''ada'' [] [''hi''] (Some 1)
         # [Fan [note_to None, note_to (Some ''bob'')], Write ''/s'' 0]) no_hub) ''/s'' (hb_next (do_moves no_payload ex_streams [Fan [note_to None, note_to None]] no_hub)) = Some s
     \<and> su_out s @ su_ch s = [''hi'', frame_text 2 ''note'' ''{}'', frame_text 3 ''note'' ''{}'']"
proof -
  have p: "filter (may_see ''ada'' []) (drop 1 (published no_payload ex_streams ''/s'' ([Fan [note_to None, note_to None]] @ [Fan [note_to None, note_to (Some ''bob'')], Write ''/s'' 0]) 0))
     = [\<lparr>lf_seq = 2, lf_frame = frame_text 2 ''note'' ''{}'', lf_to = None, lf_key = []\<rparr>,
        \<lparr>lf_seq = 3, lf_frame = frame_text 3 ''note'' ''{}'', lf_to = None, lf_key = []\<rparr>]"
    by code_simp
  have "\<exists>s. sub_at (do_moves no_payload ex_streams ([Fan [note_to None, note_to None]] @ Open ''/s'' ''ada'' [] [''hi''] (Some 1)
         # [Fan [note_to None, note_to (Some ''bob'')], Write ''/s'' 0]) no_hub) ''/s'' (hb_next (do_moves no_payload ex_streams [Fan [note_to None, note_to None]] no_hub)) = Some s
     \<and> su_out s @ su_ch s = [''hi''] @ map lf_frame (filter (may_see ''ada'' []) (drop 1 (published no_payload ex_streams ''/s''
         ([Fan [note_to None, note_to None]] @ [Fan [note_to None, note_to (Some ''bob'')], Write ''/s'' 0]) 0)))"
    by (rule stream_exactly_once) code_simp+
  then show ?thesis unfolding p by simp
qed

text \<open>
  A client that falls behind by more than its channel loses event 33, is then written event
  34, and resumes after that: event 33 never reaches it.
\<close>

theorem dropped_event_not_resumed:
  "(case sub_at (do_moves no_payload ex_streams
       [Open ''/s'' ''ada'' [] [] None, Fan (replicate 33 (note_to None)), Write ''/s'' 0, Fan [note_to None]] no_hub) ''/s'' 0 of
     Some s \<Rightarrow> last (su_ch s) = frame_text 34 ''note'' ''{}'' \<and> frame_text 33 ''note'' ''{}'' \<notin> set (su_out s @ su_ch s) | None \<Rightarrow> False)
   \<and> (case sub_at (do_moves no_payload ex_streams
       [Open ''/s'' ''ada'' [] [] None, Fan (replicate 33 (note_to None)), Write ''/s'' 0, Fan [note_to None], Close ''/s'' 0,
        Open ''/s'' ''ada'' [] [] (Some 34)] no_hub) ''/s'' 1 of
     Some s \<Rightarrow> su_out s @ su_ch s = [] | None \<Rightarrow> False)"
  by code_simp

text \<open>Numbers restart with the server: a client that saw event 5 of the last run misses the first ones of this run.\<close>

theorem restart_resume_misses:
  "(case sub_at (do_moves no_payload ex_streams [Fan [note_to None, note_to None], Open ''/s'' ''ada'' [] [] (Some 5)] no_hub) ''/s'' 0 of
     Some s \<Rightarrow> su_out s @ su_ch s = [] | None \<Rightarrow> False)"
  by code_simp

theorem stream_only_own_witness:
  "\<exists>s ds. sub_at (do_moves no_payload ex_streams ([Fan [note_to (Some ''bob'')]] @ Open ''/s'' ''ada'' [] [] (Some 0)
         # [Fan [note_to (Some ''bob''), note_to None]]) no_hub) ''/s'' (hb_next (do_moves no_payload ex_streams [Fan [note_to (Some ''bob'')]] no_hub)) = Some s
     \<and> su_out s @ su_ch s = [] @ map lf_frame ds
     \<and> subseq ds (filter (may_see ''ada'' []) (published no_payload ex_streams ''/s'' ([Fan [note_to (Some ''bob'')]] @ [Fan [note_to (Some ''bob''), note_to None]]) 0))"
  by (rule stream_only_own) simp

end
