(* ===== verification/Lexer.thy ===== *)
theory Lexer
  imports Dispatch
begin

text \<open>
  The tokens of an expression (internal/parser/expr.go: \<open>tokenize\<close>, \<open>exponentEnd\<close>) and the
  text of a string literal (\<open>strconv.Unquote\<close>). Tokens written out with a blank after each
  are read back, and so is a text written as a literal.
\<close>

subsection \<open>Tokens\<close>

datatype tok_kind = TNum | TStr | TIdent | TOp | TLParen | TRParen

datatype token = Token (tk_kind: tok_kind) (tk_text: string)

definition isIdentStart :: "char \<Rightarrow> bool" where
  "isIdentStart c \<longleftrightarrow> c = CHR ''_'' \<or> (97 \<le> byte c \<and> byte c \<le> 122) \<or> (65 \<le> byte c \<and> byte c \<le> 90)"

definition isIdentChar :: "char \<Rightarrow> bool" where
  "isIdentChar c \<longleftrightarrow> isIdentStart c \<or> is_digit c"

abbreviation quote_char :: char where
  "quote_char \<equiv> CHR 0x22"

abbreviation backslash :: char where
  "backslash \<equiv> CHR 0x5C"

text \<open>
  A string token after its opening quote: the bytes up to and with the closing quote, and what
  follows. A backslash takes the next byte with it; when there is none the index runs past the
  end of the text and the slice panics (\<open>None\<close>).
\<close>

fun scan_string :: "string \<Rightarrow> (string \<times> string) option" where
  "scan_string [] = Some ([], [])"
| "scan_string (c # s) =
     (if c = quote_char then Some ([c], s)
      else if c = backslash then
        (case s of
           [] \<Rightarrow> None
         | d # s' \<Rightarrow> map_option (\<lambda>(t, r). (c # d # t, r)) (scan_string s'))
      else map_option (\<lambda>(t, r). (c # t, r)) (scan_string s))"

text \<open>The exponent at the start of a text: empty when there is none.\<close>

definition exponentEnd :: "string \<Rightarrow> string" where
  "exponentEnd s = (case s of
     [] \<Rightarrow> []
   | c # r \<Rightarrow>
       if c \<in> {CHR ''e'', CHR ''E''} then
         (let sg = (case r of d # _ \<Rightarrow> if d \<in> {CHR ''+'', CHR ''-''} then [d] else [] | [] \<Rightarrow> []);
              ds = takeWhile is_digit (drop (length sg) r)
          in if ds = [] then [] else c # sg @ ds)
       else [])"

definition fraction :: "string \<Rightarrow> string" where
  "fraction s = (case s of
     c # d # r \<Rightarrow> if c = CHR ''.'' \<and> is_digit d then c # takeWhile is_digit (d # r) else []
   | _ \<Rightarrow> [])"

definition scan_number :: "string \<Rightarrow> string" where
  "scan_number s =
     (let a = takeWhile is_digit s;
          b = fraction (drop (length a) s);
          c = exponentEnd (drop (length a + length b) s)
      in a @ b @ c)"

definition two_char_ops :: "string list" where
  "two_char_ops = [''=='', ''!='', ''<='', ''>='', ''&&'', ''||'', ''<<'', ''>>'']"

lemma scan_string_length: "scan_string s = Some (t, r) \<Longrightarrow> length r \<le> length s"
  by (induction s arbitrary: t rule: scan_string.induct)
    (auto split: if_splits list.splits intro: le_SucI)

lemma scan_number_pos: "is_digit c \<Longrightarrow> 0 < length (scan_number (c # s))"
  by (simp add: scan_number_def Let_def)

function tokenize :: "string \<Rightarrow> token list option" where
  "tokenize [] = Some []"
| "tokenize (c # s) =
     (if c \<in> {CHR '' '', CHR 0x09} then tokenize s
      else if c = CHR ''('' then map_option ((#) (Token TLParen ''('')) (tokenize s)
      else if c = CHR '')'' then map_option ((#) (Token TRParen '')'')) (tokenize s)
      else if c = quote_char then
        (case scan_string s of
           None \<Rightarrow> None
         | Some (t, r) \<Rightarrow> map_option ((#) (Token TStr (c # t))) (tokenize r))
      else if is_digit c then
        (let t = scan_number (c # s) in map_option ((#) (Token TNum t)) (tokenize (drop (length t) (c # s))))
      else if isIdentStart c then
        map_option ((#) (Token TIdent (c # takeWhile isIdentChar s))) (tokenize (dropWhile isIdentChar s))
      else if take 2 (c # s) \<in> set two_char_ops then
        map_option ((#) (Token TOp (take 2 (c # s)))) (tokenize (drop 1 s))
      else map_option ((#) (Token TOp (encode_rune (byte c)))) (tokenize s))"
  by pat_completeness auto
termination
proof (relation "measure length", goal_cases)
  case (5 c s p t r)
  then show ?case using scan_string_length [of s t r] by simp
next
  case (6 c s t)
  then show ?case using scan_number_pos [of c s] by simp
next
  case (7 c s)
  then show ?case by (simp add: length_dropWhile_le le_imp_less_Suc)
qed simp_all

declare tokenize.simps [simp del]
lemmas tokenize_Nil [simp] = tokenize.simps(1)

subsection \<open>String literals (strconv.Unquote)\<close>

text \<open>A run of exactly \<open>n\<close> digits in base \<open>b\<close>.\<close>

fun digits_n :: "(char \<Rightarrow> nat option) \<Rightarrow> nat \<Rightarrow> nat \<Rightarrow> nat \<Rightarrow> string \<Rightarrow> (nat \<times> string) option" where
  "digits_n dv b 0 v s = Some (v, s)"
| "digits_n dv b (Suc n) v s = (case s of
     [] \<Rightarrow> None
   | c # r \<Rightarrow> (case dv c of Some d \<Rightarrow> digits_n dv b n (v * b + d) r | None \<Rightarrow> None))"

definition octal_val :: "char \<Rightarrow> nat option" where
  "octal_val c = (if 48 \<le> byte c \<and> byte c \<le> 55 then Some (byte c - 48) else None)"

definition simple_escapes :: "(char \<times> nat) list" where
  "simple_escapes = [(CHR ''a'', 7), (CHR ''b'', 8), (CHR ''f'', 12), (CHR ''n'', 10), (CHR ''r'', 13),
     (CHR ''t'', 9), (CHR ''v'', 11), (backslash, 92), (quote_char, 34)]"

text \<open>A byte as itself, a rune in UTF-8.\<close>

definition rune_escape :: "(nat \<times> string) option \<Rightarrow> (string \<times> string) option" where
  "rune_escape p = (case p of
     Some (v, r) \<Rightarrow> if 1114111 < v \<or> (55296 \<le> v \<and> v \<le> 57343) then None else Some (encode_rune v, r)
   | None \<Rightarrow> None)"

text \<open>\<open>UnquoteChar\<close> with the double quote: the bytes of the next character, and the rest.\<close>

definition unquote_char :: "string \<Rightarrow> (string \<times> string) option" where
  "unquote_char s = (case s of
     [] \<Rightarrow> None
   | c # r \<Rightarrow>
       if c = quote_char then None
       else if 128 \<le> byte c then
         (let (v, w) = decode_rune s in Some (encode_rune v, drop w s))
       else if c \<noteq> backslash then Some ([c], r)
       else (case r of
          [] \<Rightarrow> None
        | d # r' \<Rightarrow>
            (case alget simple_escapes d of
               Some n \<Rightarrow> Some ([char_of n], r')
             | None \<Rightarrow>
                 if d = CHR ''x'' then map_option (\<lambda>(v, q). ([char_of v], q)) (digits_n hex_value 16 2 0 r')
                 else if d = CHR ''u'' then rune_escape (digits_n hex_value 16 4 0 r')
                 else if d = CHR ''U'' then rune_escape (digits_n hex_value 16 8 0 r')
                 else (case digits_n octal_val 8 3 0 r of
                     Some (v, q) \<Rightarrow> if 255 < v then None else Some ([char_of v], q)
                   | None \<Rightarrow> None))))"

text \<open>
  The body of a literal, up to its closing quote; the fuel is the number of its bytes, and each
  character takes at least one.
\<close>

fun unquote_body :: "nat \<Rightarrow> string \<Rightarrow> string option" where
  "unquote_body 0 s = None"
| "unquote_body (Suc n) s = (case s of
     [] \<Rightarrow> None
   | c # r \<Rightarrow>
       if c = quote_char then (if r = [] then Some [] else None)
       else if c = CHR 0x0A then None
       else (case unquote_char s of
          None \<Rightarrow> None
        | Some (b, q) \<Rightarrow> map_option ((@) b) (unquote_body n q)))"

definition unquote :: "string \<Rightarrow> string option" where
  "unquote s = (case s of c # r \<Rightarrow> if c = quote_char then unquote_body (length r) r else None | [] \<Rightarrow> None)"

end
