(* ===== verification/ExprParser.thy ===== *)
theory ExprParser
  imports Lexer Lower
begin

text \<open>
  The expression parser (internal/parser/expr.go): precedence climbing over the tokens, with
  postfix access, calls, aggregates, and list, map and struct literals. A parser is a function
  of the remaining tokens; \<open>None\<close> is fuel run out, which \<open>parse_ends\<close> (theory \<open>ParserLaws\<close>) shows does not
  happen with one step more than there are tokens.
\<close>

subsection \<open>Builtins in call position (internal/parser/builtins.go)\<close>

datatype builtin_site = SiteEverywhere | SiteAuthority | SiteProc

definition everywhere_builtins :: "string list" where
  "everywhere_builtins =
    [''now'', ''rand'', ''abs'', ''min'', ''max'', ''floor'', ''round'', ''money'', ''toMoney'',
    ''toFloat'', ''toInt'', ''len'', ''upper'', ''lower'', ''trim'', ''contains'', ''take'', ''split'',
    ''join'', ''slice'', ''charAt'', ''replace'', ''slug'', ''byteLen'', ''indexOf'', ''year'',
    ''month'', ''day'', ''ago'', ''compact'', ''commas'', ''iso'', ''fromIso'', ''first'',
    ''fromJson'']"

definition authority_builtins :: "string list" where
  "authority_builtins =
    [''print'', ''given'', ''floatBits'', ''floatFromBits'', ''exp'', ''ln'', ''sqrt'', ''sin'',
    ''cos'', ''verifyPassword'', ''totpSecret'', ''totpValid'', ''randomToken'', ''fileDigest'',
    ''ed25519Verify'', ''ecdsaP256Verify'', ''sha256Hex'', ''canonicalJson'', ''shuffleOrder'',
    ''u64Cmp'', ''u64Min'', ''u64Max'', ''u64SatSub'', ''u64Div'', ''u64Rem'', ''u64Text'',
    ''u64Parse'', ''u64ParseError'', ''u64ToFloat'', ''fromLocal'', ''formatIn'', ''zoneValid'']"

definition proc_builtins :: "string list" where
  "proc_builtins =
    [''append'', ''bytes'', ''textToBytes'', ''bytesToText'', ''validUtf8'', ''jsonQuote'',
    ''aesGcmSeal'', ''aesGcmOpen'', ''aesGcmAuthentic'', ''randomBytes'', ''p256PrivateKey'',
    ''p256PublicKey'', ''p256Ecdh'', ''es256Sign'', ''fromBase64UrlRaw'', ''httpSend'',
    ''uploadBytes'', ''sha256Bytes'', ''hmacSha256'', ''base64UrlRaw'', ''bcryptHash'',
    ''bcryptMatches'', ''readFile'', ''writeFile'', ''appendFile'', ''fileExists'', ''truncateFile'',
    ''fileSize'', ''fileModTime'', ''readFileAt'', ''writeFileAt'', ''syncFile'', ''renameFile'',
    ''removeFile'', ''lockFile'', ''crc32'', ''bytesCmp'', ''bytesCmpRange'', ''uintLE'', ''toHex'',
    ''fromHex'', ''bytesPut'', ''httpGet'', ''httpPost'', ''listen'', ''listenOn'', ''accept'',
    ''connect'', ''readBytes'', ''writeBytes'', ''closeConn'', ''setTimeoutMs'', ''connError'',
    ''pollBytes'', ''connOpen'', ''shutdownConn'', ''closeWrite'', ''closeListener'', ''listenError'',
    ''listenerPort'', ''grantRead'', ''grantDir'', ''listDir'', ''makeDir'', ''readStdinLine'',
    ''writeStdout'', ''writeStderr'', ''readStdin'', ''envVar'', ''envSet'', ''channel'', ''send'',
    ''trySend'', ''recv'', ''sleepMs'', ''monoMs'', ''nowMs'', ''signals'', ''awaitAny'',
    ''closeChannel'', ''exitProcess'', ''processStats'', ''listenTls'', ''connPeer'', ''connectTls'']"

definition BuiltinSiteOf :: "string \<Rightarrow> builtin_site option" where
  "BuiltinSiteOf n =
     (if n \<in> set everywhere_builtins then Some SiteEverywhere
      else if n \<in> set authority_builtins then Some SiteAuthority
      else if n \<in> set proc_builtins then Some SiteProc
      else None)"

definition IsBuiltinCall :: "string \<Rightarrow> bool" where
  "IsBuiltinCall n \<longleftrightarrow> BuiltinSiteOf n \<noteq> None"

definition isUpper :: "string \<Rightarrow> bool" where
  "isUpper s = (case s of c # _ \<Rightarrow> 65 \<le> byte c \<and> byte c \<le> 90 | [] \<Rightarrow> False)"

lemma builtins_lower: "IsBuiltinCall n \<Longrightarrow> \<not> isUpper n"
proof -
  have "\<forall>n \<in> set everywhere_builtins. \<not> isUpper n" "\<forall>n \<in> set authority_builtins. \<not> isUpper n"
    "\<forall>n \<in> set proc_builtins. \<not> isUpper n"
    by code_simp+
  then show "IsBuiltinCall n \<Longrightarrow> \<not> isUpper n"
    by (auto simp: IsBuiltinCall_def BuiltinSiteOf_def split: if_splits)
qed

subsection \<open>Parsers\<close>

datatype perr =
    UnexpectedToken string
  | UnexpectedEnd
  | MissingLookupParen
  | MissingParen
  | MissingIndexBracket
  | ExpectedDotField
  | ExpectedFieldName
  | BadNumber string
  | BadString string
  | AssetNeedsPath
  | AssetPathEmpty
  | ActStateNeedsName string
  | MissingParenIn string
  | CallNeedsComma string
  | ListNotClosed
  | ListNeedsComma
  | MapNeedsColon
  | MapNotClosed
  | MapNeedsComma
  | StructNotClosed string
  | StructNeedsField string
  | StructNeedsColon string string
  | StructNeedsComma string
  | AggNeedsCollection string
  | AggNeedsCollAfterIn string string
  | AggReadsNoRow string string
  | AggNeedsItemVar string
  | AggNeedsField string string string
  | AggTakesNoField string string
  | AggTakesNoValue string string
  | ListOrderHint
  | NotAClauseOf string string
  | LexerPanic

type_synonym 'a parser = "token list \<Rightarrow> (perr + 'a \<times> token list) option"

definition pret :: "'a \<Rightarrow> 'a parser" where
  "pret x = (\<lambda>ts. Some (Inr (x, ts)))"

definition pfail :: "perr \<Rightarrow> 'a parser" where
  "pfail e = (\<lambda>ts. Some (Inl e))"

definition pstop :: "'a parser" where
  "pstop = (\<lambda>ts. None)"

definition pbind :: "'a parser \<Rightarrow> ('a \<Rightarrow> 'b parser) \<Rightarrow> 'b parser" where
  "pbind m f = (\<lambda>ts. case m ts of
     None \<Rightarrow> None | Some (Inl e) \<Rightarrow> Some (Inl e) | Some (Inr (x, r)) \<Rightarrow> f x r)"

definition ppeek :: "(token option \<Rightarrow> 'a parser) \<Rightarrow> 'a parser" where
  "ppeek f = (\<lambda>ts. case ts of [] \<Rightarrow> f None [] | t # _ \<Rightarrow> f (Some t) ts)"

definition padvance :: "'a parser \<Rightarrow> 'a parser" where
  "padvance p = (\<lambda>ts. p (tl ts))"

text \<open>The token asked for, or the error.\<close>

definition is_op :: "string \<Rightarrow> token \<Rightarrow> bool" where
  "is_op s t \<longleftrightarrow> t = Token TOp s"

definition is_word :: "string \<Rightarrow> token \<Rightarrow> bool" where
  "is_word s t \<longleftrightarrow> t = Token TIdent s"

definition is_kind :: "tok_kind \<Rightarrow> token \<Rightarrow> bool" where
  "is_kind k t \<longleftrightarrow> tk_kind t = k"

definition next_is :: "(token \<Rightarrow> bool) \<Rightarrow> token option \<Rightarrow> bool" where
  "next_is P o' = (case o' of Some t \<Rightarrow> P t | None \<Rightarrow> False)"

definition expect :: "(token \<Rightarrow> bool) \<Rightarrow> perr \<Rightarrow> 'a parser \<Rightarrow> 'a parser" where
  "expect P e p = ppeek (\<lambda>t. if next_is P t then padvance p else pfail e)"

text \<open>A name: its text.\<close>

definition name_or :: "perr \<Rightarrow> (string \<Rightarrow> 'a parser) \<Rightarrow> 'a parser" where
  "name_or e f = ppeek (\<lambda>t. case t of
     Some t \<Rightarrow> if tk_kind t = TIdent then padvance (f (tk_text t)) else pfail e
   | None \<Rightarrow> pfail e)"

definition fieldName :: "(string \<Rightarrow> 'a parser) \<Rightarrow> 'a parser" where
  "fieldName = name_or ExpectedFieldName"

definition expectDotField :: "(string \<Rightarrow> 'a parser) \<Rightarrow> 'a parser" where
  "expectDotField f = expect (is_op ''.'') ExpectedDotField (fieldName f)"

text \<open>
  The loop of an argument list and of the literals: items with commas between them, up to the
  closing token.
\<close>

fun comma_list :: "'a parser \<Rightarrow> (token \<Rightarrow> bool) \<Rightarrow> perr \<Rightarrow> perr \<Rightarrow> nat \<Rightarrow> 'a list \<Rightarrow> 'a list parser" where
  "comma_list item close e_end e_comma 0 acc = pstop"
| "comma_list item close e_end e_comma (Suc k) acc =
     pbind item (\<lambda>x. ppeek (\<lambda>t.
       if t = None then pfail e_end
       else if next_is close t then padvance (pret (acc @ [x]))
       else if \<not> next_is (is_op '','') t then pfail e_comma
       else padvance (comma_list item close e_end e_comma k (acc @ [x]))))"

subsection \<open>The parts an expression is made of\<close>

definition binPrec :: "string \<Rightarrow> nat option" where
  "binPrec op =
     (if op = ''||'' then Some 1 else if op = ''&&'' then Some 2
      else if op = ''|'' then Some 3 else if op = ''^'' then Some 4 else if op = ''&'' then Some 5
      else if op \<in> {''=='', ''!='', ''<'', ''<='', ''>'', ''>='', ''in''} then Some 6
      else if op \<in> {''<<'', ''>>''} then Some 7
      else if op \<in> {''+'', ''-''} then Some 8
      else if op \<in> {''*'', ''/'', ''%''} then Some 9
      else None)"

definition precArith :: nat where
  "precArith = 7"

text \<open>The binary operator a token stands for, with its precedence.\<close>

definition bin_op :: "token \<Rightarrow> (string \<times> nat) option" where
  "bin_op t =
     (if tk_kind t = TOp \<or> (tk_kind t = TIdent \<and> tk_text t = ''in'')
      then map_option (\<lambda>p. (tk_text t, p)) (binPrec (tk_text t)) else None)"

text \<open>The comma of an argument list, looked for at depth one of the parentheses alone.\<close>

fun comma_scan :: "int \<Rightarrow> token list \<Rightarrow> bool" where
  "comma_scan d [] = False"
| "comma_scan d (t # ts) =
     (if tk_kind t = TLParen then comma_scan (d + 1) ts
      else if tk_kind t = TRParen then (if d - 1 = 0 then False else comma_scan (d - 1) ts)
      else if d = 1 \<and> is_op '','' t then True
      else comma_scan d ts)"

definition argListHasComma :: "token list \<Rightarrow> bool" where
  "argListHasComma ts = comma_scan 0 ts"

definition numericAgg :: "string \<Rightarrow> bool" where
  "numericAgg op \<longleftrightarrow> op \<in> {''sum'', ''avg'', ''min'', ''max''}"

definition first_name :: "string list \<Rightarrow> string" where
  "first_name vs = (case filter (\<lambda>v. v \<noteq> []) vs of v # _ \<Rightarrow> v | [] \<Rightarrow> [])"

fun freeRowVar :: "ast \<Rightarrow> string list \<Rightarrow> string" where
  "freeRowVar (AGet ob f) b =
     (case ob of ARef r \<Rightarrow> if r \<in> set b then [] else r | _ \<Rightarrow> freeRowVar ob b)"
| "freeRowVar (AEntityGet n k f) b = freeRowVar k b"
| "freeRowVar (AStructLit n fs vs) b = first_name (map (\<lambda>v. freeRowVar v b) vs)"
| "freeRowVar (AAgg a) b =
     first_name [case aa_where a of Some e \<Rightarrow> freeRowVar e (aa_var a # b) | None \<Rightarrow> [],
                 case aa_sel a of Some e \<Rightarrow> freeRowVar e (aa_var a # b) | None \<Rightarrow> []]"
| "freeRowVar (ABin op l r) b = (let v = freeRowVar l b in if v \<noteq> [] then v else freeRowVar r b)"
| "freeRowVar (AUn op x) b = freeRowVar x b"
| "freeRowVar (ACall n es) b = first_name (map (\<lambda>e. freeRowVar e b) es)"
| "freeRowVar (AListLit es) b = first_name (map (\<lambda>e. freeRowVar e b) es)"
| "freeRowVar _ b = []"

definition aggRowVar :: "ast \<Rightarrow> string" where
  "aggRowVar e = freeRowVar e []"

fun exprSrc :: "ast \<Rightarrow> string" where
  "exprSrc (ARef n) = n"
| "exprSrc (AGet ob f) = exprSrc ob @ ''.'' @ f"
| "exprSrc _ = ''that value''"

text \<open>What the value of \<open>op(value in Coll ...)\<close> says: the item variable, the field, the value.\<close>

definition agg_head :: "string \<Rightarrow> ast \<Rightarrow> string \<times> string \<times> ast option" where
  "agg_head op h =
     (let (v, f) = (case h of
             ARef n \<Rightarrow> (n, [])
           | AGet (ARef n) g \<Rightarrow> if op = ''list'' then ([], []) else (n, g)
           | _ \<Rightarrow> ([], []))
      in if v = [] then (aggRowVar h, f, Some h) else (v, f, None))"

text \<open>What \<open>op(Coll)\<close> or \<open>op(Coll.field)\<close> says: the collection and the field.\<close>

definition agg_whole :: "ast \<Rightarrow> string \<times> string" where
  "agg_whole h = (case h of ARef n \<Rightarrow> (n, []) | AGet (ARef n) g \<Rightarrow> (n, g) | _ \<Rightarrow> ([], []))"

text \<open>The checks on the value of an aggregate, in the order the code makes them.\<close>

definition agg_check :: "string \<Rightarrow> string \<Rightarrow> string \<Rightarrow> string \<Rightarrow> ast option \<Rightarrow> perr option" where
  "agg_check op v coll f sel =
     (if numericAgg op \<and> f = [] \<and> sel = None then Some (AggNeedsField op v coll)
      else if op \<noteq> ''list'' \<and> \<not> numericAgg op \<and> f \<noteq> [] then Some (AggTakesNoField op f)
      else if op \<noteq> ''list'' \<and> \<not> numericAgg op \<and> sel \<noteq> None then Some (AggTakesNoValue op coll)
      else None)"

text \<open>A list's item variable read from its filter, then off a bare argument of its value.\<close>

definition filter_var :: "string \<Rightarrow> string \<Rightarrow> ast option \<Rightarrow> string" where
  "filter_var op v wh =
     (case wh of Some w \<Rightarrow> if v = [] \<and> op = ''list'' then aggRowVar w else v | None \<Rightarrow> v)"

definition arg_var :: "string \<Rightarrow> string \<Rightarrow> ast option \<Rightarrow> string \<times> bool" where
  "arg_var op v sel =
     (case sel of
        Some (ACall n es) \<Rightarrow>
          (if v = [] \<and> op = ''list'' then
             (case List.map_filter (\<lambda>e. case e of ARef r \<Rightarrow> Some r | _ \<Rightarrow> None) es of
                r # _ \<Rightarrow> (r, True) | [] \<Rightarrow> (v, False))
           else (v, False))
      | _ \<Rightarrow> (v, False))"

text \<open>The sort key of a list: a stored column by name, or an expression over the row.\<close>

definition order_key :: "string \<Rightarrow> ast \<Rightarrow> string \<times> ast option" where
  "order_key v k = (case k of
     ARef n \<Rightarrow> (n, None)
   | AGet (ARef r) f \<Rightarrow> if r = v \<and> v \<noteq> [] then (f, None) else ([], Some k)
   | _ \<Rightarrow> ([], Some k))"

definition parseFloat :: "string \<Rightarrow> f64 option" where
  "parseFloat s = (case numeric_text s of
     None \<Rightarrow> None
   | Some (neg, m, ex) \<Rightarrow> let f = f64_of_dec neg m ex in if f64_is_inf f then None else Some f)"

definition number_lit :: "string \<Rightarrow> ast parser" where
  "number_lit s =
     (if \<exists>c \<in> set s. c \<in> {CHR ''.'', CHR ''e'', CHR ''E''} then
        (case parseFloat s of Some f \<Rightarrow> pret (ALit (GFloat f) ''float'') | None \<Rightarrow> pfail (BadNumber s))
      else (case atoi s of Some n \<Rightarrow> pret (ALit (GInt n) ''int'') | None \<Rightarrow> pfail (BadNumber s)))"

definition string_lit :: "string \<Rightarrow> ast parser" where
  "string_lit s = (case unquote s of
     Some t \<Rightarrow> pret (ALit (GStr t) ''text'') | None \<Rightarrow> pfail (BadString s))"

definition asset_path :: "string \<Rightarrow> ast parser" where
  "asset_path s = (case unquote s of
     Some p \<Rightarrow> if p = [] then pfail AssetPathEmpty else pret (AAsset p None)
   | None \<Rightarrow> pfail (BadString s))"

definition ident_atom :: "string \<Rightarrow> ast parser" where
  "ident_atom n =
     (if n = ''true'' then pret (ALit (GBool True) ''bool'')
      else if n = ''false'' then pret (ALit (GBool False) ''bool'')
      else if n = ''asset'' then
        ppeek (\<lambda>t. if next_is (is_word ''from'') t then
            padvance (ppeek (\<lambda>s. case s of
              Some s \<Rightarrow> if tk_kind s = TStr then padvance (asset_path (tk_text s)) else pfail AssetNeedsPath
            | None \<Rightarrow> pfail AssetNeedsPath))
          else pret (ARef n))
      else pret (ARef n))"

subsection \<open>Literals, calls and aggregates\<close>

definition parseListLit :: "(nat \<Rightarrow> ast parser) \<Rightarrow> nat \<Rightarrow> ast parser" where
  "parseListLit pb k = padvance (ppeek (\<lambda>t.
     if next_is (is_op '']'') t then padvance (pret (AListLit []))
     else pbind (comma_list (pb 0) (is_op '']'') ListNotClosed ListNeedsComma k [])
       (\<lambda>es. pret (AListLit es))))"

definition map_entry :: "(nat \<Rightarrow> ast parser) \<Rightarrow> (ast \<times> ast) parser" where
  "map_entry pb = pbind (pb 0) (\<lambda>x. expect (is_op '':'') MapNeedsColon (pbind (pb 0) (\<lambda>v. pret (x, v))))"

definition parseMapLit :: "(nat \<Rightarrow> ast parser) \<Rightarrow> nat \<Rightarrow> ast parser" where
  "parseMapLit pb k = padvance (ppeek (\<lambda>t.
     if next_is (is_op ''}'') t then padvance (pret (AMapLit [] []))
     else pbind (comma_list (map_entry pb) (is_op ''}'') MapNotClosed MapNeedsComma k [])
       (\<lambda>kvs. pret (AMapLit (map fst kvs) (map snd kvs)))))"

definition struct_entry :: "(nat \<Rightarrow> ast parser) \<Rightarrow> string \<Rightarrow> (string \<times> ast) parser" where
  "struct_entry pb n = ppeek (\<lambda>t. if t = None then pfail (StructNotClosed n)
     else name_or (StructNeedsField n) (\<lambda>f. expect (is_op '':'') (StructNeedsColon f n)
       (pbind (pb 0) (\<lambda>v. pret (f, v)))))"

definition parseStructLit :: "(nat \<Rightarrow> ast parser) \<Rightarrow> nat \<Rightarrow> string \<Rightarrow> ast parser" where
  "parseStructLit pb k n = padvance
     (pbind (comma_list (struct_entry pb n) (is_op ''}'') (StructNotClosed n) (StructNeedsComma n) k [])
       (\<lambda>fvs. pret (AStructLit n (map fst fvs) (map snd fvs))))"

definition parseCall :: "(nat \<Rightarrow> ast parser) \<Rightarrow> nat \<Rightarrow> string \<Rightarrow> ast parser" where
  "parseCall pb k n = padvance (ppeek (\<lambda>t.
     if next_is (is_kind TRParen) t then padvance (pret (ACall n []))
     else pbind (comma_list (pb 0) (is_kind TRParen) (MissingParenIn n) (CallNeedsComma n) k [])
       (\<lambda>es. pret (ACall n es))))"

definition parseActState :: "string \<Rightarrow> ast parser" where
  "parseActState op = padvance (name_or (ActStateNeedsName op)
     (\<lambda>a. expect (is_kind TRParen) (MissingParenIn op) (pret (AActState a op))))"

definition parse_lookup :: "(nat \<Rightarrow> ast parser) \<Rightarrow> string \<Rightarrow> ast parser" where
  "parse_lookup pb n = padvance (pbind (pb 0) (\<lambda>key.
     expect (is_kind TRParen) MissingLookupParen (ppeek (\<lambda>t.
       if next_is (is_op ''.'') t then expectDotField (\<lambda>f. pret (AEntityGet n key f))
       else pret (AEntityGet n key [])))))"

definition where_clause :: "(nat \<Rightarrow> ast parser) \<Rightarrow> ast option parser" where
  "where_clause pb = ppeek (\<lambda>t. if next_is (is_word ''where'') t
     then padvance (pbind (pb 0) (\<lambda>w. pret (Some w))) else pret None)"

definition direction :: "bool parser" where
  "direction = ppeek (\<lambda>t. if next_is (is_word ''desc'') t then padvance (pret True)
     else if next_is (is_word ''asc'') t then padvance (pret False) else pret False)"

definition order_clause :: "(nat \<Rightarrow> ast parser) \<Rightarrow> string \<Rightarrow> (string \<times> ast option \<times> bool) parser" where
  "order_clause pb v = ppeek (\<lambda>t. if next_is (is_word ''by'') t then
       padvance (ppeek (\<lambda>t. if t = None \<or> next_is (is_kind TRParen) t then pfail ListOrderHint
         else pbind (pb 0) (\<lambda>key. pbind direction (\<lambda>d.
           pret (fst (order_key v key), snd (order_key v key), d)))))
     else pret ([], None, False))"

definition limit_clause :: "(nat \<Rightarrow> ast parser) \<Rightarrow> ast option parser" where
  "limit_clause pb = ppeek (\<lambda>t. if next_is (is_word ''limit'') t
     then padvance (pbind (pb 0) (\<lambda>l. pret (Some l))) else pret None)"

text \<open>The clauses only a list has; any other aggregate refuses them.\<close>

definition list_clauses ::
  "(nat \<Rightarrow> ast parser) \<Rightarrow> string \<Rightarrow> string \<Rightarrow> (string \<times> ast option \<times> bool \<times> ast option) parser" where
  "list_clauses pb op v =
     (if op = ''list'' then
        pbind (order_clause pb v) (\<lambda>(o', oe, d). pbind (limit_clause pb) (\<lambda>l. pret (o', oe, d, l)))
      else ppeek (\<lambda>t.
        if next_is (is_word ''by'') t then pfail (NotAClauseOf ''by'' op)
        else if next_is (is_word ''limit'') t then pfail (NotAClauseOf ''limit'' op)
        else pret ([], None, False, None)))"

definition agg_clauses ::
  "(nat \<Rightarrow> ast parser) \<Rightarrow> string \<Rightarrow> string \<Rightarrow> string \<Rightarrow> string \<Rightarrow> ast option \<Rightarrow> ast parser" where
  "agg_clauses pb op v coll f sel =
     (case agg_check op v coll f sel of
        Some e \<Rightarrow> pfail e
      | None \<Rightarrow> pbind (where_clause pb) (\<lambda>wh.
          let (v', bare) = arg_var op (filter_var op v wh) sel in
          pbind (list_clauses pb op v') (\<lambda>(o', oe, d, l).
            expect (is_kind TRParen) (MissingParenIn op)
              (pret (AAgg (AstAgg op coll f v' wh sel o' d l oe bare))))))"

definition parseAgg :: "(nat \<Rightarrow> ast parser) \<Rightarrow> string \<Rightarrow> ast parser" where
  "parseAgg pb op = padvance (ppeek (\<lambda>t.
     if t = None \<or> next_is (is_kind TRParen) t then pfail (AggNeedsCollection op)
     else pbind (pb precArith) (\<lambda>h. ppeek (\<lambda>t.
       if next_is (is_word ''in'') t then
         padvance (name_or (AggNeedsCollAfterIn op (exprSrc h)) (\<lambda>coll.
           let (v, f, sel) = agg_head op h in
           if v = [] \<and> op \<noteq> ''list'' then pfail (AggReadsNoRow op coll)
           else agg_clauses pb op v coll f sel))
       else
         (let (coll, f) = agg_whole h in
          if coll = [] then pfail (AggNeedsItemVar op) else agg_clauses pb op [] coll f None)))))"

subsection \<open>Atoms, postfix access, unary and binary operators\<close>

definition parseAtom :: "(nat \<Rightarrow> ast parser) \<Rightarrow> nat \<Rightarrow> ast parser" where
  "parseAtom pb k = ppeek (\<lambda>t. case t of
     None \<Rightarrow> pfail UnexpectedEnd
   | Some t \<Rightarrow>
       (case tk_kind t of
          TLParen \<Rightarrow> padvance (pbind (pb 0) (\<lambda>e. expect (is_kind TRParen) MissingParen (pret e)))
        | TOp \<Rightarrow> if tk_text t = ''['' then parseListLit pb k
                 else if tk_text t = ''{'' then parseMapLit pb k
                 else pfail (UnexpectedToken (tk_text t))
        | TNum \<Rightarrow> padvance (number_lit (tk_text t))
        | TStr \<Rightarrow> padvance (string_lit (tk_text t))
        | TIdent \<Rightarrow> padvance (ident_atom (tk_text t))
        | TRParen \<Rightarrow> pfail (UnexpectedToken (tk_text t))))"

definition agg_call :: "string \<Rightarrow> token list \<Rightarrow> bool" where
  "agg_call n ts \<longleftrightarrow> n \<in> {''count'', ''sum'', ''exists'', ''avg'', ''list''} \<or>
     (n \<in> {''min'', ''max''} \<and> \<not> argListHasComma ts)"

definition parse_call_like :: "(nat \<Rightarrow> ast parser) \<Rightarrow> nat \<Rightarrow> string \<Rightarrow> ast parser" where
  "parse_call_like pb k n = (\<lambda>ts.
     (if agg_call n ts then parseAgg pb n
      else if n \<in> {''pending'', ''failed'', ''dirty'', ''touched''} then parseActState n
      else if IsBuiltinCall n \<or> \<not> isUpper n then parseCall pb k n
      else parse_lookup pb n) ts)"

definition name_suffix :: "(nat \<Rightarrow> ast parser) \<Rightarrow> nat \<Rightarrow> ast \<Rightarrow> ast parser" where
  "name_suffix pb k a = (case a of
     ARef n \<Rightarrow> ppeek (\<lambda>t.
       if next_is (is_op ''{'') t \<and> isUpper n then parseStructLit pb k n
       else if next_is (is_kind TLParen) t then parse_call_like pb k n
       else pret a)
   | _ \<Rightarrow> pret a)"

fun access_loop :: "(nat \<Rightarrow> ast parser) \<Rightarrow> nat \<Rightarrow> ast \<Rightarrow> ast parser" where
  "access_loop pb 0 a = pstop"
| "access_loop pb (Suc k) a = ppeek (\<lambda>t.
     if next_is (is_op ''.'') t then padvance (fieldName (\<lambda>f. access_loop pb k (AGet a f)))
     else if next_is (is_op ''['') t then
       padvance (pbind (pb 0) (\<lambda>i. expect (is_op '']'') MissingIndexBracket (access_loop pb k (AIndex a i))))
     else pret a)"

definition parsePostfix :: "(nat \<Rightarrow> ast parser) \<Rightarrow> nat \<Rightarrow> ast parser" where
  "parsePostfix pb k = pbind (parseAtom pb k) (\<lambda>a. pbind (name_suffix pb k a) (access_loop pb k))"

definition unary_ops :: "string list" where
  "unary_ops = [''!'', ''-'', ''~'']"

fun parseUnary :: "(nat \<Rightarrow> ast parser) \<Rightarrow> nat \<Rightarrow> nat \<Rightarrow> ast parser" where
  "parseUnary pb k 0 = pstop"
| "parseUnary pb k (Suc j) = ppeek (\<lambda>t. case t of
     Some t \<Rightarrow>
       if tk_kind t = TOp \<and> tk_text t \<in> set unary_ops
       then padvance (pbind (parseUnary pb k j) (\<lambda>x. pret (AUn (tk_text t) x)))
       else parsePostfix pb k
   | None \<Rightarrow> parsePostfix pb k)"

fun binary_loop :: "(nat \<Rightarrow> ast parser) \<Rightarrow> nat \<Rightarrow> nat \<Rightarrow> ast \<Rightarrow> ast parser" where
  "binary_loop pb m 0 l = pstop"
| "binary_loop pb m (Suc k) l = ppeek (\<lambda>t. case t of
     None \<Rightarrow> pret l
   | Some t \<Rightarrow>
       (case bin_op t of
          None \<Rightarrow> pret l
        | Some (op, p) \<Rightarrow>
            if p < m then pret l
            else padvance (pbind (pb (p + 1)) (\<lambda>r. binary_loop pb m k (ABin op l r)))))"

fun parseBinary :: "nat \<Rightarrow> nat \<Rightarrow> ast parser" where
  "parseBinary 0 m = pstop"
| "parseBinary (Suc n) m =
     pbind (parseUnary (parseBinary n) (Suc n) (Suc n)) (binary_loop (parseBinary n) m (Suc n))"

text \<open>
  The whole expression (\<open>parseExpr\<close>, \<open>ParseExpr\<close>), with the line its error names. The text that
  makes the lexer panic is an error of its own here; the fuel given never runs out.
\<close>

definition parse_tokens :: "token list \<Rightarrow> perr + ast" where
  "parse_tokens ts = (case parseBinary (Suc (length ts)) 0 ts of
     None \<Rightarrow> Inl UnexpectedEnd
   | Some (Inl e) \<Rightarrow> Inl e
   | Some (Inr (e, [])) \<Rightarrow> Inr e
   | Some (Inr (e, t # _)) \<Rightarrow> Inl (UnexpectedToken (tk_text t)))"

definition parseExpr :: "string \<Rightarrow> nat \<Rightarrow> nat \<times> perr + ast" where
  "parseExpr s line = (case tokenize s of
     None \<Rightarrow> Inl (line, LexerPanic)
   | Some ts \<Rightarrow> (case parse_tokens ts of Inl e \<Rightarrow> Inl (line, e) | Inr e \<Rightarrow> Inr e))"

end
