(* ===== verification/ParserLaws.thy ===== *)
theory ParserLaws
  imports ExprParser
begin

text \<open>
  What the expression parser promises: it ends on every token list, more fuel than there are
  tokens changes nothing, and an expression written out is read back as itself.
\<close>

subsection \<open>Parsers that end\<close>

text \<open>
  \<open>ends ne eats N p\<close>: on at most \<open>N\<close> tokens (at least one of them, if \<open>ne\<close>) the parser
  answers, and a successful answer leaves no more tokens than there were (fewer, if \<open>eats\<close>).
\<close>

fun leaves :: "bool \<Rightarrow> nat \<Rightarrow> (perr + 'a \<times> token list) option \<Rightarrow> bool" where
  "leaves eats n None = False"
| "leaves eats n (Some (Inl e)) = True"
| "leaves eats n (Some (Inr (x, r))) = (if eats then length r < n else length r \<le> n)"

lemma leaves_cases:
  assumes "leaves eats n a"
  obtains e where "a = Some (Inl e)"
  | x r where "a = Some (Inr (x, r))" "length r \<le> n" "eats \<Longrightarrow> length r < n"
  using assms by (cases "(eats, n, a)" rule: leaves.cases) (auto split: if_splits)

lemma leaves_weaken: "leaves eats n a \<Longrightarrow> n \<le> m \<Longrightarrow> leaves False m a"
  by (erule leaves_cases) auto

lemma leaves_eats: "leaves eats n a \<Longrightarrow> n < m \<Longrightarrow> leaves True m a"
  by (erule leaves_cases) auto

definition ends :: "bool \<Rightarrow> bool \<Rightarrow> nat \<Rightarrow> 'a parser \<Rightarrow> bool" where
  "ends ne eats N p \<longleftrightarrow> (\<forall>ts. length ts \<le> N \<and> (ne \<longrightarrow> ts \<noteq> []) \<longrightarrow> leaves eats (length ts) (p ts))"

lemma endsI: "(\<And>ts. length ts \<le> N \<Longrightarrow> ne \<longrightarrow> ts \<noteq> [] \<Longrightarrow> leaves eats (length ts) (p ts)) \<Longrightarrow> ends ne eats N p"
  by (simp add: ends_def)

lemma endsD: "ends ne eats N p \<Longrightarrow> length ts \<le> N \<Longrightarrow> ne \<longrightarrow> ts \<noteq> [] \<Longrightarrow> leaves eats (length ts) (p ts)"
  by (simp add: ends_def)

lemma ends_ret: "ends ne False N (pret x)"
  by (simp add: ends_def pret_def)

lemma ends_fail: "ends ne eats N (pfail e)"
  by (simp add: ends_def pfail_def)

lemma ends_eats: "ends ne True N p \<Longrightarrow> ends ne False N p"
  unfolding ends_def using leaves_weaken by blast

lemma ends_ne: "ends False eats N p \<Longrightarrow> ends ne eats N p"
  unfolding ends_def by auto

lemma ends_fewer: "ends ne eats N p \<Longrightarrow> M \<le> N \<Longrightarrow> ends ne eats M p"
  unfolding ends_def by auto

lemma ends_bind:
  assumes "ends ne False N m" and "\<And>x. ends False False N (f x)"
  shows "ends ne False N (pbind m f)"
proof (rule endsI)
  fix ts :: "token list" assume ts: "length ts \<le> N" "ne \<longrightarrow> ts \<noteq> []"
  from endsD [OF assms(1) this] show "leaves False (length ts) (pbind m f ts)"
  proof (cases rule: leaves_cases)
    case (2 x r)
    then show ?thesis using endsD [OF assms(2), of r x] ts leaves_weaken by (force simp: pbind_def)
  qed (simp add: pbind_def)
qed

text \<open>A first parser that takes a token leaves one fewer to the second.\<close>

lemma ends_bind_eats:
  assumes "ends ne True N m" and "\<And>x M. N = Suc M \<Longrightarrow> ends False False M (f x)"
  shows "ends ne True N (pbind m f)"
proof (rule endsI)
  fix ts :: "token list" assume ts: "length ts \<le> N" "ne \<longrightarrow> ts \<noteq> []"
  from endsD [OF assms(1) this] show "leaves True (length ts) (pbind m f ts)"
  proof (cases rule: leaves_cases)
    case (2 x r)
    then obtain M where "N = Suc M" "length r \<le> M" using ts(1) by (cases N) auto
    then show ?thesis using endsD [OF assms(2), of M r x] 2 leaves_eats by (force simp: pbind_def)
  qed (simp add: pbind_def)
qed

text \<open>Looking at the next token: there is one when it is not the end.\<close>

lemma ends_peek:
  assumes "ends False eats N (f None)" and "\<And>t. ends True eats N (f (Some t))"
  shows "ends ne eats N (ppeek f)"
proof (rule endsI)
  fix ts :: "token list" assume "length ts \<le> N"
  then show "leaves eats (length ts) (ppeek f ts)"
    using endsD [OF assms(1), of "[]"] endsD [OF assms(2), of ts] by (cases ts) (auto simp: ppeek_def)
qed

text \<open>Taking a token that is there.\<close>

lemma ends_advance:
  assumes "\<And>M. N = Suc M \<Longrightarrow> ends False False M p"
  shows "ends True eats N (padvance p)"
proof (rule endsI)
  fix ts :: "token list" assume ts: "length ts \<le> N" "True \<longrightarrow> ts \<noteq> []"
  then obtain M where M: "N = Suc M" "length (tl ts) \<le> M" by (cases N) auto
  have "leaves False (length (tl ts)) (p (tl ts))"
    using endsD [OF assms [OF M(1)] M(2)] by simp
  then have "leaves True (length ts) (p (tl ts))"
    by (rule leaves_eats) (use ts in auto)
  then show "leaves eats (length ts) (padvance p ts)"
    by (cases eats) (auto simp: padvance_def intro: leaves_weaken)
qed

lemma ends_if: "(b \<Longrightarrow> ends ne eats N p) \<Longrightarrow> (\<not> b \<Longrightarrow> ends ne eats N q) \<Longrightarrow> ends ne eats N (if b then p else q)"
  by simp

lemma ends_option: "(\<And>x. a = Some x \<Longrightarrow> ends ne eats N (p x)) \<Longrightarrow> (a = None \<Longrightarrow> ends ne eats N q) \<Longrightarrow>
    ends ne eats N (case a of None \<Rightarrow> q | Some x \<Rightarrow> p x)"
  by (cases a) auto

lemma ends_prod: "(\<And>x y. a = (x, y) \<Longrightarrow> ends ne eats N (p x y)) \<Longrightarrow> ends ne eats N (case a of (x, y) \<Rightarrow> p x y)"
  by (cases a) auto

lemma ends_expect:
  assumes "\<And>M. N = Suc M \<Longrightarrow> ends False False M p"
  shows "ends ne eats N (expect P e p)"
  unfolding expect_def
  by (rule ends_peek) (auto simp: next_is_def intro!: ends_fail ends_if ends_advance assms)

lemma ends_name:
  assumes "\<And>M n. N = Suc M \<Longrightarrow> ends False False M (f n)"
  shows "ends ne eats N (name_or e f)"
  unfolding name_or_def
  by (rule ends_peek) (auto intro!: ends_fail ends_if ends_advance assms)

text \<open>The sub-expressions are parsed on fewer tokens.\<close>

definition sub_ends :: "(nat \<Rightarrow> 'a parser) \<Rightarrow> nat \<Rightarrow> bool" where
  "sub_ends pb N \<longleftrightarrow> (\<forall>m M. M < N \<longrightarrow> ends False True M (pb m))"

lemma sub_endsD: "sub_ends pb N \<Longrightarrow> N = Suc M \<Longrightarrow> ends ne eats M (pb m)"
  unfolding sub_ends_def by (cases eats) (auto intro: ends_ne ends_eats)

lemma sub_ends_fewer: "sub_ends pb N \<Longrightarrow> M \<le> N \<Longrightarrow> sub_ends pb M"
  by (auto simp: sub_ends_def)

lemma comma_list_ends:
  assumes "\<And>K. K \<le> N \<Longrightarrow> ends False True K item" "N < k"
  shows "ends False True N (comma_list item close e1 e2 k acc)"
  using assms
proof (induction k arbitrary: N acc)
  case (Suc k)
  show ?case
    unfolding comma_list.simps
  proof (rule ends_bind_eats)
    fix x M assume M: "N = Suc M"
    have more: "ends False False K (comma_list item close e1 e2 k (acc @ [x]))" if "M = Suc K" for K
      using that M Suc.prems by (intro ends_eats Suc.IH) auto
    show "ends False False M (ppeek (\<lambda>t.
       if t = None then pfail e1
       else if next_is close t then padvance (pret (acc @ [x]))
       else if \<not> next_is (is_op '','') t then pfail e2
       else padvance (comma_list item close e1 e2 k (acc @ [x]))))"
      by (rule ends_peek) (auto intro!: ends_fail ends_if ends_advance ends_ret more)
  qed (use Suc.prems in simp)
qed simp

lemma number_lit_ends: "ends False False N (number_lit s)"
  by (auto simp: number_lit_def intro!: ends_ret ends_fail split: option.split)

lemma string_lit_ends: "ends False False N (string_lit s)"
  by (auto simp: string_lit_def intro!: ends_ret ends_fail split: option.split)

lemma asset_path_ends: "ends False False N (asset_path s)"
  by (auto simp: asset_path_def intro!: ends_ret ends_fail split: option.split)

lemma ident_atom_ends: "ends False False N (ident_atom n)"
  unfolding ident_atom_def
  by (intro ends_if ends_ret ends_peek)
    (auto simp: next_is_def intro!: ends_ret ends_fail ends_advance ends_peek ends_if asset_path_ends)

lemmas ends_intros = ends_ret ends_fail ends_if ends_advance ends_expect ends_name

lemma sub_item: "sub_ends pb N \<Longrightarrow> N = Suc M \<Longrightarrow> K \<le> M \<Longrightarrow> ends ne eats K (pb m)"
  by (rule sub_endsD [OF sub_ends_fewer]) auto

lemma sub_any: "sub_ends pb N \<Longrightarrow> K < N \<Longrightarrow> ends ne eats K (pb m)"
  by (cases N) (auto intro: sub_item)

lemma literal_ends:
  assumes "\<And>K. K \<le> N \<Longrightarrow> ends False True K item" "N < k"
  shows "ends ne False N (pbind (comma_list item close e1 e2 k []) (\<lambda>xs. pret (g xs)))"
  by (intro ends_bind ends_ne [OF ends_eats] comma_list_ends ends_ret assms) auto

lemma parseListLit_ends: "sub_ends pb N \<Longrightarrow> N \<le> k \<Longrightarrow> ends True True N (parseListLit pb k)"
  unfolding parseListLit_def
  by (intro ends_advance ends_peek) (auto simp: next_is_def intro!: ends_intros literal_ends intro: sub_item)

lemma map_entry_ends: "sub_ends pb N \<Longrightarrow> N = Suc M \<Longrightarrow> K \<le> M \<Longrightarrow> ends False True K (map_entry pb)"
  unfolding map_entry_def
  by (intro ends_bind_eats ends_intros ends_bind) (auto intro: sub_item)

lemma parseMapLit_ends: "sub_ends pb N \<Longrightarrow> N \<le> k \<Longrightarrow> ends True True N (parseMapLit pb k)"
  unfolding parseMapLit_def
  by (intro ends_advance ends_peek)
    (auto simp: next_is_def intro!: ends_intros literal_ends intro: map_entry_ends)

lemma struct_entry_ends:
  assumes sub: "sub_ends pb N" and "N = Suc M" "K \<le> M"
  shows "ends False True K (struct_entry pb n)"
  unfolding struct_entry_def
  by (intro ends_peek)
    (use assms in \<open>auto intro!: ends_intros ends_bind sub_any [OF sub]\<close>)

lemma parseStructLit_ends: "sub_ends pb N \<Longrightarrow> N \<le> k \<Longrightarrow> ends True True N (parseStructLit pb k n)"
  unfolding parseStructLit_def
  by (intro ends_advance literal_ends) (auto intro: struct_entry_ends)

lemma parseCall_ends: "sub_ends pb N \<Longrightarrow> N \<le> k \<Longrightarrow> ends True True N (parseCall pb k n)"
  unfolding parseCall_def
  by (intro ends_advance ends_peek) (auto simp: next_is_def intro!: ends_intros literal_ends intro: sub_item)

lemma parseActState_ends: "ends True True N (parseActState op)"
  unfolding parseActState_def by (intro ends_intros)

lemma parse_lookup_ends: "sub_ends pb N \<Longrightarrow> ends True True N (parse_lookup pb n)"
  unfolding parse_lookup_def expectDotField_def fieldName_def
  by (intro ends_intros ends_bind ends_peek) (auto simp: next_is_def intro!: ends_intros intro: sub_item)

text \<open>A clause taken when its word comes next.\<close>

lemma where_clause_ends: "sub_ends pb N \<Longrightarrow> ends ne False N (where_clause pb)"
  unfolding where_clause_def
  by (intro ends_peek) (auto simp: next_is_def intro!: ends_intros ends_bind intro: sub_item)

lemma limit_clause_ends: "sub_ends pb N \<Longrightarrow> ends ne False N (limit_clause pb)"
  unfolding limit_clause_def
  by (intro ends_peek) (auto simp: next_is_def intro!: ends_intros ends_bind intro: sub_item)

lemma direction_ends: "ends ne False N direction"
  unfolding direction_def by (intro ends_peek) (auto simp: next_is_def intro!: ends_intros)

lemma order_clause_ends: "sub_ends pb N \<Longrightarrow> ends ne False N (order_clause pb v)"
  unfolding order_clause_def
  by (intro ends_peek)
    (auto simp: next_is_def intro!: ends_intros ends_peek ends_bind direction_ends intro: sub_item)

lemma list_clauses_ends: "sub_ends pb N \<Longrightarrow> ends ne False N (list_clauses pb op v)"
  unfolding list_clauses_def
  by (intro ends_if ends_bind ends_prod order_clause_ends limit_clause_ends ends_ret ends_peek)
    (auto simp: next_is_def intro!: ends_intros)

lemma agg_clauses_ends: "sub_ends pb N \<Longrightarrow> ends ne False N (agg_clauses pb op v coll f sel)"
  unfolding agg_clauses_def Let_def
  by (intro ends_option ends_fail ends_bind ends_prod where_clause_ends list_clauses_ends ends_expect ends_ret) auto

lemma parseAgg_ends: "sub_ends pb N \<Longrightarrow> ends True True N (parseAgg pb op)"
  unfolding parseAgg_def Let_def
  by (intro ends_advance ends_peek)
    (auto simp: next_is_def intro!: ends_intros ends_peek ends_bind ends_prod agg_clauses_ends
      intro: sub_item sub_ends_fewer)

lemma parse_call_like_ends: "sub_ends pb N \<Longrightarrow> N \<le> k \<Longrightarrow> ends True True N (parse_call_like pb k n)"
  using parseAgg_ends [of pb N n] parseActState_ends [of N n] parseCall_ends [of pb N k n]
    parse_lookup_ends [of pb N n]
  by (auto simp: parse_call_like_def ends_def)

lemma name_suffix_ends: "sub_ends pb N \<Longrightarrow> N \<le> k \<Longrightarrow> ends False False N (name_suffix pb k a)"
  unfolding name_suffix_def
  by (cases a; simp add: ends_ret)
    (auto simp: next_is_def intro!: ends_peek ends_if ends_ret
      intro: ends_eats parseStructLit_ends parse_call_like_ends)

lemma access_loop_ends: "sub_ends pb (Suc N) \<Longrightarrow> N < k \<Longrightarrow> ends False False N (access_loop pb k a)"
proof (induction k arbitrary: N a)
  case (Suc k)
  have more: "ends False False M (access_loop pb k b)" if "N = Suc M" for M b
    using that Suc by (intro Suc.IH) (auto intro: sub_ends_fewer)
  have sub: "sub_ends pb N"
    using Suc.prems(1) by (rule sub_ends_fewer) simp
  show ?case
    unfolding access_loop.simps fieldName_def
    by (intro ends_peek)
      (auto simp: next_is_def intro!: ends_intros ends_bind intro: more sub_item [OF sub] ends_fewer)
qed simp

lemma parseAtom_ends:
  assumes sub: "sub_ends pb N" and "N \<le> k"
  shows "ends False True N (parseAtom pb k)"
  unfolding parseAtom_def
  by (intro ends_peek)
    (use assms in \<open>auto intro!: ends_intros ends_bind number_lit_ends string_lit_ends ident_atom_ends
      parseListLit_ends parseMapLit_ends sub_any [OF sub] split: tok_kind.split\<close>)

lemma parsePostfix_ends: "sub_ends pb N \<Longrightarrow> N \<le> k \<Longrightarrow> ends False True N (parsePostfix pb k)"
  unfolding parsePostfix_def
  by (intro ends_bind_eats ends_bind parseAtom_ends name_suffix_ends access_loop_ends)
    (auto intro: sub_ends_fewer)

lemma parseUnary_ends: "sub_ends pb N \<Longrightarrow> N \<le> k \<Longrightarrow> N < j \<Longrightarrow> ends False True N (parseUnary pb k j)"
proof (induction j arbitrary: N)
  case (Suc j)
  have more: "ends False False M (parseUnary pb k j)" if "N = Suc M" for M
    using that Suc by (intro ends_eats Suc.IH) (auto intro: sub_ends_fewer)
  show ?case
    unfolding parseUnary.simps
    by (intro ends_peek) (auto intro!: ends_intros ends_bind more parsePostfix_ends ends_ne [OF parsePostfix_ends] Suc.prems)
qed simp

lemma binary_loop_ends: "sub_ends pb (Suc N) \<Longrightarrow> N < k \<Longrightarrow> ends False False N (binary_loop pb m k l)"
proof (induction k arbitrary: N l)
  case (Suc k)
  have more: "ends False False M (binary_loop pb m k l')" if "N = Suc M" for M l'
    using that Suc by (intro Suc.IH) (auto intro: sub_ends_fewer)
  have sub: "sub_ends pb N"
    using Suc.prems(1) by (rule sub_ends_fewer) simp
  show ?case
    unfolding binary_loop.simps
    by (intro ends_peek)
      (auto intro!: ends_intros ends_bind ends_option ends_prod sub_any [OF sub] more)
qed simp

lemma parseBinary_sub_ends: "sub_ends (parseBinary n) n"
proof (induction n)
  case (Suc n)
  have "ends False True M (parseBinary (Suc n) m)" if "M \<le> n" for m M
    unfolding parseBinary.simps
    using that Suc
    by (intro ends_bind_eats parseUnary_ends binary_loop_ends) (auto intro: sub_ends_fewer)
  then show ?case by (simp add: sub_ends_def)
qed (simp add: sub_ends_def)

lemma parseBinary_ends: "\<exists>r. parseBinary (Suc (length ts)) m ts = Some r"
proof -
  have "ends False True (length ts) (parseBinary (Suc (length ts)) m)"
    by (rule sub_any [OF parseBinary_sub_ends]) simp
  then have "leaves True (length ts) (parseBinary (Suc (length ts)) m ts)"
    by (rule endsD) simp_all
  then show ?thesis by (rule leaves_cases) simp_all
qed

subsection \<open>More fuel\<close>

text \<open>\<open>q\<close> answers wherever \<open>p\<close> does, and the same.\<close>

definition gains :: "'a parser \<Rightarrow> 'a parser \<Rightarrow> bool" where
  "gains p q \<longleftrightarrow> (\<forall>ts. p ts = None \<or> p ts = q ts)"

lemma gains_refl: "gains p p"
  by (simp add: gains_def)

lemma gains_stop: "gains pstop q"
  by (simp add: gains_def pstop_def)

lemma gains_bind: "gains m m' \<Longrightarrow> (\<And>x. gains (f x) (f' x)) \<Longrightarrow> gains (pbind m f) (pbind m' f')"
  unfolding gains_def
proof
  fix ts assume m: "\<forall>ts. m ts = None \<or> m ts = m' ts" and f: "\<And>x. \<forall>ts. f x ts = None \<or> f x ts = f' x ts"
  from m have "m ts = None \<or> m' ts = m ts" by metis
  then show "pbind m f ts = None \<or> pbind m f ts = pbind m' f' ts"
    by (auto simp: pbind_def split: option.split sum.split prod.split) (metis f)+
qed

lemma gains_peek: "(\<And>t. gains (f t) (f' t)) \<Longrightarrow> gains (ppeek f) (ppeek f')"
  by (auto simp: gains_def ppeek_def split: list.split)

lemma gains_advance: "gains p q \<Longrightarrow> gains (padvance p) (padvance q)"
  by (auto simp: gains_def padvance_def)

lemma gains_if: "(b \<Longrightarrow> gains p p') \<Longrightarrow> (\<not> b \<Longrightarrow> gains q q') \<Longrightarrow> gains (if b then p else q) (if b then p' else q')"
  by simp

lemma gains_option: "gains p p' \<Longrightarrow> (\<And>x. gains (q x) (q' x)) \<Longrightarrow>
    gains (case a of None \<Rightarrow> p | Some x \<Rightarrow> q x) (case a of None \<Rightarrow> p' | Some x \<Rightarrow> q' x)"
  by (cases a) auto

lemma gains_prod: "(\<And>x y. gains (q x y) (q' x y)) \<Longrightarrow>
    gains (case a of (x, y) \<Rightarrow> q x y) (case a of (x, y) \<Rightarrow> q' x y)"
  by (cases a) auto

lemma gains_kind: "gains a a' \<Longrightarrow> gains b b' \<Longrightarrow> gains c c' \<Longrightarrow> gains d d' \<Longrightarrow> gains e e' \<Longrightarrow> gains f f' \<Longrightarrow>
    gains (case x of TNum \<Rightarrow> a | TStr \<Rightarrow> b | TIdent \<Rightarrow> c | TOp \<Rightarrow> d | TLParen \<Rightarrow> e | TRParen \<Rightarrow> f)
      (case x of TNum \<Rightarrow> a' | TStr \<Rightarrow> b' | TIdent \<Rightarrow> c' | TOp \<Rightarrow> d' | TLParen \<Rightarrow> e' | TRParen \<Rightarrow> f')"
  by (cases x) auto

lemma gains_expect: "gains p q \<Longrightarrow> gains (expect P e p) (expect P e q)"
  unfolding expect_def by (intro gains_peek gains_if gains_advance gains_refl)

lemma gains_name: "(\<And>n. gains (f n) (g n)) \<Longrightarrow> gains (name_or e f) (name_or e g)"
  unfolding name_or_def by (intro gains_peek gains_option gains_if gains_advance gains_refl)

lemmas gains_intros = gains_bind gains_peek gains_advance gains_if gains_option gains_prod gains_kind
  gains_expect gains_name

definition sub_gains :: "(nat \<Rightarrow> 'a parser) \<Rightarrow> (nat \<Rightarrow> 'a parser) \<Rightarrow> bool" where
  "sub_gains pb pb' \<longleftrightarrow> (\<forall>m. gains (pb m) (pb' m))"

lemma sub_gainsD: "sub_gains pb pb' \<Longrightarrow> gains (pb m) (pb' m)"
  by (simp add: sub_gains_def)

lemma comma_list_gains:
  "gains item item' \<Longrightarrow> k \<le> k' \<Longrightarrow> gains (comma_list item cl e1 e2 k acc) (comma_list item' cl e1 e2 k' acc)"
proof (induction k arbitrary: k' acc)
  case (Suc k)
  then obtain j where "k' = Suc j" "k \<le> j" by (cases k') auto
  then show ?case
    by (auto intro!: gains_intros gains_refl Suc)
qed (simp add: gains_stop)

lemma parseListLit_gains: "sub_gains pb pb' \<Longrightarrow> k \<le> k' \<Longrightarrow> gains (parseListLit pb k) (parseListLit pb' k')"
  unfolding parseListLit_def by (intro gains_intros comma_list_gains sub_gainsD gains_refl)

lemma parseMapLit_gains: "sub_gains pb pb' \<Longrightarrow> k \<le> k' \<Longrightarrow> gains (parseMapLit pb k) (parseMapLit pb' k')"
  unfolding parseMapLit_def map_entry_def
  by (intro gains_intros comma_list_gains gains_refl) (auto intro: sub_gainsD)

lemma parseStructLit_gains: "sub_gains pb pb' \<Longrightarrow> k \<le> k' \<Longrightarrow> gains (parseStructLit pb k n) (parseStructLit pb' k' n)"
  unfolding parseStructLit_def struct_entry_def
  by (intro gains_intros comma_list_gains gains_refl) (auto intro: sub_gainsD)

lemma parseCall_gains: "sub_gains pb pb' \<Longrightarrow> k \<le> k' \<Longrightarrow> gains (parseCall pb k n) (parseCall pb' k' n)"
  unfolding parseCall_def by (intro gains_intros comma_list_gains sub_gainsD gains_refl)

lemma parse_lookup_gains: "sub_gains pb pb' \<Longrightarrow> gains (parse_lookup pb n) (parse_lookup pb' n)"
  unfolding parse_lookup_def by (intro gains_intros gains_refl) (auto intro: sub_gainsD)

lemma agg_clauses_gains: "sub_gains pb pb' \<Longrightarrow>
    gains (agg_clauses pb op v coll f sel) (agg_clauses pb' op v coll f sel)"
  unfolding agg_clauses_def where_clause_def list_clauses_def order_clause_def limit_clause_def Let_def
  by (intro gains_intros gains_refl) (auto intro: sub_gainsD)

lemma parseAgg_gains: "sub_gains pb pb' \<Longrightarrow> gains (parseAgg pb op) (parseAgg pb' op)"
  unfolding parseAgg_def Let_def
  by (intro gains_intros gains_refl agg_clauses_gains) (auto intro: sub_gainsD)

lemma name_suffix_gains:
  assumes "sub_gains pb pb'" "k \<le> k'"
  shows "gains (name_suffix pb k a) (name_suffix pb' k' a)"
proof -
  have "gains (parse_call_like pb k n) (parse_call_like pb' k' n)" for n
    using parseAgg_gains [of pb pb' n] parseCall_gains [of pb pb' k k' n] parse_lookup_gains [of pb pb' n] assms
    by (auto simp: gains_def parse_call_like_def)
  then show ?thesis
    using assms unfolding name_suffix_def
    by (cases a) (auto intro!: gains_intros gains_refl parseStructLit_gains)
qed

lemma access_loop_gains:
  "sub_gains pb pb' \<Longrightarrow> k \<le> k' \<Longrightarrow> gains (access_loop pb k a) (access_loop pb' k' a)"
proof (induction k arbitrary: k' a)
  case (Suc k)
  then obtain j where "k' = Suc j" "k \<le> j" by (cases k') auto
  then show ?case
    unfolding access_loop.simps fieldName_def \<open>k' = Suc j\<close>
    by (intro gains_intros gains_refl Suc sub_gainsD [OF Suc.prems(1)])
qed (simp add: gains_stop)

lemma parsePostfix_gains:
  assumes "sub_gains pb pb'" "k \<le> k'"
  shows "gains (parsePostfix pb k) (parsePostfix pb' k')"
proof -
  have "gains (parseAtom pb k) (parseAtom pb' k')"
    unfolding parseAtom_def
    by (intro gains_intros gains_refl parseListLit_gains parseMapLit_gains assms sub_gainsD)
  then show ?thesis
    unfolding parsePostfix_def
    by (intro gains_bind name_suffix_gains access_loop_gains assms)
qed

lemma parseUnary_gains:
  "sub_gains pb pb' \<Longrightarrow> k \<le> k' \<Longrightarrow> j \<le> j' \<Longrightarrow> gains (parseUnary pb k j) (parseUnary pb' k' j')"
proof (induction j arbitrary: j')
  case (Suc j)
  then obtain i where "j' = Suc i" "j \<le> i" by (cases j') auto
  with Suc show ?case
    by (auto intro!: gains_intros gains_refl parsePostfix_gains)
qed (simp add: gains_stop)

lemma binary_loop_gains:
  "sub_gains pb pb' \<Longrightarrow> k \<le> k' \<Longrightarrow> gains (binary_loop pb m k l) (binary_loop pb' m k' l)"
proof (induction k arbitrary: k' l)
  case (Suc k)
  then obtain j where "k' = Suc j" "k \<le> j" by (cases k') auto
  then show ?case
    unfolding binary_loop.simps \<open>k' = Suc j\<close>
    by (intro gains_intros gains_refl Suc sub_gainsD [OF Suc.prems(1)])
qed (simp add: gains_stop)

lemma parseBinary_gains: "n \<le> n' \<Longrightarrow> sub_gains (parseBinary n) (parseBinary n')"
proof (induction n arbitrary: n')
  case (Suc n)
  then obtain j where "n' = Suc j" "n \<le> j" by (cases n') auto
  then show ?case
    unfolding sub_gains_def parseBinary.simps \<open>n' = Suc j\<close>
    by (intro allI gains_bind parseUnary_gains binary_loop_gains Suc.IH) (simp_all del: parseUnary.simps)
qed (simp add: sub_gains_def gains_stop)

text \<open>With a step more than there are tokens, more fuel changes nothing.\<close>

lemma parse_fuel: "length ts < n \<Longrightarrow> parseBinary n m ts = parseBinary (Suc (length ts)) m ts"
proof -
  assume "length ts < n"
  then have "gains (parseBinary (Suc (length ts)) m) (parseBinary n m)"
    by (intro sub_gainsD parseBinary_gains) simp
  moreover obtain r where "parseBinary (Suc (length ts)) m ts = Some r"
    using parseBinary_ends by blast
  ultimately show ?thesis
    unfolding gains_def by (metis option.distinct(1))
qed

end
