(* ===== verification/Written.thy ===== *)
theory Written
  imports ParserLaws
begin

text \<open>
  Expressions written out with as few parentheses as precedence allows, and read back by the
  parser: each form of expression has one rule for the tokens it is read from, and the round
  trip is an induction over them.
\<close>

subsection \<open>Writing an expression\<close>

abbreviation op_tok :: "string \<Rightarrow> token" where
  "op_tok s \<equiv> Token TOp s"

abbreviation word_tok :: "string \<Rightarrow> token" where
  "word_tok s \<equiv> Token TIdent s"

abbreviation lparen :: token where
  "lparen \<equiv> Token TLParen ''(''"

abbreviation rparen :: token where
  "rparen \<equiv> Token TRParen '')''"

text \<open>A byte of a literal: as itself when it is printable, or \<open>\xHH\<close>.\<close>

definition quote_byte :: "char \<Rightarrow> string" where
  "quote_byte c =
     (if 32 \<le> byte c \<and> byte c < 127 \<and> c \<noteq> quote_char \<and> c \<noteq> backslash then [c]
      else [backslash, CHR ''x'', hex_digit (byte c div 16), hex_digit (byte c mod 16)])"

definition quote_body :: "string \<Rightarrow> string" where
  "quote_body s = concat (map quote_byte s)"

definition quote_text :: "string \<Rightarrow> string" where
  "quote_text s = quote_char # quote_body s @ [quote_char]"

fun sep :: "token list list \<Rightarrow> token list" where
  "sep [] = []"
| "sep [x] = x"
| "sep (x # y # r) = x @ op_tok '','' # sep (y # r)"

definition lit_tokens :: "gval \<Rightarrow> token list" where
  "lit_tokens v = (case v of
     GInt w \<Rightarrow> [Token TNum (show_nat (nat (sint w)))]
   | GBool b \<Rightarrow> [word_tok (if b then ''true'' else ''false'')]
   | GStr s \<Rightarrow> [Token TStr (quote_text s)]
   | _ \<Rightarrow> [])"

definition parens :: "bool \<Rightarrow> token list \<Rightarrow> token list" where
  "parens b s = (if b then lparen # s @ [rparen] else s)"

definition prec_of :: "string \<Rightarrow> nat" where
  "prec_of op = (case binPrec op of Some q \<Rightarrow> q | None \<Rightarrow> 0)"

definition bin_tok :: "string \<Rightarrow> token" where
  "bin_tok op = (if op = ''in'' then word_tok op else op_tok op)"

definition dot_field :: "string \<Rightarrow> token list" where
  "dot_field f = (if f = [] then [] else [op_tok ''.'', word_tok f])"

definition clause :: "string \<Rightarrow> token list option \<Rightarrow> token list" where
  "clause w s = (case s of Some s \<Rightarrow> word_tok w # s | None \<Rightarrow> [])"

definition agg_in_form :: "'e ast_agg \<Rightarrow> bool" where
  "agg_in_form a \<longleftrightarrow> aa_var a \<noteq> [] \<or> aa_sel a \<noteq> None"

text \<open>The argument list of an aggregate, its sub-expressions written already.\<close>

definition order_tokens :: "token list ast_agg \<Rightarrow> token list" where
  "order_tokens a =
     (case aa_order_expr a of
        Some k \<Rightarrow> word_tok ''by'' # k @ (if aa_desc a then [word_tok ''desc''] else [])
      | None \<Rightarrow> if aa_order a = [] then []
          else word_tok ''by'' # word_tok (aa_order a) # (if aa_desc a then [word_tok ''desc''] else []))"

definition agg_tokens :: "token list ast_agg \<Rightarrow> token list" where
  "agg_tokens a =
     (if agg_in_form a
      then (case aa_sel a of Some s \<Rightarrow> s | None \<Rightarrow> word_tok (aa_var a) # dot_field (aa_field a))
             @ [word_tok ''in'', word_tok (aa_coll a)]
      else word_tok (aa_coll a) # dot_field (aa_field a))
     @ clause ''where'' (aa_where a) @ order_tokens a @ clause ''limit'' (aa_limit a)"

fun written :: "nat \<Rightarrow> ast \<Rightarrow> token list" where
  "written p (ALit v t) = lit_tokens v"
| "written p (AAsset s r) = [word_tok ''asset'', word_tok ''from'', Token TStr (quote_text s)]"
| "written p (AListLit es) = op_tok ''['' # sep (map (written 0) es) @ [op_tok '']'']"
| "written p (AMapLit ks vs) =
     op_tok ''{'' # sep (map2 (\<lambda>x v. x @ op_tok '':'' # v) (map (written 0) ks) (map (written 0) vs)) @ [op_tok ''}'']"
| "written p (AStructLit n fs vs) =
     word_tok n # op_tok ''{'' # sep (map2 (\<lambda>f v. word_tok f # op_tok '':'' # v) fs (map (written 0) vs)) @ [op_tok ''}'']"
| "written p (AIndex ob i) = written 11 ob @ op_tok ''['' # written 0 i @ [op_tok '']'']"
| "written p (ARef n) = [word_tok n]"
| "written p (AGet ob f) = written 11 ob @ [op_tok ''.'', word_tok f]"
| "written p (AEntityGet n i f) = word_tok n # lparen # written 0 i @ rparen # dot_field f"
| "written p (AActState n op) = [word_tok op, lparen, word_tok n, rparen]"
| "written p (AAgg a) =
     word_tok (aa_op a) # lparen # agg_tokens
       (AstAgg (aa_op a) (aa_coll a) (aa_field a) (aa_var a) (map_option (written 0) (aa_where a))
         (map_option (written 7) (aa_sel a)) (aa_order a) (aa_desc a) (map_option (written 0) (aa_limit a))
         (map_option (written 0) (aa_order_expr a)) (aa_var_from_arg a)) @ [rparen]"
| "written p (ACall n es) = word_tok n # lparen # sep (map (written 0) es) @ [rparen]"
| "written p (ABin op l r) =
     parens (prec_of op < p) (written (prec_of op) l @ bin_tok op # written (prec_of op + 1) r)"
| "written p (AUn op x) = parens (10 < p) (op_tok op # written 10 x)"

subsection \<open>What can be written\<close>

text \<open>
  The expressions the grammar has a text for. A number is not negative (a sign is an operator),
  an aggregate's fields agree with what its value says, and a \<open>min\<close> or \<open>max\<close> over rows has no
  comma outside inner parentheses, which would make it the builtin of two values.
\<close>

definition is_name :: "string \<Rightarrow> bool" where
  "is_name s = (case s of c # r \<Rightarrow> isIdentStart c \<and> list_all isIdentChar r | [] \<Rightarrow> False)"

definition free_name :: "string \<Rightarrow> bool" where
  "free_name s \<longleftrightarrow> is_name s \<and> s \<noteq> ''true'' \<and> s \<noteq> ''false''"

definition agg_names :: "string list" where
  "agg_names = [''count'', ''sum'', ''exists'', ''avg'', ''list'', ''min'', ''max'']"

definition state_names :: "string list" where
  "state_names = [''pending'', ''failed'', ''dirty'', ''touched'']"

definition writable_lit :: "gval \<Rightarrow> string \<Rightarrow> bool" where
  "writable_lit v t = (case v of
     GInt w \<Rightarrow> t = ''int'' \<and> 0 \<le> sint w
   | GBool b \<Rightarrow> t = ''bool''
   | GStr s \<Rightarrow> t = ''text''
   | _ \<Rightarrow> False)"

definition agg_value :: "ast ast_agg \<Rightarrow> ast" where
  "agg_value a = (case aa_sel a of
     Some e \<Rightarrow> e
   | None \<Rightarrow> if aa_field a = [] then ARef (aa_var a) else AGet (ARef (aa_var a)) (aa_field a))"

definition writable_agg :: "ast ast_agg \<Rightarrow> bool" where
  "writable_agg a \<longleftrightarrow>
     aa_op a \<in> set agg_names \<and> free_name (aa_coll a) \<and> (aa_field a = [] \<or> is_name (aa_field a)) \<and>
     (if agg_in_form a then
        (aa_sel a = None \<longrightarrow> free_name (aa_var a)) \<and>
        (\<exists>v \<in> {fst (agg_head (aa_op a) (agg_value a))}.
           agg_head (aa_op a) (agg_value a) = (v, aa_field a, aa_sel a) \<and> (v = [] \<longrightarrow> aa_op a = ''list'') \<and>
           arg_var (aa_op a) (filter_var (aa_op a) v (aa_where a)) (aa_sel a) = (aa_var a, aa_var_from_arg a) \<and>
           agg_check (aa_op a) v (aa_coll a) (aa_field a) (aa_sel a) = None)
      else
        filter_var (aa_op a) [] (aa_where a) = [] \<and> \<not> aa_var_from_arg a \<and>
        agg_check (aa_op a) [] (aa_coll a) (aa_field a) None = None) \<and>
     (case aa_order_expr a of
        Some i \<Rightarrow> aa_order a = [] \<and> order_key (aa_var a) i = ([], Some i)
      | None \<Rightarrow> if aa_order a = [] then \<not> aa_desc a else free_name (aa_order a)) \<and>
     (aa_op a \<noteq> ''list'' \<longrightarrow> aa_order a = [] \<and> aa_order_expr a = None \<and> aa_limit a = None)"

fun writable :: "ast \<Rightarrow> bool" where
  "writable (ALit v t) \<longleftrightarrow> writable_lit v t"
| "writable (AAsset s r) \<longleftrightarrow> s \<noteq> [] \<and> r = None"
| "writable (AListLit es) \<longleftrightarrow> list_all writable es"
| "writable (AMapLit ks vs) \<longleftrightarrow> length ks = length vs \<and> list_all writable ks \<and> list_all writable vs"
| "writable (AStructLit n fs vs) \<longleftrightarrow>
     is_name n \<and> isUpper n \<and> fs \<noteq> [] \<and> length fs = length vs \<and> list_all is_name fs \<and> list_all writable vs"
| "writable (AIndex ob i) \<longleftrightarrow> writable ob \<and> writable i"
| "writable (ARef n) \<longleftrightarrow> free_name n"
| "writable (AGet ob f) \<longleftrightarrow> writable ob \<and> is_name f \<and> (case ob of AEntityGet n i g \<Rightarrow> g \<noteq> [] | _ \<Rightarrow> True)"
| "writable (AEntityGet n i f) \<longleftrightarrow> is_name n \<and> isUpper n \<and> writable i \<and> (f = [] \<or> is_name f)"
| "writable (AActState n op) \<longleftrightarrow> op \<in> set state_names \<and> is_name n"
| "writable (AAgg a) \<longleftrightarrow>
     writable_agg a \<and> (\<forall>x \<in> set_option (aa_where a). writable x) \<and> (\<forall>x \<in> set_option (aa_sel a). writable x) \<and>
     (\<forall>x \<in> set_option (aa_limit a). writable x) \<and> (\<forall>x \<in> set_option (aa_order_expr a). writable x) \<and>
     (aa_op a \<in> {''min'', ''max''} \<longrightarrow> \<not> argListHasComma (tl (written 0 (AAgg a))))"
| "writable (ACall n es) \<longleftrightarrow>
     free_name n \<and> \<not> isUpper n \<and> n \<notin> set state_names \<and> list_all writable es \<and>
     (n \<in> set agg_names \<longrightarrow> n \<in> {''min'', ''max''} \<and> 2 \<le> length es)"
| "writable (ABin op l r) \<longleftrightarrow> binPrec op \<noteq> None \<and> writable l \<and> writable r"
| "writable (AUn op x) \<longleftrightarrow> op \<in> set unary_ops \<and> writable x"

subsection \<open>Reading rules\<close>

text \<open>
  What may follow an expression: no token that would be taken as part of it. A bound on the
  tokens is carried with each rule, for the fuel of the parser and of its loops.
\<close>

definition closes :: "token list \<Rightarrow> bool" where
  "closes ts = (case ts of
     [] \<Rightarrow> True
   | t # _ \<Rightarrow> tk_kind t \<noteq> TLParen \<and> t \<notin> {op_tok ''.'', op_tok ''['', op_tok ''{'', word_tok ''from''})"

definition stops :: "nat \<Rightarrow> token list \<Rightarrow> bool" where
  "stops m ts \<longleftrightarrow> closes ts \<and>
     (case ts of [] \<Rightarrow> True | t # _ \<Rightarrow> (case bin_op t of Some (op, q) \<Rightarrow> q < m | None \<Rightarrow> True))"

definition starts :: "token list \<Rightarrow> bool" where
  "starts s \<longleftrightarrow> s \<noteq> [] \<and> tk_kind (hd s) \<noteq> TRParen \<and> hd s \<notin> {op_tok '']'', op_tok ''}''}"

definition unsigned :: "token list \<Rightarrow> bool" where
  "unsigned s \<longleftrightarrow> (tk_kind (hd s) = TOp \<longrightarrow> tk_text (hd s) \<notin> set unary_ops)"

definition may_follow :: "ast \<Rightarrow> token list \<Rightarrow> bool" where
  "may_follow e ts = (case ts of [] \<Rightarrow> True | t # _ \<Rightarrow>
     (case e of
        ARef m \<Rightarrow> tk_kind t \<noteq> TLParen \<and> t \<notin> {op_tok ''{'', word_tok ''from''}
      | AEntityGet m i f \<Rightarrow> f = [] \<longrightarrow> t \<noteq> op_tok ''.''
      | _ \<Rightarrow> True))"

definition reads_primary :: "token list \<Rightarrow> ast \<Rightarrow> bool" where
  "reads_primary s e \<longleftrightarrow> starts s \<and> unsigned s \<and>
     (\<forall>rest n k res. length (s @ rest) \<le> n \<longrightarrow> length (s @ rest) < k \<longrightarrow> may_follow e rest \<longrightarrow>
        (\<forall>k' > length rest. access_loop (parseBinary n) k' e rest = Some (Inr res)) \<longrightarrow>
        parsePostfix (parseBinary n) k (s @ rest) = Some (Inr res))"

definition reads_unary :: "token list \<Rightarrow> ast \<Rightarrow> bool" where
  "reads_unary s e \<longleftrightarrow> starts s \<and>
     (\<forall>rest n k j. length (s @ rest) \<le> n \<longrightarrow> length (s @ rest) < k \<longrightarrow> length (s @ rest) < j \<longrightarrow> closes rest \<longrightarrow>
        parseUnary (parseBinary n) k j (s @ rest) = Some (Inr (e, rest)))"

definition reads_binary :: "nat \<Rightarrow> token list \<Rightarrow> ast \<Rightarrow> bool" where
  "reads_binary p s e \<longleftrightarrow> starts s \<and>
     (\<forall>rest n k m res. m \<le> p \<longrightarrow> length (s @ rest) \<le> n \<longrightarrow> length (s @ rest) < k \<longrightarrow> stops (p + 1) rest \<longrightarrow>
        (\<forall>k' > length rest. binary_loop (parseBinary n) m k' e rest = Some (Inr res)) \<longrightarrow>
        pbind (parseUnary (parseBinary n) k k) (binary_loop (parseBinary n) m k) (s @ rest) = Some (Inr res))"

lemma reads_binaryD:
  assumes "reads_binary p s e" "m \<le> p" "length (s @ rest) \<le> n" "length (s @ rest) < k" "stops (p + 1) rest"
    "\<And>k'. length rest < k' \<Longrightarrow> binary_loop (parseBinary n) m k' e rest = Some (Inr res)"
  shows "pbind (parseUnary (parseBinary n) k k) (binary_loop (parseBinary n) m k) (s @ rest) = Some (Inr res)"
  using assms unfolding reads_binary_def by blast

lemma reads_starts: "reads_binary p s e \<Longrightarrow> starts s"
  by (simp add: reads_binary_def)

lemmas p_simps = pbind_def ppeek_def padvance_def pret_def pfail_def expect_def next_is_def name_or_def
  is_op_def is_word_def is_kind_def fieldName_def expectDotField_def

lemma reads_full:
  assumes "reads_binary p s e" "m \<le> p" "stops m rest" "length (s @ rest) < n"
  shows "parseBinary n m (s @ rest) = Some (Inr (e, rest))"
proof -
  obtain n' where n: "n = Suc n'" using assms(4) by (cases n) auto
  have "binary_loop (parseBinary n') m k' e rest = Some (Inr (e, rest))" if "length rest < k'" for k'
    using that assms(3) by (cases k'; cases rest) (auto simp: stops_def p_simps split: option.splits prod.splits)
  moreover have "stops (p + 1) rest"
    using assms(2,3) by (fastforce simp: stops_def split: list.splits option.splits)
  ultimately show ?thesis
    using assms unfolding reads_binary_def n by (simp del: parseUnary.simps)
qed

lemma primary_unary:
  assumes r: "reads_primary s e"
  shows "reads_unary s e"
  unfolding reads_unary_def
proof (intro conjI allI impI)
  show "starts s" using r by (simp add: reads_primary_def)
  fix rest n k j
  assume b: "length (s @ rest) \<le> n" "length (s @ rest) < k" "length (s @ rest) < j" "closes rest"
  obtain t s' where s: "s = t # s'" using \<open>starts s\<close> by (cases s) (auto simp: starts_def)
  obtain j' where j: "j = Suc j'" using b by (cases j) auto
  have acc: "access_loop (parseBinary n) k' e rest = Some (Inr (e, rest))" if "length rest < k'" for k'
    using that b(4) by (cases k'; cases rest) (auto simp: closes_def p_simps)
  have "may_follow e rest"
    using b(4) by (auto simp: may_follow_def closes_def split: ast.split list.split)
  then have "parsePostfix (parseBinary n) k (s @ rest) = Some (Inr (e, rest))"
    using r b acc unfolding reads_primary_def by blast
  moreover have "\<not> (tk_kind t = TOp \<and> tk_text t \<in> set unary_ops)"
    using r by (auto simp: reads_primary_def unsigned_def s)
  ultimately show "parseUnary (parseBinary n) k j (s @ rest) = Some (Inr (e, rest))"
    by (auto simp: s j ppeek_def)
qed

lemma unary_op:
  assumes r: "reads_unary s e" and op: "op \<in> set unary_ops"
  shows "reads_unary (op_tok op # s) (AUn op e)"
  unfolding reads_unary_def
proof (intro conjI allI impI)
  show "starts (op_tok op # s)" using op by (auto simp: starts_def unary_ops_def)
  fix rest n k j
  assume b: "length ((op_tok op # s) @ rest) \<le> n" "length ((op_tok op # s) @ rest) < k"
      "length ((op_tok op # s) @ rest) < j" "closes rest"
  obtain j' where j: "j = Suc j'" using b by (cases j) auto
  have "parseUnary (parseBinary n) k j' (s @ rest) = Some (Inr (e, rest))"
    using r b j by (auto simp: reads_unary_def)
  then show "parseUnary (parseBinary n) k j ((op_tok op # s) @ rest) = Some (Inr (AUn op e, rest))"
    using op by (simp add: j p_simps)
qed

lemma unary_binary:
  assumes r: "reads_unary s e"
  shows "reads_binary p s e"
  unfolding reads_binary_def
proof (intro conjI allI impI)
  show "starts s" using r by (simp add: reads_unary_def)
  fix rest n k m res
  assume b: "length (s @ rest) \<le> n" "length (s @ rest) < k" and st: "stops (p + 1) rest"
    and loop: "\<forall>k' > length rest. binary_loop (parseBinary n) m k' e rest = Some (Inr res)"
  have "parseUnary (parseBinary n) k k (s @ rest) = Some (Inr (e, rest))"
    using r b st unfolding reads_unary_def stops_def by blast
  moreover have "binary_loop (parseBinary n) m k e rest = Some (Inr res)"
    using loop b by auto
  ultimately show "pbind (parseUnary (parseBinary n) k k) (binary_loop (parseBinary n) m k) (s @ rest) = Some (Inr res)"
    by (simp add: pbind_def)
qed

lemma stops_mono: "stops m rest \<Longrightarrow> m \<le> m' \<Longrightarrow> stops m' rest"
  by (fastforce simp: stops_def split: list.splits option.splits)

lemma bin_tok_closes:
  assumes "binPrec op = Some q"
  shows "closes (bin_tok op # ts)"
proof -
  have "binPrec ''.'' = None" "binPrec ''['' = None" "binPrec ''{'' = None"
    by code_simp+
  with assms show ?thesis by (auto simp: closes_def bin_tok_def)
qed

lemma binary_op:
  assumes l: "reads_binary q s l" and r: "reads_binary (q + 1) t r" and q: "binPrec op = Some q" "p \<le> q"
  shows "reads_binary p (s @ bin_tok op # t) (ABin op l r)"
  unfolding reads_binary_def
proof (intro conjI allI impI)
  show "starts (s @ bin_tok op # t)"
    using l by (auto simp: reads_binary_def starts_def)
  fix rest n k m res
  assume m: "m \<le> p" and b: "length ((s @ bin_tok op # t) @ rest) \<le> n" "length ((s @ bin_tok op # t) @ rest) < k"
    and st: "stops (p + 1) rest"
    and loop: "\<forall>k' > length rest. binary_loop (parseBinary n) m k' (ABin op l r) rest = Some (Inr res)"
  have bt: "bin_op (bin_tok op) = Some (op, q)"
    using q(1) by (auto simp: bin_tok_def bin_op_def)
  have right: "parseBinary n (q + 1) (t @ rest) = Some (Inr (r, rest))"
    by (rule reads_full [OF r]) (use b st q(2) in \<open>auto intro: stops_mono\<close>)
  have "binary_loop (parseBinary n) m k' l (bin_tok op # t @ rest) = Some (Inr res)"
    if "length (bin_tok op # t @ rest) < k'" for k'
    using that loop right m q(2) by (cases k') (auto simp: p_simps bt)
  moreover have "stops (q + 1) (bin_tok op # t @ rest)"
    using bin_tok_closes [OF q(1)] by (simp add: stops_def bt)
  ultimately have "pbind (parseUnary (parseBinary n) k k) (binary_loop (parseBinary n) m k) (s @ bin_tok op # t @ rest)
      = Some (Inr res)"
    using b m q(2) by (intro reads_binaryD [OF l]) auto
  then show "pbind (parseUnary (parseBinary n) k k) (binary_loop (parseBinary n) m k) ((s @ bin_tok op # t) @ rest)
      = Some (Inr res)"
    by (simp del: parseUnary.simps)
qed

subsection \<open>Atoms, names and lists of items\<close>

lemma stops_closer: "t \<in> {op_tok '','', op_tok '']'', op_tok ''}'', op_tok '':'', rparen} \<Longrightarrow> stops m (t # rest)"
proof -
  have "binPrec '','' = None" "binPrec '']'' = None" "binPrec ''}'' = None" "binPrec '':'' = None"
    by code_simp+
  then show "t \<in> {op_tok '','', op_tok '']'', op_tok ''}'', op_tok '':'', rparen} \<Longrightarrow> stops m (t # rest)"
    by (auto simp: stops_def closes_def bin_op_def)
qed

lemma stops_word: "w \<noteq> ''in'' \<Longrightarrow> w \<noteq> ''from'' \<Longrightarrow> stops m (word_tok w # rest)"
  by (simp add: stops_def closes_def bin_op_def)

lemma stops_in: "stops 7 (word_tok ''in'' # rest)"
proof -
  have "binPrec ''in'' = Some 6" by code_simp
  then show ?thesis by (simp add: stops_def closes_def bin_op_def)
qed

text \<open>A sub-expression read up to what closes it.\<close>

lemma reads_item:
  "reads_binary 0 s e \<Longrightarrow> stops 0 rest \<Longrightarrow> length (s @ rest) < n \<Longrightarrow> parseBinary n 0 (s @ rest) = Some (Inr (e, rest))"
  by (rule reads_full) auto

lemma atom_primary:
  assumes "starts s" "unsigned s" "\<forall>n. e \<noteq> ARef n"
    and "\<And>rest n k. length (s @ rest) \<le> n \<Longrightarrow> length (s @ rest) < k \<Longrightarrow>
      parseAtom (parseBinary n) k (s @ rest) = Some (Inr (e, rest))"
  shows "reads_primary s e"
  unfolding reads_primary_def
proof (intro conjI allI impI assms(1,2))
  fix rest n k res
  assume b: "length (s @ rest) \<le> n" "length (s @ rest) < k"
    and loop: "\<forall>k' > length rest. access_loop (parseBinary n) k' e rest = Some (Inr res)"
  have "name_suffix (parseBinary n) k e rest = Some (Inr (e, rest))"
    using assms(3) by (auto simp: name_suffix_def pret_def split: ast.split)
  moreover have "access_loop (parseBinary n) k e rest = Some (Inr res)"
    using loop b by auto
  ultimately show "parsePostfix (parseBinary n) k (s @ rest) = Some (Inr res)"
    using assms(4) [OF b] by (simp add: parsePostfix_def pbind_def)
qed

lemma named_primary:
  assumes "free_name m" and "s = [] \<or> hd s \<noteq> word_tok ''from''" "s = [] \<Longrightarrow> e = ARef m"
    and "\<And>rest n k. length (s @ rest) < n \<Longrightarrow> length (s @ rest) < k \<Longrightarrow> may_follow e rest \<Longrightarrow>
      name_suffix (parseBinary n) k (ARef m) (s @ rest) = Some (Inr (e, rest))"
  shows "reads_primary (word_tok m # s) e"
  unfolding reads_primary_def
proof (intro conjI allI impI)
  fix rest n k res
  assume b: "length ((word_tok m # s) @ rest) \<le> n" "length ((word_tok m # s) @ rest) < k" and f: "may_follow e rest"
    and loop: "\<forall>k' > length rest. access_loop (parseBinary n) k' e rest = Some (Inr res)"
  have "s @ rest = [] \<or> hd (s @ rest) \<noteq> word_tok ''from''"
    using assms(2,3) f by (cases s; cases rest) (auto simp: may_follow_def)
  then have "parseAtom (parseBinary n) k (word_tok m # s @ rest) = Some (Inr (ARef m, s @ rest))"
    using assms(1) by (cases "s @ rest") (auto simp: parseAtom_def ident_atom_def free_name_def p_simps)
  moreover have "name_suffix (parseBinary n) k (ARef m) (s @ rest) = Some (Inr (e, rest))"
    using b f by (intro assms(4)) auto
  moreover have "access_loop (parseBinary n) k e rest = Some (Inr res)"
    using loop b by auto
  ultimately show "parsePostfix (parseBinary n) k ((word_tok m # s) @ rest) = Some (Inr res)"
    by (simp add: parsePostfix_def pbind_def)
qed (auto simp: starts_def unsigned_def)

lemma ref_primary: "free_name m \<Longrightarrow> reads_primary [word_tok m] (ARef m)"
  by (rule named_primary) (auto simp: name_suffix_def may_follow_def p_simps split: list.splits)

lemma sep_Cons: "sep (x # xs) = x @ (if xs = [] then [] else op_tok '','' # sep xs)"
  by (cases xs) auto

lemma comma_list_reads:
  assumes "\<And>x t rest. x \<in> set xs \<Longrightarrow> t \<in> {op_tok '','', cl} \<Longrightarrow> length (w x @ t # rest) \<le> L \<Longrightarrow>
      item (w x @ t # rest) = Some (Inr (x, t # rest))"
    and "xs \<noteq> []" "close cl" "\<not> close (op_tok '','')"
    and "length (sep (map w xs) @ cl # rest) \<le> L" "length (sep (map w xs) @ cl # rest) < k"
  shows "comma_list item close e1 e2 k acc (sep (map w xs) @ cl # rest) = Some (Inr (acc @ xs, rest))"
  using assms
proof (induction xs arbitrary: k acc)
  case (Cons x xs)
  then obtain j where k: "k = Suc j" by (cases k) auto
  show ?case
  proof (cases "xs = []")
    case True
    then have "item (w x @ cl # rest) = Some (Inr (x, cl # rest))"
      using Cons.prems by auto
    then show ?thesis using True Cons.prems(3) by (simp add: k p_simps)
  next
    case False
    have "item (w x @ op_tok '','' # sep (map w xs) @ cl # rest) = Some (Inr (x, op_tok '','' # sep (map w xs) @ cl # rest))"
      using Cons.prems False by (simp add: sep_Cons)
    moreover have "comma_list item close e1 e2 j (acc @ [x]) (sep (map w xs) @ cl # rest) = Some (Inr ((acc @ [x]) @ xs, rest))"
      using Cons.prems False k by (intro Cons.IH) (auto simp: sep_Cons)
    ultimately show ?thesis using False Cons.prems(4) by (simp add: k p_simps sep_Cons)
  qed
qed simp

lemma sep_starts:
  assumes "\<And>x. x \<in> set xs \<Longrightarrow> starts (w x)" "xs \<noteq> []"
  shows "starts (sep (map w xs))"
  using assms by (cases xs) (auto simp: sep_Cons starts_def)

text \<open>The next token of something that starts an expression.\<close>

lemma starts_peek:
  assumes "starts s"
  obtains t r where "s = t # r" "tk_kind t \<noteq> TRParen" "t \<noteq> op_tok '']''" "t \<noteq> op_tok ''}''"
  using assms by (cases s) (auto simp: starts_def)

lemma list_primary:
  assumes "\<And>e. e \<in> set es \<Longrightarrow> reads_binary 0 (w e) e"
  shows "reads_primary (op_tok ''['' # sep (map w es) @ [op_tok '']'']) (AListLit es)"
proof (rule atom_primary)
  fix rest n k
  assume b: "length ((op_tok ''['' # sep (map w es) @ [op_tok '']'']) @ rest) \<le> n"
    "length ((op_tok ''['' # sep (map w es) @ [op_tok '']'']) @ rest) < k"
  show "parseAtom (parseBinary n) k ((op_tok ''['' # sep (map w es) @ [op_tok '']'']) @ rest) = Some (Inr (AListLit es, rest))"
  proof (cases "es = []")
    case False
    have "comma_list (parseBinary n 0) (is_op '']'') ListNotClosed ListNeedsComma k [] (sep (map w es) @ op_tok '']'' # rest)
        = Some (Inr ([] @ es, rest))"
      by (rule comma_list_reads [where L = "n - 1"])
        (use b False assms in \<open>auto simp: is_op_def intro!: reads_item stops_closer\<close>)
    moreover obtain t r where "sep (map w es) = t # r" "t \<noteq> op_tok '']''"
      using sep_starts [of es w] False assms by (auto intro: reads_starts elim: starts_peek)
    ultimately show ?thesis by (simp add: parseAtom_def parseListLit_def p_simps)
  qed (simp add: parseAtom_def parseListLit_def p_simps)
qed (auto simp: starts_def unsigned_def unary_ops_def)

lemma map2_pairs: "map2 f (map g xs) (map h ys) = map (\<lambda>(x, y). f (g x) (h y)) (zip xs ys)"
  by (simp add: zip_map_map comp_def case_prod_unfold)

lemma map_primary:
  assumes "\<And>e. e \<in> set ks \<union> set vs \<Longrightarrow> reads_binary 0 (w e) e" "length ks = length vs"
  shows "reads_primary (op_tok ''{'' # sep (map2 (\<lambda>x v. x @ op_tok '':'' # v) (map w ks) (map w vs)) @ [op_tok ''}''])
    (AMapLit ks vs)"
proof (rule atom_primary)
  let ?w = "\<lambda>(x, v). w x @ op_tok '':'' # w v" and ?kvs = "zip ks vs"
  fix rest n k
  assume b: "length ((op_tok ''{'' # sep (map2 (\<lambda>x v. x @ op_tok '':'' # v) (map w ks) (map w vs)) @ [op_tok ''}'']) @ rest) \<le> n"
    "length ((op_tok ''{'' # sep (map2 (\<lambda>x v. x @ op_tok '':'' # v) (map w ks) (map w vs)) @ [op_tok ''}'']) @ rest) < k"
  have mem: "x \<in> set ks" "v \<in> set vs" if "(x, v) \<in> set ?kvs" for x v
    using that by (auto dest: set_zip_leftD set_zip_rightD)
  have item: "map_entry (parseBinary n) (?w kv @ t # r) = Some (Inr (kv, t # r))"
    if kv: "kv \<in> set ?kvs" and t: "t \<in> {op_tok '','', op_tok ''}''}" and l: "length (?w kv @ t # r) \<le> n - 1" for kv t r
  proof -
    obtain x v where [simp]: "kv = (x, v)" by fastforce
    have "parseBinary n 0 (w x @ op_tok '':'' # w v @ t # r) = Some (Inr (x, op_tok '':'' # w v @ t # r))"
      using kv l assms mem by (intro reads_item stops_closer) auto
    moreover have "parseBinary n 0 (w v @ t # r) = Some (Inr (v, t # r))"
      using kv l t assms mem by (intro reads_item stops_closer) auto
    ultimately show ?thesis by (simp add: map_entry_def p_simps)
  qed
  show "parseAtom (parseBinary n) k ((op_tok ''{'' # sep (map2 (\<lambda>x v. x @ op_tok '':'' # v) (map w ks) (map w vs)) @ [op_tok ''}'']) @ rest)
    = Some (Inr (AMapLit ks vs, rest))"
  proof (cases "ks = []")
    case True
    then show ?thesis using assms(2) by (simp add: parseAtom_def parseMapLit_def p_simps)
  next
    case False
    then have ne: "?kvs \<noteq> []" using assms(2) by (cases vs; cases ks) auto
    have "comma_list (map_entry (parseBinary n)) (is_op ''}'') MapNotClosed MapNeedsComma k [] (sep (map ?w ?kvs) @ op_tok ''}'' # rest)
        = Some (Inr ([] @ ?kvs, rest))"
      by (rule comma_list_reads [where L = "n - 1", OF item])
        (use b ne in \<open>simp_all add: is_op_def map2_pairs\<close>)
    moreover obtain t r where "sep (map ?w ?kvs) = t # r" "t \<noteq> op_tok ''}''"
    proof -
      have st: "starts (?w kv)" if kv: "kv \<in> set ?kvs" for kv
      proof -
        obtain x v where xv: "kv = (x, v)" by fastforce
        then have "starts (w x)" using kv mem(1) assms(1) by (blast intro: reads_starts)
        then show ?thesis by (simp add: xv starts_def)
      qed
      show ?thesis using sep_starts [of ?kvs ?w, OF st ne] that by (blast elim: starts_peek)
    qed
    ultimately show ?thesis
      using assms(2) by (simp add: parseAtom_def parseMapLit_def p_simps map2_pairs)
  qed
qed (auto simp: starts_def unsigned_def unary_ops_def)

lemma struct_primary:
  assumes "\<And>e. e \<in> set vs \<Longrightarrow> reads_binary 0 (w e) e" "length fs = length vs" "fs \<noteq> []" "free_name m" "isUpper m"
  shows "reads_primary (word_tok m # op_tok ''{'' # sep (map2 (\<lambda>f v. word_tok f # op_tok '':'' # v) fs (map w vs)) @ [op_tok ''}''])
    (AStructLit m fs vs)"
proof (rule named_primary [OF assms(4)])
  let ?w = "\<lambda>(f, v). word_tok f # op_tok '':'' # w v" and ?fvs = "zip fs vs"
  have w: "map2 (\<lambda>f v. word_tok f # op_tok '':'' # v) fs (map w vs) = map ?w ?fvs"
    using map2_pairs [of "\<lambda>f v. word_tok f # op_tok '':'' # v" "\<lambda>f. f" fs w vs] by simp
  fix rest n k
  assume b: "length ((op_tok ''{'' # sep (map2 (\<lambda>f v. word_tok f # op_tok '':'' # v) fs (map w vs)) @ [op_tok ''}'']) @ rest) < n"
    "length ((op_tok ''{'' # sep (map2 (\<lambda>f v. word_tok f # op_tok '':'' # v) fs (map w vs)) @ [op_tok ''}'']) @ rest) < k"
  have item: "struct_entry (parseBinary n) m (?w fv @ t # r) = Some (Inr (fv, t # r))"
    if fv: "fv \<in> set ?fvs" and t: "t \<in> {op_tok '','', op_tok ''}''}" and l: "length (?w fv @ t # r) \<le> n - 1" for fv t r
  proof -
    obtain f v where [simp]: "fv = (f, v)" by fastforce
    have "v \<in> set vs" using fv by (auto dest: set_zip_rightD)
    then have "parseBinary n 0 (w v @ t # r) = Some (Inr (v, t # r))"
      using l t assms(1) by (intro reads_item stops_closer) auto
    then show ?thesis by (simp add: struct_entry_def p_simps)
  qed
  have ne: "?fvs \<noteq> []" using assms(2,3) by (cases vs; cases fs) auto
  have "comma_list (struct_entry (parseBinary n) m) (is_op ''}'') (StructNotClosed m) (StructNeedsComma m) k []
      (sep (map ?w ?fvs) @ op_tok ''}'' # rest) = Some (Inr ([] @ ?fvs, rest))"
    by (rule comma_list_reads [where L = "n - 1", OF item])
      (use b ne in \<open>simp_all add: is_op_def w\<close>)
  then show "name_suffix (parseBinary n) k (ARef m)
      ((op_tok ''{'' # sep (map2 (\<lambda>f v. word_tok f # op_tok '':'' # v) fs (map w vs)) @ [op_tok ''}'']) @ rest)
      = Some (Inr (AStructLit m fs vs, rest))"
    using assms(2,5) by (simp add: name_suffix_def parseStructLit_def p_simps w)
qed auto

lemma name_call:
  "name_suffix pb k (ARef m) (lparen # ts) = parse_call_like pb k m (lparen # ts)"
  by (simp add: name_suffix_def p_simps)

lemma call_primary:
  assumes "\<And>e. e \<in> set es \<Longrightarrow> reads_binary 0 (w e) e" "free_name m" "\<not> isUpper m" "m \<notin> set state_names"
    and "m \<in> set agg_names \<Longrightarrow> m \<in> {''min'', ''max''} \<and>
      (\<forall>rest. argListHasComma (lparen # sep (map w es) @ rparen # rest))"
  shows "reads_primary (word_tok m # lparen # sep (map w es) @ [rparen]) (ACall m es)"
proof (rule named_primary [OF assms(2)])
  fix rest n k
  assume b: "length ((lparen # sep (map w es) @ [rparen]) @ rest) < n" "length ((lparen # sep (map w es) @ [rparen]) @ rest) < k"
  have "parseCall (parseBinary n) k m (lparen # sep (map w es) @ rparen # rest) = Some (Inr (ACall m es, rest))"
  proof (cases "es = []")
    case False
    have "comma_list (parseBinary n 0) (is_kind TRParen) (MissingParenIn m) (CallNeedsComma m) k [] (sep (map w es) @ rparen # rest)
        = Some (Inr ([] @ es, rest))"
      by (rule comma_list_reads [where L = "n - 1"])
        (use b False assms(1) in \<open>auto simp: is_kind_def intro!: reads_item stops_closer\<close>)
    moreover obtain t r where "sep (map w es) = t # r" "tk_kind t \<noteq> TRParen"
      using sep_starts [of es w] False assms(1) by (auto intro: reads_starts elim: starts_peek)
    ultimately show ?thesis by (simp add: parseCall_def p_simps)
  qed (simp add: parseCall_def p_simps)
  moreover have "\<not> agg_call m (lparen # sep (map w es) @ rparen # rest)"
  proof
    assume agg: "agg_call m (lparen # sep (map w es) @ rparen # rest)"
    then have "m \<in> set agg_names" by (auto simp: agg_call_def agg_names_def)
    from assms(5) [OF this] show False using agg by (auto simp: agg_call_def)
  qed
  ultimately show "name_suffix (parseBinary n) k (ARef m) ((lparen # sep (map w es) @ [rparen]) @ rest) = Some (Inr (ACall m es, rest))"
    using assms(3,4) by (simp add: name_call parse_call_like_def state_names_def)
qed auto

lemma upper_plain: "isUpper m \<Longrightarrow> \<not> agg_call m ts \<and> m \<notin> set state_names"
proof -
  have "\<forall>x \<in> set (agg_names @ state_names). \<not> isUpper x" by code_simp
  then show "isUpper m \<Longrightarrow> \<not> agg_call m ts \<and> m \<notin> set state_names"
    by (auto simp: agg_call_def agg_names_def)
qed

lemma lookup_primary:
  assumes "reads_binary 0 s e" "free_name m" "isUpper m"
  shows "reads_primary (word_tok m # lparen # s @ rparen # dot_field f) (AEntityGet m e f)"
proof (rule named_primary [OF assms(2)])
  fix rest n k
  assume b: "length ((lparen # s @ rparen # dot_field f) @ rest) < n" and f: "may_follow (AEntityGet m e f) rest"
  have "parseBinary n 0 (s @ rparen # dot_field f @ rest) = Some (Inr (e, rparen # dot_field f @ rest))"
    using b by (intro reads_item [OF assms(1)] stops_closer) auto
  then have "parse_lookup (parseBinary n) m (lparen # s @ rparen # dot_field f @ rest) = Some (Inr (AEntityGet m e f, rest))"
    using f by (cases rest) (auto simp: parse_lookup_def p_simps dot_field_def may_follow_def)
  then show "name_suffix (parseBinary n) k (ARef m) ((lparen # s @ rparen # dot_field f) @ rest) = Some (Inr (AEntityGet m e f, rest))"
    using upper_plain [OF assms(3)] builtins_lower [of m] assms(3)
    by (auto simp: name_call parse_call_like_def state_names_def)
qed auto

lemma state_primary:
  assumes "op \<in> set state_names"
  shows "reads_primary [word_tok op, lparen, word_tok m, rparen] (AActState m op)"
proof (rule named_primary)
  show "free_name op" using assms by (auto simp: state_names_def free_name_def is_name_def isIdentStart_def isIdentChar_def)
  fix rest n k
  have "\<not> agg_call op ts" for ts using assms by (auto simp: state_names_def agg_call_def)
  then show "name_suffix (parseBinary n) k (ARef op) ([lparen, word_tok m, rparen] @ rest) = Some (Inr (AActState m op, rest))"
    using assms by (auto simp: name_call parse_call_like_def state_names_def parseActState_def p_simps)
qed auto

subsection \<open>Parentheses, access and literals\<close>

lemma reads_primaryD:
  assumes "reads_primary s e" "length (s @ rest) \<le> n" "length (s @ rest) < k" "may_follow e rest"
    "\<And>k'. length rest < k' \<Longrightarrow> access_loop (parseBinary n) k' e rest = Some (Inr res)"
  shows "parsePostfix (parseBinary n) k (s @ rest) = Some (Inr res)"
  using assms unfolding reads_primary_def by blast

lemma paren_primary: "reads_binary 0 s e \<Longrightarrow> \<forall>n. e \<noteq> ARef n \<Longrightarrow> reads_primary (lparen # s @ [rparen]) e"
  by (rule atom_primary)
    (auto simp: starts_def unsigned_def parseAtom_def p_simps reads_item stops_closer)

lemma index_primary:
  assumes ob: "reads_primary s ob" and i: "reads_binary 0 t i"
  shows "reads_primary (s @ op_tok ''['' # t @ [op_tok '']'']) (AIndex ob i)"
  unfolding reads_primary_def
proof (intro conjI allI impI)
  fix rest n k res
  assume b: "length ((s @ op_tok ''['' # t @ [op_tok '']'']) @ rest) \<le> n" "length ((s @ op_tok ''['' # t @ [op_tok '']'']) @ rest) < k"
    and loop: "\<forall>k' > length rest. access_loop (parseBinary n) k' (AIndex ob i) rest = Some (Inr res)"
  have "parseBinary n 0 (t @ op_tok '']'' # rest) = Some (Inr (i, op_tok '']'' # rest))"
    using b by (intro reads_item [OF i] stops_closer) auto
  then have "access_loop (parseBinary n) k' ob (op_tok ''['' # t @ op_tok '']'' # rest) = Some (Inr res)"
    if "length (op_tok ''['' # t @ op_tok '']'' # rest) < k'" for k'
    using that loop by (cases k') (auto simp: p_simps)
  moreover have "may_follow ob (op_tok ''['' # t @ op_tok '']'' # rest)"
    by (simp add: may_follow_def split: ast.split)
  ultimately have "parsePostfix (parseBinary n) k (s @ op_tok ''['' # t @ op_tok '']'' # rest) = Some (Inr res)"
    using b by (intro reads_primaryD [OF ob]) auto
  then show "parsePostfix (parseBinary n) k ((s @ op_tok ''['' # t @ [op_tok '']'']) @ rest) = Some (Inr res)"
    by simp
qed (use ob in \<open>auto simp: reads_primary_def starts_def unsigned_def\<close>)

lemma get_primary:
  assumes ob: "reads_primary s ob" and g: "case ob of AEntityGet n i g \<Rightarrow> g \<noteq> [] | _ \<Rightarrow> True"
  shows "reads_primary (s @ [op_tok ''.'', word_tok f]) (AGet ob f)"
  unfolding reads_primary_def
proof (intro conjI allI impI)
  fix rest n k res
  assume b: "length ((s @ [op_tok ''.'', word_tok f]) @ rest) \<le> n" "length ((s @ [op_tok ''.'', word_tok f]) @ rest) < k"
    and loop: "\<forall>k' > length rest. access_loop (parseBinary n) k' (AGet ob f) rest = Some (Inr res)"
  have "access_loop (parseBinary n) k' ob (op_tok ''.'' # word_tok f # rest) = Some (Inr res)"
    if "length (op_tok ''.'' # word_tok f # rest) < k'" for k'
    using that loop by (cases k') (auto simp: p_simps)
  moreover have "may_follow ob (op_tok ''.'' # word_tok f # rest)"
    using g by (simp add: may_follow_def split: ast.splits)
  ultimately have "parsePostfix (parseBinary n) k (s @ op_tok ''.'' # word_tok f # rest) = Some (Inr res)"
    using b by (intro reads_primaryD [OF ob]) auto
  then show "parsePostfix (parseBinary n) k ((s @ [op_tok ''.'', word_tok f]) @ rest) = Some (Inr res)"
    by simp
qed (use ob in \<open>auto simp: reads_primary_def starts_def unsigned_def\<close>)

lemma path_primary:
  "free_name v \<Longrightarrow> reads_primary (word_tok v # dot_field f) (if f = [] then ARef v else AGet (ARef v) f)"
  using ref_primary [of v] get_primary [of "[word_tok v]" "ARef v" f] by (simp add: dot_field_def)

lemma unquote_quote_byte: "unquote_char (quote_byte c @ r) = Some ([c], r)"
proof (cases "32 \<le> byte c \<and> byte c < 127 \<and> c \<noteq> quote_char \<and> c \<noteq> backslash")
  case False
  have "alget simple_escapes CHR ''x'' = None" by code_simp
  moreover have "byte c div 16 < 16" by (simp add: of_char_def)
  ultimately show ?thesis
    using False by (simp add: quote_byte_def unquote_char_def numeral_2_eq_2 hex_value_digit)
qed (simp add: quote_byte_def unquote_char_def)

lemma quote_byte_head: "\<exists>d r. quote_byte c = d # r \<and> d \<noteq> quote_char \<and> d \<noteq> CHR 0x0A"
  by (auto simp: quote_byte_def)

lemma unquote_body_quote: "length s < n \<Longrightarrow> unquote_body n (quote_body s @ [quote_char]) = Some s"
proof (induction s arbitrary: n)
  case Nil
  then show ?case by (cases n) (auto simp: quote_body_def)
next
  case (Cons c s)
  then obtain j where n: "n = Suc j" "length s < j" by (cases n) auto
  obtain d r where d: "quote_byte c = d # r" "d \<noteq> quote_char" "d \<noteq> CHR 0x0A"
    using quote_byte_head by blast
  have "unquote_char (d # r @ quote_body s @ [quote_char]) = Some ([c], quote_body s @ [quote_char])"
    using unquote_quote_byte [of c "quote_body s @ [quote_char]"] d by simp
  then show ?case
    using Cons.IH [OF n(2)] d by (simp add: n quote_body_def)
qed

lemma quote_body_length: "length s \<le> length (quote_body s)"
proof (induction s)
  case (Cons c s)
  then show ?case using quote_byte_head [of c] by (auto simp: quote_body_def)
qed simp

lemma unquote_quote_text [simp]: "unquote (quote_text s) = Some s"
proof -
  have "unquote_body (length (quote_body s @ [quote_char])) (quote_body s @ [quote_char]) = Some s"
    using quote_body_length [of s] by (intro unquote_body_quote) simp
  then show ?thesis by (simp add: unquote_def quote_text_def del: unquote_body.simps)
qed

lemma number_lit_show:
  assumes "0 \<le> sint w"
  shows "number_lit (show_nat (nat (sint w))) = pret (ALit (GInt w) ''int'')"
proof -
  have "\<not> (\<exists>c \<in> set (show_nat (nat (sint w))). c \<in> {CHR ''.'', CHR ''e'', CHR ''E''})"
    using show_nat_digits [of "nat (sint w)"] by (auto simp: list_all_iff is_digit_def)
  moreover have "atoi (show_nat (nat (sint w))) = Some w"
    using atoi_show_int [of "sint w"] assms by (simp add: show_int_def)
  ultimately show ?thesis by (simp add: number_lit_def)
qed

lemma lit_primary: "writable_lit v t \<Longrightarrow> reads_primary (lit_tokens v) (ALit v t)"
  by (rule atom_primary)
    (auto simp: writable_lit_def lit_tokens_def starts_def unsigned_def parseAtom_def p_simps number_lit_show
      string_lit_def ident_atom_def split: gval.splits)

lemma asset_primary:
  "p \<noteq> [] \<Longrightarrow> reads_primary [word_tok ''asset'', word_tok ''from'', Token TStr (quote_text p)] (AAsset p None)"
  by (rule atom_primary)
    (auto simp: starts_def unsigned_def parseAtom_def p_simps ident_atom_def asset_path_def)

subsection \<open>Aggregates\<close>

text \<open>An aggregate with its sub-expressions written by \<open>w\<close> (the value) and \<open>w0\<close> (the clauses).\<close>

definition agg_written :: "(ast \<Rightarrow> token list) \<Rightarrow> (ast \<Rightarrow> token list) \<Rightarrow> ast ast_agg \<Rightarrow> token list ast_agg" where
  "agg_written w w0 a =
     AstAgg (aa_op a) (aa_coll a) (aa_field a) (aa_var a) (map_option w0 (aa_where a)) (map_option w (aa_sel a))
       (aa_order a) (aa_desc a) (map_option w0 (aa_limit a)) (map_option w0 (aa_order_expr a)) (aa_var_from_arg a)"

lemma stops_clause: "w \<noteq> ''in'' \<Longrightarrow> w \<noteq> ''from'' \<Longrightarrow> stops m rest \<Longrightarrow> stops m (clause w s @ rest)"
  by (cases s) (auto simp: clause_def stops_word)

lemma stops_order: "stops m rest \<Longrightarrow> stops m (order_tokens a @ rest)"
  by (auto simp: order_tokens_def stops_word split: option.split)

text \<open>The word a clause begins with is not the next token after it is left out.\<close>

definition no_word :: "string list \<Rightarrow> token list \<Rightarrow> bool" where
  "no_word ws ts = (case ts of t # _ \<Rightarrow> t \<notin> set (map word_tok ws) | [] \<Rightarrow> True)"

lemma no_word_clause: "w \<notin> set ws \<Longrightarrow> no_word ws rest \<Longrightarrow> no_word ws (clause w s @ rest)"
  by (cases s) (auto simp: clause_def no_word_def)

lemma no_word_order: "''by'' \<notin> set ws \<Longrightarrow> no_word ws rest \<Longrightarrow> no_word ws (order_tokens a @ rest)"
  by (auto simp: order_tokens_def no_word_def split: option.split)

lemma clause_reads:
  assumes "\<And>e. s = Some e \<Longrightarrow> reads_binary 0 (w e) e" "stops 0 rest" "no_word [c] rest"
    and "length (clause c (map_option w s) @ rest) \<le> n"
  shows "ppeek (\<lambda>t. if next_is (is_word c) t
     then padvance (pbind (parseBinary n 0) (\<lambda>x. pret (Some x))) else pret None) (clause c (map_option w s) @ rest)
     = Some (Inr (s, rest))"
proof (cases s)
  case None
  then show ?thesis using assms(3) by (cases rest) (auto simp: clause_def p_simps no_word_def)
next
  case (Some e)
  then have "parseBinary n 0 (w e @ rest) = Some (Inr (e, rest))"
    using assms by (intro reads_item) (auto simp: clause_def)
  then show ?thesis by (simp add: Some clause_def p_simps)
qed

lemma direction_reads:
  "no_word [''desc'', ''asc''] rest \<Longrightarrow> direction ((if d then [word_tok ''desc''] else []) @ rest) = Some (Inr (d, rest))"
  by (cases rest) (auto simp: direction_def p_simps no_word_def)

lemma order_reads:
  assumes "\<And>i. aa_order_expr a = Some i \<Longrightarrow> reads_binary 0 (w i) i"
    and "case aa_order_expr a of
        Some i \<Rightarrow> aa_order a = [] \<and> order_key (aa_var a) i = ([], Some i)
      | None \<Rightarrow> if aa_order a = [] then \<not> aa_desc a else free_name (aa_order a)"
    and "stops 0 rest" "no_word [''by'', ''desc'', ''asc''] rest"
    and "length (order_tokens (agg_written w' w a) @ rest) \<le> n"
  shows "order_clause (parseBinary n) (aa_var a) (order_tokens (agg_written w' w a) @ rest)
    = Some (Inr ((aa_order a, aa_order_expr a, aa_desc a), rest))"
proof -
  let ?d = "(if aa_desc a then [word_tok ''desc''] else []) @ rest"
  have dir: "direction ?d = Some (Inr (aa_desc a, rest))"
    using assms(4) by (intro direction_reads) (auto simp: no_word_def split: list.split)
  have st: "stops 0 ?d" using assms(3) by (simp add: stops_word)
  have keyed: ?thesis
    if s: "order_tokens (agg_written w' w a) @ rest = word_tok ''by'' # s @ ?d" and r: "reads_binary 0 s i"
      and key: "order_key (aa_var a) i = (aa_order a, aa_order_expr a)" for s i
  proof -
    have "parseBinary n 0 (s @ ?d) = Some (Inr (i, ?d))"
      using assms(5) s by (intro reads_item [OF r st]) auto
    moreover obtain t s' where "s = t # s'" "tk_kind t \<noteq> TRParen"
      using reads_starts [OF r] by (elim starts_peek)
    ultimately show ?thesis by (simp add: s order_clause_def p_simps dir key)
  qed
  show ?thesis
  proof (cases "aa_order_expr a")
    case (Some i)
    then show ?thesis using assms(1,2)
      by (intro keyed [of "w i" i]) (auto simp: order_tokens_def agg_written_def)
  next
    case None
    show ?thesis
    proof (cases "aa_order a = []")
      case True
      then show ?thesis using None assms(2,4)
        by (cases rest) (auto simp: order_tokens_def agg_written_def order_clause_def p_simps no_word_def)
    next
      case False
      then have "reads_binary 0 [word_tok (aa_order a)] (ARef (aa_order a))"
        using None assms(2) by (simp add: unary_binary primary_unary ref_primary)
      then show ?thesis using None False
        by (intro keyed) (auto simp: order_tokens_def agg_written_def order_key_def)
    qed
  qed
qed

lemma clauses_read:
  assumes wh: "\<And>e. aa_where a = Some e \<Longrightarrow> reads_binary 0 (w0 e) e"
    and lim: "\<And>e. aa_limit a = Some e \<Longrightarrow> reads_binary 0 (w0 e) e"
    and ord: "\<And>e. aa_order_expr a = Some e \<Longrightarrow> reads_binary 0 (w0 e) e"
    and ok: "writable_agg a" "agg_check (aa_op a) v (aa_coll a) (aa_field a) (aa_sel a) = None"
      "arg_var (aa_op a) (filter_var (aa_op a) v (aa_where a)) (aa_sel a) = (aa_var a, aa_var_from_arg a)"
    and n: "length (clause ''where'' (map_option w0 (aa_where a)) @ order_tokens (agg_written w w0 a)
      @ clause ''limit'' (map_option w0 (aa_limit a)) @ rparen # rest) \<le> n"
  shows "agg_clauses (parseBinary n) (aa_op a) v (aa_coll a) (aa_field a) (aa_sel a)
     (clause ''where'' (map_option w0 (aa_where a)) @ order_tokens (agg_written w w0 a)
      @ clause ''limit'' (map_option w0 (aa_limit a)) @ rparen # rest)
     = Some (Inr (AAgg a, rest))"
proof -
  let ?l = "clause ''limit'' (map_option w0 (aa_limit a)) @ rparen # rest"
  let ?o = "order_tokens (agg_written w w0 a) @ ?l"
  have sl: "stops 0 ?l" "stops 0 ?o"
    by (auto intro!: stops_clause stops_order stops_closer)
  have nl: "no_word [''by'', ''desc'', ''asc''] ?l" "no_word [''where''] ?o"
    by (auto intro!: no_word_clause no_word_order simp: no_word_def [of _ "rparen # rest"])
  have "where_clause (parseBinary n) (clause ''where'' (map_option w0 (aa_where a)) @ ?o) = Some (Inr (aa_where a, ?o))"
    unfolding where_clause_def using n wh by (intro clause_reads sl nl) auto
  moreover have "list_clauses (parseBinary n) (aa_op a) (aa_var a) ?o
      = Some (Inr ((aa_order a, aa_order_expr a, aa_desc a, aa_limit a), rparen # rest))"
  proof (cases "aa_op a = ''list''")
    case True
    have "order_clause (parseBinary n) (aa_var a) ?o = Some (Inr ((aa_order a, aa_order_expr a, aa_desc a), ?l))"
      using n ord ok(1) by (intro order_reads sl nl) (auto simp: writable_agg_def)
    moreover have "limit_clause (parseBinary n) ?l = Some (Inr (aa_limit a, rparen # rest))"
      unfolding limit_clause_def using n lim
      by (intro clause_reads stops_closer) (auto simp: no_word_def)
    ultimately show ?thesis using True by (simp add: list_clauses_def pbind_def pret_def)
  next
    case False
    then have "aa_order a = []" "aa_order_expr a = None" "aa_limit a = None" "\<not> aa_desc a"
      using ok(1) by (auto simp: writable_agg_def)
    then show ?thesis using False
      by (simp add: list_clauses_def order_tokens_def agg_written_def clause_def p_simps)
  qed
  ultimately show ?thesis
    using ok(2,3) by (cases a) (simp add: agg_clauses_def pbind_def p_simps)
qed

lemma agg_names_free: "op \<in> set agg_names \<Longrightarrow> free_name op"
proof -
  have "\<forall>x \<in> set agg_names. free_name x" by code_simp
  then show "op \<in> set agg_names \<Longrightarrow> free_name op" by blast
qed

lemma agg_whole_path: "agg_whole (if f = [] then ARef v else AGet (ARef v) f) = (v, f)"
  by (simp add: agg_whole_def)

lemma agg_value_reads:
  assumes "\<And>e. aa_sel a = Some e \<Longrightarrow> reads_binary 7 (w e) e" "aa_sel a = None \<longrightarrow> free_name (aa_var a)"
  shows "reads_binary 7 (case map_option w (aa_sel a) of Some s \<Rightarrow> s | None \<Rightarrow> word_tok (aa_var a) # dot_field (aa_field a))
    (agg_value a)"
  using assms path_primary [of "aa_var a" "aa_field a"]
  by (cases "aa_sel a") (simp_all add: agg_value_def unary_binary primary_unary)

lemma agg_primary:
  assumes sel: "\<And>e. aa_sel a = Some e \<Longrightarrow> reads_binary 7 (w e) e"
    and wh: "\<And>e. aa_where a = Some e \<Longrightarrow> reads_binary 0 (w0 e) e"
    and lim: "\<And>e. aa_limit a = Some e \<Longrightarrow> reads_binary 0 (w0 e) e"
    and ord: "\<And>e. aa_order_expr a = Some e \<Longrightarrow> reads_binary 0 (w0 e) e"
    and ok: "writable_agg a"
    and comma: "\<And>rest. aa_op a \<in> {''min'', ''max''} \<Longrightarrow>
      \<not> argListHasComma (lparen # agg_tokens (agg_written w w0 a) @ rparen # rest)"
  shows "reads_primary (word_tok (aa_op a) # lparen # agg_tokens (agg_written w w0 a) @ [rparen]) (AAgg a)"
proof (rule named_primary)
  have op: "aa_op a \<in> set agg_names" using ok by (simp add: writable_agg_def)
  then show "free_name (aa_op a)" by (rule agg_names_free)
  fix rest n k
  assume b: "length ((lparen # agg_tokens (agg_written w w0 a) @ [rparen]) @ rest) < n"
  let ?c = "clause ''where'' (map_option w0 (aa_where a)) @ order_tokens (agg_written w w0 a)
      @ clause ''limit'' (map_option w0 (aa_limit a)) @ rparen # rest"
  let ?v = "case map_option w (aa_sel a) of Some s \<Rightarrow> s | None \<Rightarrow> word_tok (aa_var a) # dot_field (aa_field a)"
  have sc: "stops 7 ?c" by (auto intro!: stops_clause stops_order stops_closer)
  have nin: "no_word [''in''] ?c"
    by (auto intro!: no_word_clause no_word_order simp: no_word_def [of _ "rparen # rest"])
  have "parseAgg (parseBinary n) (aa_op a) (lparen # agg_tokens (agg_written w w0 a) @ rparen # rest) = Some (Inr (AAgg a, rest))"
  proof (cases "agg_in_form a")
    case True
    then obtain v where h: "agg_head (aa_op a) (agg_value a) = (v, aa_field a, aa_sel a)" "v = [] \<longrightarrow> aa_op a = ''list''"
      "arg_var (aa_op a) (filter_var (aa_op a) v (aa_where a)) (aa_sel a) = (aa_var a, aa_var_from_arg a)"
      "agg_check (aa_op a) v (aa_coll a) (aa_field a) (aa_sel a) = None"
      using ok by (auto simp: writable_agg_def)
    have hv: "reads_binary 7 ?v (agg_value a)"
      using True ok by (intro agg_value_reads sel) (auto simp: writable_agg_def)
    have toks: "agg_tokens (agg_written w w0 a) @ rparen # rest = ?v @ word_tok ''in'' # word_tok (aa_coll a) # ?c"
      using True by (cases "aa_sel a") (simp_all add: agg_tokens_def agg_in_form_def agg_written_def)
    have "parseBinary n 7 (?v @ word_tok ''in'' # word_tok (aa_coll a) # ?c)
        = Some (Inr (agg_value a, word_tok ''in'' # word_tok (aa_coll a) # ?c))"
      by (rule reads_full [OF hv _ stops_in]) (use b toks in \<open>auto simp flip: toks\<close>)
    moreover obtain t r where "?v = t # r" "tk_kind t \<noteq> TRParen"
      using reads_starts [OF hv] by (elim starts_peek)
    moreover have "agg_clauses (parseBinary n) (aa_op a) v (aa_coll a) (aa_field a) (aa_sel a) ?c = Some (Inr (AAgg a, rest))"
      by (rule clauses_read) (use wh lim ord ok b toks h in \<open>auto simp flip: toks\<close>)
    ultimately show ?thesis
      using h(1,2) by (auto simp: toks parseAgg_def precArith_def p_simps)
  next
    case False
    let ?p = "word_tok (aa_coll a) # dot_field (aa_field a)"
    let ?e = "if aa_field a = [] then ARef (aa_coll a) else AGet (ARef (aa_coll a)) (aa_field a)"
    have hv: "reads_binary 7 ?p ?e"
      using ok by (intro unary_binary primary_unary path_primary) (simp add: writable_agg_def)
    have toks: "agg_tokens (agg_written w w0 a) @ rparen # rest = ?p @ ?c"
      using False by (simp add: agg_tokens_def agg_in_form_def agg_written_def)
    obtain t r where c: "?c = t # r" "t \<noteq> word_tok ''in''"
      using nin by (cases ?c) (auto simp: no_word_def)
    have "parseBinary n 7 (?p @ ?c) = Some (Inr (?e, ?c))"
      by (rule reads_full [OF hv _ sc]) (use b toks in \<open>auto simp flip: toks\<close>)
    then have head: "parseBinary n 7 (word_tok (aa_coll a) # dot_field (aa_field a) @ t # r) = Some (Inr (?e, t # r))"
      unfolding c by simp
    have sv: "aa_sel a = None" "aa_var a = []" "aa_coll a \<noteq> []"
      using False ok by (auto simp: agg_in_form_def writable_agg_def free_name_def is_name_def)
    have "agg_clauses (parseBinary n) (aa_op a) [] (aa_coll a) (aa_field a) (aa_sel a) ?c = Some (Inr (AAgg a, rest))"
      by (rule clauses_read) (use False wh lim ord ok b toks sv in \<open>auto simp: writable_agg_def arg_var_def simp flip: toks\<close>)
    then have clauses: "agg_clauses (parseBinary n) (aa_op a) [] (aa_coll a) (aa_field a) None (t # r) = Some (Inr (AAgg a, rest))"
      unfolding c sv .
    show ?thesis
      unfolding toks c using sv(3) c(2) clauses
      by (simp add: parseAgg_def precArith_def p_simps head agg_whole_path)
  qed
  moreover have "agg_call (aa_op a) (lparen # agg_tokens (agg_written w w0 a) @ rparen # rest)"
    using op comma [of rest] by (auto simp: agg_names_def agg_call_def)
  ultimately show "name_suffix (parseBinary n) k (ARef (aa_op a)) ((lparen # agg_tokens (agg_written w w0 a) @ [rparen]) @ rest)
      = Some (Inr (AAgg a, rest))"
    by (simp add: name_call parse_call_like_def)
qed auto

subsection \<open>The comma a call of two values is told by\<close>

text \<open>
  Written expressions have matching parentheses, so the scan for a comma passes over one unless
  it holds a comma at depth one.
\<close>

definition balanced :: "token list \<Rightarrow> bool" where
  "balanced s \<longleftrightarrow> (\<forall>d rest. 1 \<le> d \<longrightarrow>
     comma_scan d (s @ rest) = ((d = 1 \<and> comma_scan 1 s) \<or> comma_scan d rest))"

lemma comma_scan_append:
  "balanced s \<Longrightarrow> 1 \<le> d \<Longrightarrow> comma_scan d (s @ rest) = ((d = 1 \<and> comma_scan 1 s) \<or> comma_scan d rest)"
  unfolding balanced_def by blast

lemma balanced_append: "balanced s \<Longrightarrow> balanced t \<Longrightarrow> balanced (s @ t)"
  by (subst balanced_def) (auto simp: comma_scan_append)

lemma balanced_Nil: "balanced []"
  by (simp add: balanced_def)

lemma balanced_one: "tk_kind t \<noteq> TLParen \<Longrightarrow> tk_kind t \<noteq> TRParen \<Longrightarrow> balanced [t]"
  by (auto simp: balanced_def)

lemma balanced_Cons: "tk_kind t \<noteq> TLParen \<Longrightarrow> tk_kind t \<noteq> TRParen \<Longrightarrow> balanced s \<Longrightarrow> balanced (t # s)"
  using balanced_append [OF balanced_one, of t s] by simp

lemma balanced_parens: "balanced s \<Longrightarrow> balanced t \<Longrightarrow> balanced (lparen # s @ rparen # t)"
  by (subst balanced_def) (auto simp: comma_scan_append)

lemmas balanced_intros = balanced_append balanced_Nil balanced_one balanced_Cons balanced_parens

lemma balanced_sep: "(\<And>s. s \<in> set xs \<Longrightarrow> balanced s) \<Longrightarrow> balanced (sep xs)"
  by (induction xs rule: sep.induct) (auto intro!: balanced_intros)

lemma balanced_clause: "(\<And>x. s = Some x \<Longrightarrow> balanced x) \<Longrightarrow> balanced (clause w s)"
  by (cases s) (auto simp: clause_def intro!: balanced_intros)

lemma balanced_agg:
  assumes "\<And>x. aa_sel a = Some x \<Longrightarrow> balanced x" "\<And>x. aa_where a = Some x \<Longrightarrow> balanced x"
    "\<And>x. aa_limit a = Some x \<Longrightarrow> balanced x" "\<And>x. aa_order_expr a = Some x \<Longrightarrow> balanced x"
  shows "balanced (agg_tokens a)"
  using assms
  by (auto simp: agg_tokens_def order_tokens_def dot_field_def split: option.split intro!: balanced_intros balanced_clause)

lemma bin_tok_kind: "tk_kind (bin_tok op) \<noteq> TLParen" "tk_kind (bin_tok op) \<noteq> TRParen"
  by (auto simp: bin_tok_def)

lemma written_balanced: "balanced (written p e)"
proof (induction p e rule: written.induct)
  case (1 p v t)
  then show ?case by (auto simp: lit_tokens_def intro!: balanced_intros split: gval.split)
next
  case (4 p ks vs)
  have "balanced s" if s: "s \<in> set (map2 (\<lambda>x v. x @ op_tok '':'' # v) (map (written 0) ks) (map (written 0) vs))" for s
  proof -
    obtain x v where xv: "(x, v) \<in> set (zip ks vs)" "s = written 0 x @ op_tok '':'' # written 0 v"
      using s by (auto simp: map2_pairs)
    then have "x \<in> set ks" "v \<in> set vs" by (auto dest: set_zip_leftD set_zip_rightD)
    then show ?thesis using 4 xv(2) by (auto intro!: balanced_intros)
  qed
  then show ?case by (auto intro!: balanced_intros balanced_sep)
next
  case (5 p n fs vs)
  have "balanced s" if "s \<in> set (map2 (\<lambda>f v. word_tok f # op_tok '':'' # v) fs (map (written 0) vs))" for s
    using that 5 by (auto dest!: set_zip_rightD intro!: balanced_intros)
  then show ?case by (auto intro!: balanced_intros balanced_sep)
next
  case (11 p a)
  then show ?case by (auto intro!: balanced_intros balanced_agg)
next
  case (13 p op l r)
  then have "balanced (written (prec_of op) l @ bin_tok op # written (prec_of op + 1) r)"
    by (auto simp: bin_tok_kind intro!: balanced_intros)
  then show ?case using balanced_parens [OF _ balanced_Nil] by (fastforce simp: parens_def)
next
  case (10 p n op)
  show ?case using balanced_parens [OF balanced_one balanced_Nil, of "word_tok n"]
    by (auto intro: balanced_Cons)
next
  case (14 p op x)
  then have "balanced (op_tok op # written 10 x)" by (auto intro!: balanced_intros)
  then show ?case using balanced_parens [OF _ balanced_Nil] by (fastforce simp: parens_def)
qed (auto simp: parens_def dot_field_def intro!: balanced_intros balanced_sep)

lemma comma_scan_sep: "2 \<le> length xs \<Longrightarrow> balanced (hd xs) \<Longrightarrow> comma_scan 1 (sep xs @ rest)"
  by (cases xs rule: sep.cases) (auto simp: comma_scan_append is_op_def)

subsection \<open>Reading back what was written\<close>

lemma written_sep_11: "written p e = written 0 e \<or> (\<exists>op l r. e = ABin op l r) \<or> (\<exists>op x. e = AUn op x)"
  by (cases e) auto

lemma prec_of: "binPrec op = Some q \<Longrightarrow> prec_of op = q"
  by (simp add: prec_of_def)

lemma prec_bound: "binPrec op = Some q \<Longrightarrow> q \<le> 9"
  by (auto simp: binPrec_def split: if_splits)

lemma ast_in_smaller: "x \<in> set xs \<Longrightarrow> size (x :: ast) < Suc (n + size_list size xs)" "x \<in> set xs \<Longrightarrow> size (x :: ast) < Suc (size_list size xs + n)"
  "x \<in> set xs \<Longrightarrow> size (x :: ast) < Suc (size_list size xs)"
  by (induction xs) auto

text \<open>The forms that are not an operator are primaries; \<open>w\<close> stands for what is known of the parts.\<close>

lemma written_primary:
  assumes "writable e" "\<forall>op l r. e \<noteq> ABin op l r" "\<forall>op x. e \<noteq> AUn op x"
    and part: "\<And>x p. size x < size e \<Longrightarrow> writable x \<Longrightarrow> reads_binary p (written p x) x"
    and prim: "\<And>x. size x < size e \<Longrightarrow> writable x \<Longrightarrow> reads_primary (written 11 x) x"
  shows "reads_primary (written p e) e"
proof (cases e)
  case (ALit v t)
  then show ?thesis using assms(1) by (simp add: lit_primary)
next
  case (AAsset s r)
  then show ?thesis using assms(1) by (simp add: asset_primary)
next
  case (AListLit es)
  have "reads_binary 0 (written 0 x) x" if "x \<in> set es" for x
    using that assms(1) AListLit by (intro part) (auto simp: list_all_iff ast_in_smaller)
  then show ?thesis unfolding AListLit written.simps by (rule list_primary)
next
  case (AMapLit ks vs)
  have "reads_binary 0 (written 0 x) x" if "x \<in> set ks \<union> set vs" for x
    using that assms(1) AMapLit by (intro part) (auto simp: list_all_iff ast_in_smaller)
  then show ?thesis using assms(1) AMapLit unfolding written.simps by (auto intro: map_primary)
next
  case (AStructLit n fs vs)
  have "reads_binary 0 (written 0 x) x" if "x \<in> set vs" for x
    using that assms(1) AStructLit by (intro part) (auto simp: list_all_iff ast_in_smaller)
  moreover have "free_name n" using assms(1) AStructLit by (auto simp: free_name_def isUpper_def)
  ultimately show ?thesis using assms(1) unfolding AStructLit written.simps
    by (intro struct_primary) auto
next
  case (AIndex ob i)
  then show ?thesis using assms(1) by (auto intro!: index_primary prim part)
next
  case (ARef n)
  then show ?thesis using assms(1) by (simp add: ref_primary)
next
  case (AGet ob f)
  then show ?thesis using assms(1) by (auto intro!: get_primary prim)
next
  case (AEntityGet n i f)
  moreover have "free_name n" using assms(1) AEntityGet by (auto simp: free_name_def isUpper_def)
  ultimately show ?thesis using assms(1) by (auto intro!: lookup_primary part)
next
  case (AActState n op)
  then show ?thesis using assms(1) by (auto intro!: state_primary)
next
  case (AAgg a)
  have w: "written p e = word_tok (aa_op a) # lparen # agg_tokens (agg_written (written 7) (written 0) a) @ [rparen]"
    by (simp add: AAgg agg_written_def)
  have w0: "tl (written 0 (AAgg a)) = lparen # agg_tokens (agg_written (written 7) (written 0) a) @ [rparen]"
    by (simp add: agg_written_def)
  have bal: "balanced (agg_tokens (agg_written (written 7) (written 0) a))"
    by (auto simp: agg_written_def intro!: balanced_agg written_balanced)
  have "\<not> argListHasComma (lparen # agg_tokens (agg_written (written 7) (written 0) a) @ rparen # rest)"
    if "aa_op a \<in> {''min'', ''max''}" for rest
  proof -
    have "\<not> argListHasComma (lparen # agg_tokens (agg_written (written 7) (written 0) a) @ [rparen])"
      using assms(1) that unfolding AAgg writable.simps w0 by blast
    then show ?thesis using bal by (simp add: argListHasComma_def comma_scan_append)
  qed
  moreover have "writable_agg a" "\<forall>x \<in> set_option (aa_where a). writable x" "\<forall>x \<in> set_option (aa_sel a). writable x"
    "\<forall>x \<in> set_option (aa_limit a). writable x" "\<forall>x \<in> set_option (aa_order_expr a). writable x"
    using assms(1) AAgg by auto
  ultimately show ?thesis
    unfolding w unfolding AAgg by (intro agg_primary part) (auto simp: AAgg size_ast_agg)
next
  case (ACall n es)
  have r: "reads_binary 0 (written 0 x) x" if "x \<in> set es" for x
    using that assms(1) ACall by (intro part) (auto simp: list_all_iff ast_in_smaller)
  have "argListHasComma (lparen # sep (map (written 0) es) @ rparen # rest)" if "n \<in> set agg_names" for rest
  proof -
    have "2 \<le> length es" using assms(1) ACall that by auto
    moreover have "balanced (hd (map (written 0) es))"
      using calculation by (cases es) (auto simp: written_balanced)
    ultimately have "comma_scan 1 (sep (map (written 0) es) @ rparen # rest)"
      by (intro comma_scan_sep) simp_all
    then show ?thesis by (simp add: argListHasComma_def)
  qed
  then show ?thesis using assms(1) r unfolding ACall written.simps
    by (intro call_primary) auto
qed (use assms(2,3) in auto)

lemma written_reads:
  "writable e \<Longrightarrow> reads_binary p (written p e) e \<and> reads_unary (written 10 e) e \<and> reads_primary (written 11 e) e"
proof (induction e arbitrary: p rule: measure_induct_rule [where f = size])
  case (less e)
  have part: "reads_binary q (written q x) x" "reads_unary (written 10 x) x" "reads_primary (written 11 x) x"
    if "size x < size e" "writable x" for x q
    using less.IH that by blast+
  show ?case
  proof (cases e)
    case (ABin op l r)
    then obtain q where q: "binPrec op = Some q" using less.prems by auto
    then have pq: "prec_of op = q" "q \<le> 9" by (auto simp: prec_of dest: prec_bound)
    have bin: "reads_binary p (written q l @ bin_tok op # written (q + 1) r) e" if "p \<le> q" for p
      unfolding ABin by (rule binary_op) (use ABin less.prems q that in \<open>auto intro: part\<close>)
    then have par: "reads_primary (lparen # (written q l @ bin_tok op # written (q + 1) r) @ [rparen]) e"
      by (intro paren_primary) (auto simp: ABin)
    then have "reads_binary p (written p e) e"
      using bin pq unfolding ABin by (auto simp: parens_def intro: unary_binary primary_unary)
    then show ?thesis using par pq unfolding ABin by (auto simp: parens_def intro: primary_unary)
  next
    case (AUn op x)
    then have un: "reads_unary (op_tok op # written 10 x) e"
      using less.prems part(2) [of x] unfolding AUn by (auto intro: unary_op)
    then have par: "reads_primary (lparen # (op_tok op # written 10 x) @ [rparen]) e"
      by (intro paren_primary unary_binary) (auto simp: AUn)
    then have "reads_binary p (written p e) e"
      using un unfolding AUn by (auto simp: parens_def intro: unary_binary primary_unary)
    then show ?thesis using par un unfolding AUn by (auto simp: parens_def)
  qed (use written_primary [OF less.prems, OF _ _ part(1) part(3)] in \<open>auto intro: unary_binary primary_unary\<close>)
qed

lemma parse_tokens_written: "writable e \<Longrightarrow> parse_tokens (written 0 e) = Inr e"
  using reads_item [of "written 0 e" e "[]" "Suc (length (written 0 e))"] written_reads [of e 0]
  by (simp add: parse_tokens_def stops_def closes_def del: parseBinary.simps)

end
