(* ===== verification/ReadBack.thy ===== *)
theory ReadBack
  imports Written
begin

text \<open>
  The text of a written expression: its tokens with a blank after each. The lexer gives the
  tokens back and the parser the expression.
\<close>

subsection \<open>The text of tokens\<close>

definition op_texts :: "string list" where
  "op_texts = two_char_ops @ map (\<lambda>c. [c]) ''.,[]{}:+-*/%<>&|^!~''"

definition tok_ok :: "token \<Rightarrow> bool" where
  "tok_ok t \<longleftrightarrow> (case tk_kind t of
     TNum \<Rightarrow> tk_text t \<noteq> [] \<and> list_all is_digit (tk_text t)
   | TStr \<Rightarrow> (\<exists>s. tk_text t = quote_text s)
   | TIdent \<Rightarrow> is_name (tk_text t)
   | TOp \<Rightarrow> tk_text t \<in> set op_texts
   | TLParen \<Rightarrow> tk_text t = ''(''
   | TRParen \<Rightarrow> tk_text t = '')'')"

definition token_text :: "token list \<Rightarrow> string" where
  "token_text ts = concat (map (\<lambda>t. tk_text t @ '' '') ts)"

definition source_text :: "ast \<Rightarrow> string" where
  "source_text e = token_text (written 0 e)"

lemma tokenize_blank [simp]: "tokenize (CHR '' '' # s) = tokenize s"
  by (simp add: tokenize.simps)

lemma ident_start_not: "isIdentStart c \<Longrightarrow> c \<notin> {CHR '' '', CHR 0x09, CHR ''('', CHR '')'', quote_char} \<and> \<not> is_digit c"
  by (auto simp: isIdentStart_def is_digit_def)

lemma takeWhile_stop: "list_all P r \<Longrightarrow> \<not> P c \<Longrightarrow> takeWhile P (r @ c # s) = r"
  by (induction r) auto

lemma dropWhile_stop: "list_all P r \<Longrightarrow> \<not> P c \<Longrightarrow> dropWhile P (r @ c # s) = c # s"
  by (induction r) auto

lemma tokenize_ident:
  assumes "is_name n"
  shows "tokenize (n @ CHR '' '' # s) = map_option ((#) (word_tok n)) (tokenize s)"
proof -
  obtain c r where n: "n = c # r" "isIdentStart c" "list_all isIdentChar r"
    using assms by (auto simp: is_name_def split: list.splits)
  have "\<not> isIdentChar CHR '' ''" by code_simp
  then show ?thesis
    using ident_start_not [OF n(2)] n by (simp add: tokenize.simps(2) takeWhile_stop dropWhile_stop)
qed

lemma tokenize_num:
  assumes "n \<noteq> []" "list_all is_digit n"
  shows "tokenize (n @ CHR '' '' # s) = map_option ((#) (Token TNum n)) (tokenize s)"
proof -
  obtain c r where n: "n = c # r" "is_digit c" using assms by (cases n) auto
  then have c: "c \<notin> {CHR '' '', CHR 0x09, CHR ''('', CHR '')'', quote_char}" by (auto simp: is_digit_def)
  have "\<not> is_digit CHR '' ''" by code_simp
  then have "scan_number (n @ CHR '' '' # s) = n"
    using assms by (simp add: scan_number_def takeWhile_stop fraction_def exponentEnd_def split: list.split)
  then show ?thesis using c n by (simp add: tokenize.simps(2) del: scan_number_def)
qed

lemma scan_string_quoted: "scan_string (quote_body t @ quote_char # s) = Some (quote_body t @ [quote_char], s)"
proof (induction t)
  case (Cons c t)
  have "hex_digit d \<noteq> quote_char \<and> hex_digit d \<noteq> backslash" if "d < 16" for d
  proof -
    have "byte (hex_digit d) = (if d < 10 then 48 + d else 87 + d)" using that by (simp add: hex_digit_def)
    then have "byte (hex_digit d) \<noteq> 34" "byte (hex_digit d) \<noteq> 92" using that by (auto split: if_splits)
    then show ?thesis by auto
  qed
  moreover have "byte c div 16 < 16" by (simp add: of_char_def)
  ultimately show ?case using Cons by (auto simp: quote_body_def quote_byte_def)
qed (simp add: quote_body_def)

lemma tokenize_str:
  "tokenize (quote_text t @ CHR '' '' # s) = map_option ((#) (Token TStr (quote_text t))) (tokenize s)"
  by (simp add: quote_text_def tokenize.simps(2) scan_string_quoted)

definition op_char :: "char \<Rightarrow> bool" where
  "op_char c \<longleftrightarrow> c \<notin> {CHR '' '', CHR 0x09, CHR ''('', CHR '')'', quote_char} \<and> \<not> is_digit c \<and> \<not> isIdentStart c"

lemma op_chars: "list_all (\<lambda>c. op_char c \<and> [c, CHR '' ''] \<notin> set two_char_ops \<and> byte c < 128) ''.,[]{}:+-*/%<>&|^!~''"
  by (simp add: op_char_def two_char_ops_def is_digit_def isIdentStart_def)

lemma two_chars: "list_all (\<lambda>n. length n = 2 \<and> op_char (hd n)) two_char_ops"
  by (simp add: op_char_def two_char_ops_def is_digit_def isIdentStart_def)

lemma tokenize_op:
  assumes "n \<in> set op_texts"
  shows "tokenize (n @ CHR '' '' # s) = map_option ((#) (op_tok n)) (tokenize s)"
proof (cases "n \<in> set two_char_ops")
  case True
  then have "length n = 2" "op_char (hd n)" using two_chars by (simp_all add: list_all_iff)
  moreover from this obtain c d where "n = [c, d]"
    by (metis One_nat_def Suc_1 length_0_conv length_Suc_conv)
  ultimately show ?thesis using True by (simp add: tokenize.simps(2) op_char_def)
next
  case False
  then obtain c where n: "n = [c]" "c \<in> set ''.,[]{}:+-*/%<>&|^!~''"
    using assms unfolding op_texts_def set_append set_map by blast
  then have "op_char c" "[c, CHR '' ''] \<notin> set two_char_ops" "byte c < 128"
    using op_chars unfolding list_all_iff by blast+
  moreover from this have "encode_rune (byte c) = [c]" by (simp add: encode_rune_def)
  ultimately show ?thesis using n(1) by (simp add: tokenize.simps(2) op_char_def)
qed

lemma tokenize_token:
  assumes "tok_ok t"
  shows "tokenize (tk_text t @ CHR '' '' # s) = map_option ((#) t) (tokenize s)"
proof (cases t)
  case (Token k n)
  then show ?thesis
    using assms by (cases k)
      (auto simp: tok_ok_def tokenize_num tokenize_str tokenize_ident tokenize_op tokenize.simps(2))
qed

lemma tokenize_text: "list_all tok_ok ts \<Longrightarrow> tokenize (token_text ts) = Some ts"
  by (induction ts) (simp_all add: token_text_def tokenize_token)

subsection \<open>The text of an expression\<close>

lemma tok_ok_simps [simp]:
  "tok_ok (word_tok n) = is_name n" "tok_ok lparen" "tok_ok rparen" "tok_ok (Token TStr (quote_text s))"
  "tok_ok (op_tok n) = (n \<in> set op_texts)" "tok_ok (Token TNum (show_nat k))"
  using show_nat_digits by (auto simp: tok_ok_def)

lemma op_text_mem:
  "set op_texts = set two_char_ops \<union> (\<lambda>c. [c]) ` set ''.,[]{}:+-*/%<>&|^!~''"
  by (simp only: op_texts_def set_append set_map)

lemma punctuation [simp]:
  "''.'' \<in> set op_texts" "'','' \<in> set op_texts" "''['' \<in> set op_texts" "'']'' \<in> set op_texts"
  "''{'' \<in> set op_texts" "''}'' \<in> set op_texts" "'':'' \<in> set op_texts"
  unfolding op_text_mem by simp_all

lemma words_ok [simp]: "list_all is_name ([''true'', ''false'', ''asset'', ''from'', ''in'', ''where'', ''by'', ''desc'', ''limit''])"
  by (simp add: is_name_def isIdentStart_def isIdentChar_def is_digit_def)

lemma word_ok: "n \<in> set [''true'', ''false'', ''asset'', ''from'', ''in'', ''where'', ''by'', ''desc'', ''limit''] \<Longrightarrow> is_name n"
  using words_ok by (simp only: list_all_iff)

lemma free_name_ok: "free_name n \<Longrightarrow> is_name n"
  by (simp add: free_name_def)

lemma unary_ok: "op \<in> set unary_ops \<Longrightarrow> op \<in> set op_texts"
proof -
  have "\<forall>op \<in> set unary_ops. op \<in> set op_texts" unfolding op_text_mem by (simp add: unary_ops_def)
  then show "op \<in> set unary_ops \<Longrightarrow> op \<in> set op_texts" by blast
qed

definition bin_op_names :: "string list" where
  "bin_op_names = [''||'', ''&&'', ''|'', ''^'', ''&'', ''=='', ''!='', ''<'', ''<='', ''>'', ''>='', ''<<'', ''>>'',
     ''+'', ''-'', ''*'', ''/'', ''%'']"

lemma bin_op_named: "op \<noteq> ''in'' \<Longrightarrow> op \<notin> set bin_op_names \<Longrightarrow> binPrec op = None"
  by (simp add: binPrec_def bin_op_names_def)

lemma bin_op_text: "op \<in> set bin_op_names \<Longrightarrow> op \<in> set op_texts"
proof -
  have "\<forall>op \<in> set bin_op_names. op \<in> set op_texts"
    unfolding op_text_mem by (simp add: two_char_ops_def bin_op_names_def)
  then show "op \<in> set bin_op_names \<Longrightarrow> op \<in> set op_texts" by blast
qed

lemma bin_tok_ok: "binPrec op \<noteq> None \<Longrightarrow> tok_ok (bin_tok op)"
  using bin_op_named [of op] bin_op_text [of op]
  by (cases "op \<in> set bin_op_names") (auto simp: bin_tok_def word_ok)

abbreviation toks_ok :: "token list \<Rightarrow> bool" where
  "toks_ok ts \<equiv> list_all tok_ok ts"

lemma sep_ok: "(\<And>s. s \<in> set xs \<Longrightarrow> toks_ok s) \<Longrightarrow> toks_ok (sep xs)"
  by (induction xs rule: sep.induct) auto

lemma clause_ok: "is_name w \<Longrightarrow> (\<And>x. s = Some x \<Longrightarrow> toks_ok x) \<Longrightarrow> toks_ok (clause w s)"
  by (cases s) (auto simp: clause_def)

lemma dot_field_ok: "f = [] \<or> is_name f \<Longrightarrow> toks_ok (dot_field f)"
  by (auto simp: dot_field_def)

lemma order_ok:
  "(\<And>x. aa_order_expr a = Some x \<Longrightarrow> toks_ok x) \<Longrightarrow> (aa_order_expr a = None \<Longrightarrow> aa_order a = [] \<or> is_name (aa_order a)) \<Longrightarrow>
    toks_ok (order_tokens a)"
  by (auto simp: order_tokens_def word_ok split: option.split)

lemma agg_ok:
  assumes "\<And>x. aa_sel a = Some x \<Longrightarrow> toks_ok x" "\<And>x. aa_where a = Some x \<Longrightarrow> toks_ok x"
    "\<And>x. aa_limit a = Some x \<Longrightarrow> toks_ok x" "toks_ok (order_tokens a)"
    "is_name (aa_coll a)" "aa_field a = [] \<or> is_name (aa_field a)"
    "agg_in_form a \<Longrightarrow> aa_sel a = None \<Longrightarrow> is_name (aa_var a)"
  shows "toks_ok (agg_tokens a)"
  using assms
  by (auto simp: agg_tokens_def dot_field_ok word_ok split: option.split intro!: clause_ok)

lemma written_ok: "writable e \<Longrightarrow> toks_ok (written p e)"
proof (induction p e rule: written.induct)
  case (1 p v t)
  then show ?case by (auto simp: lit_tokens_def writable_lit_def word_ok split: gval.splits)
next
  case (3 p es)
  then have "toks_ok (written 0 x)" if "x \<in> set es" for x using that by (simp add: list_all_iff)
  then show ?case by (auto intro!: sep_ok)
next
  case (12 p n es)
  then have "toks_ok (written 0 x)" if "x \<in> set es" for x using that by (simp add: list_all_iff)
  moreover have "is_name n" using 12 by (simp add: free_name_def)
  ultimately show ?case by (auto intro!: sep_ok)
next
  case (4 p ks vs)
  have "toks_ok s" if s: "s \<in> set (map2 (\<lambda>x v. x @ op_tok '':'' # v) (map (written 0) ks) (map (written 0) vs))" for s
  proof -
    obtain x v where xv: "(x, v) \<in> set (zip ks vs)" "s = written 0 x @ op_tok '':'' # written 0 v"
      using s by (auto simp: map2_pairs)
    then have "x \<in> set ks" "v \<in> set vs" by (auto dest: set_zip_leftD set_zip_rightD)
    then show ?thesis using 4 xv(2) by (auto simp: list_all_iff)
  qed
  then show ?case by (auto intro!: sep_ok)
next
  case (5 p n fs vs)
  have "toks_ok s" if s: "s \<in> set (map2 (\<lambda>f v. word_tok f # op_tok '':'' # v) fs (map (written 0) vs))" for s
  proof -
    obtain f v where "(f, v) \<in> set (zip fs (map (written 0) vs))" "s = word_tok f # op_tok '':'' # v"
      using s by auto
    moreover from this have "f \<in> set fs" "v \<in> written 0 ` set vs" by (auto dest: set_zip_leftD set_zip_rightD)
    ultimately show ?thesis using 5 by (auto simp: list_all_iff)
  qed
  then show ?case using 5 by (auto intro!: sep_ok)
next
  case (9 p n i f)
  then show ?case by (auto intro!: dot_field_ok)
next
  case (10 p n op)
  have "\<forall>op \<in> set state_names. is_name op" by code_simp
  then show ?case using 10 by auto
next
  case (11 p a)
  then have wa: "writable_agg a" by simp
  have names: "is_name (aa_op a)" "is_name (aa_coll a)" "aa_field a = [] \<or> is_name (aa_field a)"
    using wa agg_names_free [of "aa_op a"] by (simp_all add: writable_agg_def free_name_def)
  have var: "agg_in_form a \<Longrightarrow> aa_sel a = None \<Longrightarrow> is_name (aa_var a)"
    using wa by (simp add: writable_agg_def free_name_def)
  have ord: "aa_order_expr a = None \<Longrightarrow> aa_order a = [] \<or> is_name (aa_order a)"
    using wa by (auto simp: writable_agg_def free_name_def)
  have parts: "\<And>x. aa_where a = Some x \<Longrightarrow> toks_ok (written 0 x)" "\<And>x. aa_sel a = Some x \<Longrightarrow> toks_ok (written 7 x)"
    "\<And>x. aa_limit a = Some x \<Longrightarrow> toks_ok (written 0 x)" "\<And>x. aa_order_expr a = Some x \<Longrightarrow> toks_ok (written 0 x)"
    using 11 by simp_all
  have "toks_ok (agg_tokens (agg_written (written 7) (written 0) a))"
  proof (rule agg_ok)
    show "toks_ok (order_tokens (agg_written (written 7) (written 0) a))"
      by (rule order_ok) (use parts ord in \<open>auto simp: agg_written_def\<close>)
  qed (use parts names var in \<open>auto simp: agg_written_def agg_in_form_def\<close>)
  then show ?case using names by (simp add: agg_written_def)
next
  case (13 p op l r)
  then show ?case by (auto simp: parens_def bin_tok_ok)
next
  case (14 p op x)
  then show ?case by (auto simp: parens_def unary_ok)
qed (auto simp: word_ok free_name_ok)


lemma parse_source:
  assumes "writable e"
  shows "parseExpr (source_text e) line = Inr e"
proof -
  have "tokenize (source_text e) = Some (written 0 e)"
    unfolding source_text_def using written_ok [OF assms] by (rule tokenize_text)
  then show ?thesis by (simp add: parseExpr_def parse_tokens_written [OF assms])
qed


text \<open>
  C15: The expression parser ends on every list of tokens: with one step of fuel more than there
  are tokens it answers, and more fuel does not change the answer.
\<close>

theorem parse_ends:
  assumes "length ts < n"
  shows "\<exists>r. parseBinary n m ts = Some r \<and> parseBinary (Suc n) m ts = Some r"
  using parseBinary_ends [of ts m] parse_fuel [of ts n m] parse_fuel [of ts "Suc n" m] assms by auto

definition ex_open :: "token list" where
  "ex_open = [lparen, word_tok ''a'', op_tok ''+'', lparen]"

lemma parse_ends_witness: "\<exists>r. parseBinary 5 0 ex_open = Some r \<and> parseBinary (Suc 5) 0 ex_open = Some r"
  by (rule parse_ends) (simp add: ex_open_def)

text \<open>
  C14: An expression written as text, with parentheses only where precedence needs them and every
  literal escaped, is read back by the lexer and the parser as the same expression: operators of
  every precedence, access and index chains, calls, entity lookups, list, map and struct
  literals, and the forms of aggregate with their clauses.
\<close>

theorem source_reads_back:
  assumes "writable e"
  shows "parseExpr (source_text e) line = Inr e"
  using assms by (rule parse_source)

definition ex_source :: ast where
  "ex_source =
     ABin ''&&''
       (ABin ''<'' (ABin ''*'' (ABin ''+'' (ARef ''a'') (ALit (GInt 2) ''int'')) (AUn ''-'' (AGet (ARef ''p'') ''n'')))
         (AAgg (AstAgg ''sum'' ''Line'' [] ''l'' (Some (ABin ''in'' (AGet (ARef ''l'') ''id'') (AListLit [ARef ''a'', ARef ''b''])))
           (Some (ABin ''*'' (AGet (ARef ''l'') ''qty'') (AGet (ARef ''l'') ''price''))) [] False None None False)))
       (ACall ''contains'' [AEntityGet ''Post'' (ARef ''id'') ''title'', ALit (GStr [quote_char, CHR 0x0A]) ''text''])"

lemma source_reads_back_witness: "writable ex_source \<and> parseExpr (source_text ex_source) 1 = Inr ex_source"
proof
  show w: "writable ex_source" by code_simp
  show "parseExpr (source_text ex_source) 1 = Inr ex_source" by (rule source_reads_back [OF w])
qed

text \<open>A string left open after a backslash makes the lexer slice past the end of the text.\<close>

theorem open_escape_panics:
  "list_all (\<lambda>c. c \<noteq> quote_char \<and> c \<noteq> backslash) n \<Longrightarrow>
    parseExpr (quote_char # n @ [backslash]) line = Inl (line, LexerPanic)"
proof -
  assume "list_all (\<lambda>c. c \<noteq> quote_char \<and> c \<noteq> backslash) n"
  then have "scan_string (n @ [backslash]) = None" by (induction n) auto
  then show ?thesis by (simp add: parseExpr_def tokenize.simps(2))
qed

text \<open>
  A minimum over rows whose filter holds a list literal is taken for the builtin of two values:
  its comma is inside brackets, not inside parentheses. With the list in parentheses it is read.
\<close>

theorem comma_in_brackets_refused:
  "parse_tokens [word_tok ''min'', lparen, word_tok ''o'', op_tok ''.'', word_tok ''n'', word_tok ''in'', word_tok ''Order'',
      word_tok ''where'', word_tok ''o'', op_tok ''.'', word_tok ''k'', word_tok ''in'',
      op_tok ''['', word_tok ''a'', op_tok '','', word_tok ''b'', op_tok '']'', rparen]
   = Inl (CallNeedsComma ''min'')"
  by code_simp

theorem comma_in_parens_read:
  "\<exists>a. parse_tokens [word_tok ''min'', lparen, word_tok ''o'', op_tok ''.'', word_tok ''n'', word_tok ''in'', word_tok ''Order'',
      word_tok ''where'', word_tok ''o'', op_tok ''.'', word_tok ''k'', word_tok ''in'',
      lparen, op_tok ''['', word_tok ''a'', op_tok '','', word_tok ''b'', op_tok '']'', rparen, rparen]
   = Inr (AAgg a)"
  by (rule exI) code_simp

end
