(* ===== verification/Semver.thy ===== *)
theory Semver
  imports GoLib
begin

text \<open>
  The versions of the package manager (internal/registry/semver.go): reading them, their order,
  and the tag a selection form picks; and the lock of resolved
  modules (internal/registry/registry.go: \<open>pin\<close>, \<open>resolveAndPin\<close>, \<open>Resolve\<close>, \<open>Add\<close>, \<open>Update\<close>).
\<close>

subsection \<open>Versions\<close>

datatype semver = Semver (major: i64) (minor: i64) (patch: i64)

fun all_numbers :: "string list \<Rightarrow> i64 list option" where
  "all_numbers [] = Some []"
| "all_numbers (p # ps) = (case atoi p of
     None \<Rightarrow> None
   | Some n \<Rightarrow> if lt64 n 0 then None else map_option ((#) n) (all_numbers ps))"

definition nth_or_0 :: "i64 list \<Rightarrow> nat \<Rightarrow> i64" where
  "nth_or_0 xs i = (if i < length xs then xs ! i else 0)"

definition without_suffix :: "string \<Rightarrow> string" where
  "without_suffix s = (case index_any s ''-+'' of Some i \<Rightarrow> take i s | None \<Rightarrow> s)"

definition parseSemver :: "string \<Rightarrow> semver option" where
  "parseSemver s0 =
     (let s = without_suffix (trim_prefix (trim_space s0) ''v''); parts = str_split s ''.'' in
      if s = [] \<or> 3 < length parts then None
      else map_option (\<lambda>ns. Semver (nth_or_0 ns 0) (nth_or_0 ns 1) (nth_or_0 ns 2)) (all_numbers parts))"

text \<open>On ASCII text without white space there is nothing to trim.\<close>

lemma parseSemver_plain:
  "list_all (\<lambda>c. is_ascii [c] \<and> \<not> is_space (byte c)) s0 \<Longrightarrow> parseSemver s0 =
     (let s = without_suffix (trim_prefix s0 ''v''); parts = str_split s ''.'' in
      if s = [] \<or> 3 < length parts then None
      else map_option (\<lambda>ns. Semver (nth_or_0 ns 0) (nth_or_0 ns 1) (nth_or_0 ns 2)) (all_numbers parts))"
  using trim_space_ascii_id [of s0] by (simp add: parseSemver_def list_all_iff is_ascii_def)

definition sign :: "i64 \<Rightarrow> int" where
  "sign n = (if lt64 n 0 then - 1 else if lt64 0 n then 1 else 0)"

definition cmp :: "semver \<Rightarrow> semver \<Rightarrow> int" where
  "cmp a b =
     (if major a \<noteq> major b then sign (major a - major b)
      else if minor a \<noteq> minor b then sign (minor a - minor b)
      else if patch a \<noteq> patch b then sign (patch a - patch b)
      else 0)"

definition version_text :: "semver \<Rightarrow> string" where
  "version_text v = ''v'' @ show_int (sint (major v)) @ ''.'' @ show_int (sint (minor v)) @ ''.'' @ show_int (sint (patch v))"

text \<open>
  Versions in their order, number by number. On the versions that can be read, whose numbers are
  not negative, \<open>cmp\<close> is that order: no difference wraps.
\<close>

instantiation semver :: linorder
begin

definition less_semver :: "semver \<Rightarrow> semver \<Rightarrow> bool" where
  "less_semver a b \<longleftrightarrow>
     (sint (major a) < sint (major b) \<or> major a = major b \<and>
       (sint (minor a) < sint (minor b) \<or> minor a = minor b \<and> sint (patch a) < sint (patch b)))"

definition less_eq_semver :: "semver \<Rightarrow> semver \<Rightarrow> bool" where
  "less_eq_semver a b \<longleftrightarrow> a < b \<or> a = (b :: semver)"

instance
proof
  fix x y z :: semver
  show "(x < y) = (x \<le> y \<and> \<not> y \<le> x)"
    by (auto simp: less_semver_def less_eq_semver_def)
  show "x \<le> x" by (simp add: less_eq_semver_def)
  show "x \<le> y \<Longrightarrow> y \<le> z \<Longrightarrow> x \<le> z"
    by (auto simp: less_semver_def less_eq_semver_def)
  show "x \<le> y \<Longrightarrow> y \<le> x \<Longrightarrow> x = y"
    by (auto simp: less_semver_def less_eq_semver_def)
  show "x \<le> y \<or> y \<le> x"
    using sint_eq_iff64 by (cases x; cases y) (fastforce simp: less_semver_def less_eq_semver_def)
qed

end

definition natural :: "semver \<Rightarrow> bool" where
  "natural v \<longleftrightarrow> 0 \<le> sint (major v) \<and> 0 \<le> sint (minor v) \<and> 0 \<le> sint (patch v)"

lemma sign_diff:
  assumes "0 \<le> sint a" "0 \<le> sint b"
  shows "sign (a - b) = (if sint a < sint b then - 1 else if sint b < sint a then 1 else 0)"
proof -
  have "in_i64 (sint a - sint b)"
    using assms sint_range64 [of a] sint_range64 [of b] by (simp add: in_i64_def)
  then have "sint (a - b) = sint a - sint b"
    using sint_of_int64 [of "sint a - sint b"] by simp
  then show ?thesis by (simp add: sign_def lt64_def)
qed

lemma cmp_order:
  assumes "natural a" "natural b"
  shows "cmp a b = (if a < b then - 1 else if b < a then 1 else 0)"
  using assms sint_eq_iff64 unfolding natural_def cmp_def less_semver_def
  by (auto simp: sign_diff)

lemma all_numbers_natural: "all_numbers ps = Some ns \<Longrightarrow> n \<in> set ns \<Longrightarrow> 0 \<le> sint n"
  by (induction ps arbitrary: ns) (auto simp: lt64_def split: option.splits if_splits)

lemma parse_natural: "parseSemver s = Some v \<Longrightarrow> natural v"
  using all_numbers_natural
  by (auto simp: parseSemver_def natural_def nth_or_0_def Let_def split: if_splits)

subsection \<open>Selecting a tag\<close>

datatype tag = Tag (tg_name: string) (tg_commit: string)

datatype select_error = NoTags | BadRange string | NoMatch string | BadVersion string | NoSuchTag semver

text \<open>The tags that are versions, with the version; the highest of them, the first among equals.\<close>

definition versions_of :: "tag list \<Rightarrow> (tag \<times> semver) list" where
  "versions_of ts = List.map_filter (\<lambda>t. map_option (\<lambda>v. (t, v)) (parseSemver (tg_name t))) ts"

fun highest :: "(tag \<times> semver) option \<Rightarrow> (tag \<times> semver) list \<Rightarrow> (tag \<times> semver) option" where
  "highest best [] = best"
| "highest None (c # cs) = highest (Some c) cs"
| "highest (Some b) (c # cs) = highest (Some (if 0 < cmp (snd c) (snd b) then c else b)) cs"

definition in_range :: "bool \<Rightarrow> semver \<Rightarrow> semver \<Rightarrow> bool" where
  "in_range caret base v \<longleftrightarrow>
     \<not> (cmp v base < 0 \<or> major v \<noteq> major base) \<and> (caret \<or> minor v = minor base)"

definition is_range :: "string \<Rightarrow> bool" where
  "is_range form \<longleftrightarrow> has_prefix form ''^'' \<or> has_prefix form ''~''"

definition selectTag :: "tag list \<Rightarrow> string \<Rightarrow> select_error + tag" where
  "selectTag ts form =
     (let cands = versions_of ts in
      if cands = [] then Inl NoTags
      else if form = [] \<or> form = ''latest'' then
        (case highest None cands of Some c \<Rightarrow> Inr (fst c) | None \<Rightarrow> Inl NoTags)
      else if is_range form then
        (case parseSemver (drop 1 form) of
           None \<Rightarrow> Inl (BadRange form)
         | Some base \<Rightarrow>
             (case highest None (filter (\<lambda>c. in_range (has_prefix form ''^'') base (snd c)) cands) of
                Some c \<Rightarrow> Inr (fst c) | None \<Rightarrow> Inl (NoMatch form)))
      else
        (case parseSemver form of
           None \<Rightarrow> Inl (BadVersion form)
         | Some want \<Rightarrow>
             (case filter (\<lambda>c. cmp (snd c) want = 0) cands of
                c # _ \<Rightarrow> Inr (fst c) | [] \<Rightarrow> Inl (NoSuchTag want))))"

definition isTagForm :: "string \<Rightarrow> bool" where
  "isTagForm form = (parseSemver (if is_range form then drop 1 form else form) \<noteq> None)"

text \<open>A range of comparators, all of which hold; an unreadable one is an error.\<close>

definition satisfiesOne :: "string \<Rightarrow> semver \<Rightarrow> string + bool" where
  "satisfiesOne tok v =
     (let test = (\<lambda>n P. case parseSemver (drop n tok) of None \<Rightarrow> Inl tok | Some b \<Rightarrow> Inr (P b)) in
      if has_prefix tok ''>='' then test 2 (\<lambda>b. 0 \<le> cmp v b)
      else if has_prefix tok ''<='' then test 2 (\<lambda>b. cmp v b \<le> 0)
      else if has_prefix tok ''>'' then test 1 (\<lambda>b. 0 < cmp v b)
      else if has_prefix tok ''<'' then test 1 (\<lambda>b. cmp v b < 0)
      else if has_prefix tok ''='' then test 1 (\<lambda>b. cmp v b = 0)
      else if has_prefix tok ''^'' then test 1 (\<lambda>b. 0 \<le> cmp v b \<and> major v = major b)
      else if has_prefix tok ''~'' then test 1 (\<lambda>b. 0 \<le> cmp v b \<and> major v = major b \<and> minor v = minor b)
      else test 0 (\<lambda>b. cmp v b = 0))"

fun satisfies_all :: "string list \<Rightarrow> semver \<Rightarrow> string + bool" where
  "satisfies_all [] v = Inr True"
| "satisfies_all (t # ts) v = (case satisfiesOne t v of Inr True \<Rightarrow> satisfies_all ts v | r \<Rightarrow> r)"

definition satisfiesRange :: "string \<Rightarrow> semver \<Rightarrow> string + bool" where
  "satisfiesRange ex v = satisfies_all (str_fields ex) v"

lemma versions_of_natural: "(t, v) \<in> set (versions_of ts) \<Longrightarrow> natural v \<and> t \<in> set ts \<and> parseSemver (tg_name t) = Some v"
  by (auto simp: versions_of_def List.map_filter_def dest: parse_natural)

lemma highest_spec:
  assumes "\<forall>c \<in> set cs. natural (snd c)" "\<forall>b. best = Some b \<longrightarrow> natural (snd b)" "highest best cs = r"
  shows "(r = None \<longrightarrow> best = None \<and> cs = []) \<and>
    (\<forall>c. r = Some c \<longrightarrow> (c \<in> set cs \<or> best = Some c) \<and> (\<forall>d \<in> set cs. snd d \<le> snd c) \<and> (\<forall>b. best = Some b \<longrightarrow> snd b \<le> snd c))"
  using assms
proof (induction best cs arbitrary: r rule: highest.induct)
  case (3 b c cs)
  let ?m = "if 0 < cmp (snd c) (snd b) then c else b"
  have nat: "natural (snd b)" "natural (snd c)" using 3(2,3) by auto
  have m: "snd b \<le> snd ?m" "snd c \<le> snd ?m"
    using cmp_order [OF nat(2,1)] by (auto split: if_splits)
  have "\<forall>x. Some ?m = Some x \<longrightarrow> natural (snd x)" using nat by auto
  from 3(1) [OF _ this refl] 3(2,4) have ih: "(r = None \<longrightarrow> Some ?m = None \<and> cs = []) \<and>
    (\<forall>x. r = Some x \<longrightarrow> (x \<in> set cs \<or> Some ?m = Some x) \<and> (\<forall>d \<in> set cs. snd d \<le> snd x) \<and> (\<forall>y. Some ?m = Some y \<longrightarrow> snd y \<le> snd x))"
    by auto
  show ?case
  proof (intro conjI allI impI)
    show "Some b = None" "c # cs = []" if "r = None" using ih that by auto
    fix x assume x: "r = Some x"
    then show "x \<in> set (c # cs) \<or> Some b = Some x" using ih by (auto split: if_splits)
    have "snd ?m \<le> snd x" using ih x by blast
    then show "\<forall>d \<in> set (c # cs). snd d \<le> snd x" using ih x m by auto
    show "snd y \<le> snd x" if "Some b = Some y" for y
      using \<open>snd ?m \<le> snd x\<close> m(1) that by auto
  qed
qed auto

text \<open>What a selection form asks of a version.\<close>

definition wanted :: "string \<Rightarrow> semver \<Rightarrow> bool" where
  "wanted form v =
     (if form = [] \<or> form = ''latest'' then True
      else if is_range form then
        (\<exists>base \<in> set_option (parseSemver (drop 1 form)). base \<le> v \<and> major v = major base \<and>
          (has_prefix form ''^'' \<or> minor v = minor base))
      else parseSemver form = Some v)"

lemma versions_of_iff: "(t, v) \<in> set (versions_of ts) \<longleftrightarrow> t \<in> set ts \<and> parseSemver (tg_name t) = Some v"
  unfolding versions_of_def by (induction ts) (auto simp: List.map_filter_simps split: option.splits)

text \<open>The outcomes a selection may have: the tag of a highest allowed version, or none allowed.\<close>

definition highest_of :: "(tag \<times> semver) list \<Rightarrow> select_error + tag \<Rightarrow> bool" where
  "highest_of cs r \<longleftrightarrow>
     (case r of
        Inl e \<Rightarrow> cs = []
      | Inr t \<Rightarrow> \<exists>v. (t, v) \<in> set cs \<and> (\<forall>d \<in> set cs. snd d \<le> v))"

lemma highest_of_fold:
  assumes "\<forall>c \<in> set cs. natural (snd c)"
  shows "highest_of cs (case highest None cs of Some c \<Rightarrow> Inr (fst c) | None \<Rightarrow> Inl e)"
  using highest_spec [OF assms, of None "highest None cs"]
  by (cases "highest None cs") (auto simp: highest_of_def)

lemma in_range_iff:
  assumes "natural base" "natural v"
  shows "in_range caret base v \<longleftrightarrow> base \<le> v \<and> major v = major base \<and> (caret \<or> minor v = minor base)"
  using cmp_order [OF assms(2,1)] by (auto simp: in_range_def)

lemma cmp_eq_iff: "natural a \<Longrightarrow> natural b \<Longrightarrow> cmp a b = 0 \<longleftrightarrow> a = b"
  using cmp_order [of a b] by (auto split: if_splits)

lemma selectTag_allowed: "highest_of (filter (\<lambda>c. wanted form (snd c)) (versions_of ts)) (selectTag ts form)"
proof -
  let ?cands = "versions_of ts"
  let ?F = "filter (\<lambda>c. wanted form (snd c)) ?cands"
  have nat: "\<forall>c \<in> set ?cands. natural (snd c)" using versions_of_natural by fastforce
  then have natF: "\<forall>c \<in> set ?F. natural (snd c)" by simp
  consider "?cands = []" | "?cands \<noteq> []" "form = [] \<or> form = ''latest''"
    | "?cands \<noteq> []" "\<not> (form = [] \<or> form = ''latest'')" "is_range form"
    | "?cands \<noteq> []" "\<not> (form = [] \<or> form = ''latest'')" "\<not> is_range form" by blast
  then show ?thesis
  proof cases
    case 1
    then show ?thesis by (simp add: selectTag_def highest_of_def)
  next
    case 2
    then have F: "?F = ?cands" by (simp add: wanted_def)
    show ?thesis using 2 highest_of_fold [OF nat, of NoTags] unfolding F by (simp add: selectTag_def)
  next
    case 3
    show ?thesis
    proof (cases "parseSemver (drop 1 form)")
      case None
      then have "?F = []" using 3 by (simp add: wanted_def)
      then show ?thesis using 3 None by (simp add: selectTag_def highest_of_def)
    next
      case (Some base)
      then have F: "?F = filter (\<lambda>c. in_range (has_prefix form ''^'') base (snd c)) ?cands"
        using 3 nat by (intro filter_cong) (simp_all add: wanted_def in_range_iff parse_natural)
      show ?thesis using 3 Some highest_of_fold [OF natF, of "NoMatch form"] unfolding F by (simp add: selectTag_def)
    qed
  next
    case 4
    show ?thesis
    proof (cases "parseSemver form")
      case None
      then have "?F = []" using 4 by (simp add: wanted_def)
      then show ?thesis using 4 None by (simp add: selectTag_def highest_of_def)
    next
      case (Some want)
      then have F: "?F = filter (\<lambda>c. cmp (snd c) want = 0) ?cands"
        using 4 nat by (intro filter_cong) (auto simp: wanted_def cmp_eq_iff parse_natural)
      have eq: "\<forall>c \<in> set ?F. snd c = want" using 4 Some by (simp add: wanted_def)
      show ?thesis
      proof (cases ?F)
        case Nil
        then show ?thesis using 4 Some unfolding F by (simp add: selectTag_def highest_of_def)
      next
        case (Cons c cs)
        then have "selectTag ts form = Inr (fst c)" using 4 Some unfolding F by (simp add: selectTag_def)
        moreover have "(fst c, want) \<in> set ?F" using eq Cons by (cases c) auto
        moreover have "\<forall>d \<in> set ?F. snd d \<le> want" using eq by auto
        ultimately show ?thesis unfolding highest_of_def by (simp only: sum.case) blast
      qed
    qed
  qed
qed

text \<open>
  C32: A selection form picks a published version tag it allows, and no allowed version is higher;
  it fails only when no published tag is allowed.
\<close>

theorem selectTag_highest:
  assumes "selectTag ts form = r"
  shows "case r of
      Inr t \<Rightarrow> t \<in> set ts \<and> (\<exists>v. parseSemver (tg_name t) = Some v \<and> wanted form v \<and>
        (\<forall>u \<in> set ts. \<forall>w. parseSemver (tg_name u) = Some w \<and> wanted form w \<longrightarrow> w \<le> v))
    | Inl e \<Rightarrow> \<forall>u \<in> set ts. \<forall>w. parseSemver (tg_name u) = Some w \<longrightarrow> \<not> wanted form w"
proof -
  have r: "highest_of (filter (\<lambda>c. wanted form (snd c)) (versions_of ts)) r"
    using selectTag_allowed [of form ts] assms by simp
  show ?thesis
  proof (cases r)
    case (Inl e)
    then have "\<forall>c \<in> set (versions_of ts). \<not> wanted form (snd c)"
      using r by (simp add: highest_of_def filter_empty_conv)
    then show ?thesis unfolding Inl using versions_of_iff by fastforce
  next
    case (Inr t)
    then obtain v where v: "(t, v) \<in> set (filter (\<lambda>c. wanted form (snd c)) (versions_of ts))"
      and top: "\<forall>d \<in> set (filter (\<lambda>c. wanted form (snd c)) (versions_of ts)). snd d \<le> v"
      using r unfolding highest_of_def by auto
    have "w \<le> v" if "u \<in> set ts" "parseSemver (tg_name u) = Some w" "wanted form w" for u w
      using top versions_of_iff [of u w ts] that by fastforce
    then show ?thesis unfolding Inr using v versions_of_iff [of t v ts] by auto
  qed
qed

lemmas parse_eval = parseSemver_plain without_suffix_def index_any_def trim_prefix_def has_prefix_def Let_def
  str_split_def split_on.simps atoi_def parse_int_def parse_sign_def is_digit_def in_i64_def
  nth_or_0_def is_ascii_def is_space_def lt64_def digits_val_def digit_val_def

lemma parse_examples:
  "parseSemver ''1.2'' = Some (Semver 1 2 0)" "parseSemver ''v1.2.0'' = Some (Semver 1 2 0)"
  "parseSemver ''v1.10.0'' = Some (Semver 1 10 0)" "parseSemver ''main'' = None"
  "parseSemver ''v2.0.0'' = Some (Semver 2 0 0)" "parseSemver ''v1.0.0'' = Some (Semver 1 0 0)"
  "parseSemver ''v1.2.3'' = Some (Semver 1 2 3)" "parseSemver ''v1.2.3-rc1'' = Some (Semver 1 2 3)"
  by (simp_all add: parse_eval)

definition ex_tags :: "tag list" where
  "ex_tags = [Tag ''v1.2.0'' ''a'', Tag ''v1.10.0'' ''b'', Tag ''main'' ''c'', Tag ''v2.0.0'' ''d'']"

lemma selectTag_highest_witness:
  "(case selectTag ex_tags ''^1.2'' of
      Inr t \<Rightarrow> t \<in> set ex_tags \<and> (\<exists>v. parseSemver (tg_name t) = Some v \<and> wanted ''^1.2'' v \<and>
        (\<forall>u \<in> set ex_tags. \<forall>w. parseSemver (tg_name u) = Some w \<and> wanted ''^1.2'' w \<longrightarrow> w \<le> v))
    | Inl e \<Rightarrow> \<forall>u \<in> set ex_tags. \<forall>w. parseSemver (tg_name u) = Some w \<longrightarrow> \<not> wanted ''^1.2'' w)
   \<and> selectTag ex_tags ''^1.2'' = Inr (Tag ''v1.10.0'' ''b'')"
proof
  show "selectTag ex_tags ''^1.2'' = Inr (Tag ''v1.10.0'' ''b'')"
    by (simp add: selectTag_def ex_tags_def versions_of_def List.map_filter_simps parse_examples is_range_def
        has_prefix_def in_range_def cmp_def sign_def lt64_def)
qed (rule selectTag_highest [OF refl])

text \<open>An exact form takes a pre-release tag that stands before the release: the suffix is dropped.\<close>

theorem exact_takes_prerelease:
  "selectTag [Tag ''v1.2.3-rc1'' ''a'', Tag ''v1.2.3'' ''b''] ''v1.2.3'' = Inr (Tag ''v1.2.3-rc1'' ''a'')"
  by (simp add: selectTag_def versions_of_def List.map_filter_simps parse_examples is_range_def has_prefix_def cmp_def)

subsection \<open>The lock\<close>

record modul =
  md_version :: string
  md_commit :: string
  md_integrity :: string
  md_main :: string

type_synonym lock = "(string \<times> modul) list"

datatype resolve_error = Select select_error | Remote string | TwoMajors string string string

definition isHexSHA :: "string \<Rightarrow> bool" where
  "isHexSHA s \<longleftrightarrow> length s = 40 \<and>
     list_all (\<lambda>c. (CHR ''0'' \<le> c \<and> c \<le> CHR ''9'') \<or> (CHR ''a'' \<le> c \<and> c \<le> CHR ''f'') \<or> (CHR ''A'' \<le> c \<and> c \<le> CHR ''F'')) s"

text \<open>
  Pinning a module: a repository pinned at one major is refused at another (\<open>Resolver.pin\<close>). A
  pin at a branch or a commit is no version and is replaced.
\<close>

definition pin :: "lock \<Rightarrow> string \<Rightarrow> modul \<Rightarrow> resolve_error + lock" where
  "pin l key entry =
     (case alget l key of
        None \<Rightarrow> Inr (alput l key entry)
      | Some old \<Rightarrow>
          (case (parseSemver (md_version old), parseSemver (md_version entry)) of
             (Some ov, Some nv) \<Rightarrow>
               if major ov \<noteq> major nv then Inl (TwoMajors key (md_version old) (md_version entry))
               else Inr (alput l key entry)
           | _ \<Rightarrow> Inr (alput l key entry)))"

text \<open>
  What the network answers for a repository: its tags, the commit of a branch, and the fetched
  and checked module of a commit (its integrity hash and its entry file).
\<close>

record remote =
  rm_tags :: "string \<Rightarrow> string + tag list"
  rm_ref :: "string \<Rightarrow> string \<Rightarrow> string + string"
  rm_fetch :: "string \<Rightarrow> string \<Rightarrow> string + (string \<times> string)"

definition chosen :: "remote \<Rightarrow> string \<Rightarrow> string \<Rightarrow> resolve_error + (string \<times> string)" where
  "chosen net key form =
     (if isHexSHA form then Inr (form, form)
      else if form = [] \<or> form = ''latest'' \<or> isTagForm form then
        (case rm_tags net key of
           Inl e \<Rightarrow> Inl (Remote e)
         | Inr ts \<Rightarrow> (case selectTag ts form of Inl e \<Rightarrow> Inl (Select e) | Inr t \<Rightarrow> Inr (tg_name t, tg_commit t)))
      else (case rm_ref net key form of Inl e \<Rightarrow> Inl (Remote e) | Inr sha \<Rightarrow> Inr (form, sha)))"

definition resolveAndPin :: "remote \<Rightarrow> lock \<Rightarrow> string \<Rightarrow> string \<Rightarrow> resolve_error + (modul \<times> lock)" where
  "resolveAndPin net l key form =
     (case chosen net key form of
        Inl e \<Rightarrow> Inl e
      | Inr (v, c) \<Rightarrow>
          (case rm_fetch net key c of
             Inl e \<Rightarrow> Inl (Remote e)
           | Inr (i, m) \<Rightarrow>
               (let entry = \<lparr>md_version = v, md_commit = c, md_integrity = i, md_main = m\<rparr> in
                map_sum id (Pair entry) (pin l key entry))))"

text \<open>
  \<open>Resolve\<close> takes a locked repository as it is pinned and pins a new one at its latest release;
  \<open>Add\<close> and \<open>Update\<close> drop the pin first, so a failure leaves the repository out of the lock in
  memory.
\<close>

definition Resolve :: "remote \<Rightarrow> lock \<Rightarrow> string \<Rightarrow> (resolve_error + modul) \<times> lock" where
  "Resolve net l key =
     (case alget l key of
        Some entry \<Rightarrow> (Inr entry, l)
      | None \<Rightarrow> (case resolveAndPin net l key ''latest'' of Inl e \<Rightarrow> (Inl e, l) | Inr (m, l') \<Rightarrow> (Inr m, l')))"

definition Add :: "remote \<Rightarrow> lock \<Rightarrow> string \<Rightarrow> string \<Rightarrow> (resolve_error + modul) \<times> lock" where
  "Add net l key form =
     (let l0 = aldel l key in
      case resolveAndPin net l0 key form of Inl e \<Rightarrow> (Inl e, l0) | Inr (m, l') \<Rightarrow> (Inr m, l'))"

definition Update :: "remote \<Rightarrow> lock \<Rightarrow> string \<Rightarrow> (resolve_error + modul) \<times> lock" where
  "Update net l key = Add net l key ''latest''"

fun UpdateAll :: "remote \<Rightarrow> lock \<Rightarrow> string list \<Rightarrow> resolve_error option \<times> lock" where
  "UpdateAll net l [] = (None, l)"
| "UpdateAll net l (k # ks) =
     (case Update net l k of (Inl e, l') \<Rightarrow> (Some e, l') | (Inr m, l') \<Rightarrow> UpdateAll net l' ks)"

datatype lock_op = Resolve_op string | Add_op string string | UpdateAll_op "string list"

fun lock_step :: "remote \<Rightarrow> lock \<Rightarrow> lock_op \<Rightarrow> resolve_error option \<times> lock" where
  "lock_step net l (Resolve_op k) = (case Resolve net l k of (r, l') \<Rightarrow> (case r of Inl e \<Rightarrow> Some e | _ \<Rightarrow> None, l'))"
| "lock_step net l (Add_op k f) = (case Add net l k f of (r, l') \<Rightarrow> (case r of Inl e \<Rightarrow> Some e | _ \<Rightarrow> None, l'))"
| "lock_step net l (UpdateAll_op ks) = UpdateAll net l ks"

lemma pin_absent: "alget l key = None \<Longrightarrow> pin l key m = Inr (alput l key m)"
  by (simp add: pin_def)

lemma chosen_error: "chosen net key form = Inl e \<Longrightarrow> e \<noteq> TwoMajors k a b"
  by (auto simp: chosen_def split: if_splits sum.splits)

lemma resolveAndPin_absent: "alget l key = None \<Longrightarrow> resolveAndPin net l key form \<noteq> Inl (TwoMajors k a b)"
  using chosen_error [of net key form _ k a b]
  by (auto simp: resolveAndPin_def pin_absent Let_def split: sum.splits)

lemma Add_no_majors: "fst (Add net l key form) \<noteq> Inl (TwoMajors k a b)"
  using resolveAndPin_absent [of "aldel l key" key net form k a b]
  by (auto simp: Add_def Let_def split: sum.splits)

lemma UpdateAll_no_majors: "fst (UpdateAll net l ks) \<noteq> Some (TwoMajors k a b)"
proof (induction ks arbitrary: l)
  case (Cons x ks)
  then show ?case using Add_no_majors [of net l x "''latest''" k a b]
    by (auto simp: Update_def split: prod.splits sum.splits)
qed simp

text \<open>
  The check for two majors never refuses: every operation pins a repository only where the lock
  has no pin of it, so what \<open>pin\<close> calls a hard error cannot happen.
\<close>

theorem majors_never_refused: "fst (lock_step net l oper) \<noteq> Some (TwoMajors k a b)"
proof (cases oper)
  case (Resolve_op x)
  then show ?thesis using resolveAndPin_absent [of l x net "''latest''" k a b]
    by (auto simp: Resolve_def split: option.splits sum.splits)
next
  case (Add_op x f)
  then show ?thesis using Add_no_majors [of net l x f k a b] by (auto split: prod.splits sum.splits)
next
  case (UpdateAll_op ks)
  then show ?thesis using UpdateAll_no_majors [of net l ks k a b] by simp
qed

text \<open>A locked repository is resolved to its pin and nothing is asked of the network.\<close>

lemma Resolve_locked: "alget l key = Some m \<Longrightarrow> Resolve net l key = (Inr m, l)"
  by (simp add: Resolve_def)

end
