(* ===== verification/Spec2Isabelle.thy ===== *)
theory Spec2Isabelle
  imports StoreLaws TenantLaws LowerLaws Jobs Streams ReadBack Semver
begin

text \<open>
  Facet is a language and a server: a program (.fct) declares entities, derived values,
  policies, actions, triggers, streams and jobs; the compiler (internal/parser, internal/ir)
  lowers it to an intermediate form, and the runtime (runtime/) evaluates it, answers reads
  through row indexes, runs actions with an undo log over a working set of rows, commits to a
  store, and publishes the events that follow. This development models that core and proves
  what its parts promise. Every definition names the code it models in the manifest; the
  theories are in the order of the layers.

  \<^item> \<open>Values and operators.\<close> \<open>Prelude\<close> has Go's 64-bit int as a word, Go strings as byte lists,
    Go maps as association lists, and the stable sort over a \<open>sort_order\<close>. \<open>GoLib\<close> and \<open>GoFloat\<close>
    model what the program uses of Go's library: UTF-8, package strings, strconv, and IEEE
    doubles exactly (a significand and an exponent, rounded to nearest even). \<open>Values\<close>, \<open>Ops\<close>,
    \<open>Builtins\<close>, \<open>Dispatch\<close> and \<open>Reduce\<close> model runtime/eval.go, u64.go, bytesval.go and format.go:
    conversions, equality, \<open>applyBin\<close>, indexing by rune and by element, the builtin table,
    ordering and aggregation. Clock, randomness, Unicode tables, cryptography and JSON are the
    record \<open>stdlib\<close>, a parameter.
  \<^item> \<open>Evaluation.\<close> \<open>Expr\<close>, \<open>RowIndex\<close> and \<open>Eval\<close> model the compiled expressions, the two views of
    a row index (rowindex.go) and the evaluator with its early stop; the locale \<open>row_filter\<close> is
    what a reader asks of an index (candidates, in order, missing nothing), interpreted on both
    index lookups, and \<open>aggregate_index_sound\<close> rests on it.
  \<^item> \<open>The store.\<close> \<open>MemStore\<close> models the entity graph (ir.go) and memstore.go: rows, restrict,
    cascade and setNull deletes, transactions, queries and paging, sessions, the job queue.
    \<open>StoreLaws\<close> proves reference integrity, paging and claims; the locale \<open>row_store\<close> (a read after
    writes) is interpreted on \<open>Save\<close>.
  \<^item> \<open>Boundaries.\<close> \<open>Columns\<close> models how an argument is bound to a typed parameter, how a value is
    stored in a typed column, and the declared constraints (server.go, store.go, wirearg.go).
  \<^item> \<open>Actions.\<close> \<open>Action\<close> and \<open>ActionExec\<close> model server.go and undo.go: the working set as an address
    space of shared rows, the frame, the undo log, each statement, nested runs, the gate of
    policies, the commit and the reactions. \<open>ActionLaws\<close> has the locale \<open>logged_writes\<close>: a property
    of the frame kept by each logged write is kept by every statement, block and nested run. Its
    interpretations give rollback (\<open>failed_action_changes_nothing\<close>), the independence of other
    sessions and the ownership of rows. \<open>ActionSafety\<close> has the gate.
  \<^item> \<open>Accounts and tenants.\<close> \<open>Accounts\<close> models auth.go, the lockout of ratelimit.go and tenancy.go
    over the same working set and sessions; \<open>AccountLaws\<close> and \<open>TenantLaws\<close> prove the second factor,
    the mirror of accounts in sessions and how a membership is gained (locale \<open>managed_rows\<close>).
  \<^item> \<open>The compiler's expressions.\<close> \<open>Lexer\<close> and \<open>ExprParser\<close> model parser/expr.go, \<open>Subst\<close> and \<open>Lower\<close>
    the lowering in ir/build.go. \<open>ParserLaws\<close> proves that parsing ends, \<open>Written\<close> and \<open>ReadBack\<close> that
    what is written is read back, \<open>LowerLaws\<close> that lowering keeps the value of the source.
  \<^item> \<open>Graphs of the compiler and what they guarantee at run time.\<close> \<open>Graph\<close> models the three-colour
    search of ir/build.go; \<open>Chains\<close> proves that triggers and runs it accepts are never cut by the
    depth caps of the runtime.
  \<^item> \<open>Delivery.\<close> \<open>Streams\<close> models streams.go (logs, fan-out, bounded channels, resumption) and \<open>Jobs\<close>
    the worker of jobs.go over the store's queue.

  Properties are stated of the code as it is. Where modelling showed the code to do something
  else than its comments say, a theorem without a claim number states what it does, and the
  manifest lists it as a finding.

  Fuel and bounds. A store commit takes the number of its operations as fuel for a cascade's
  depth; a working-set cascade takes one more than the number of rows, as each level removes
  one. Nested runs and triggers have the depth caps of the code itself (\<open>max_run_depth\<close>,
  \<open>max_trigger_depth\<close>). A graph search takes as many steps as there are names. The parser takes
  one step more than there are tokens, and \<open>parse_ends\<close> shows that it is enough. A restrict check
  of the store may not end on cyclic rows; there fuel stands for the stack of the code, and
  running out is the value \<open>None\<close>.

  Not modelled: the statement and view parser, type checking and component expansion of the
  compiler; the proc engine (an action's procs are a function of the model, and a proc that fails
  inside an expression answers nil instead of aborting the action); HTML rendering and live
  regions; the FacetQL network client and store; files, sockets, TLS and processes; cryptography,
  identity providers, billing, media; the cluster; the registry; code generation, the language
  server and the command line. Interleaving is modelled where the code locks: an action, an
  account step or a stream event is one step; the rate limiter's clock arithmetic is left out.
\<close>

end
